(* ===== verification/Prelude.thy ===== *)
theory Prelude
  imports Main "HOL-Library.Word"
begin

text \<open>
  Shared vocabulary of the development: machine integers and byte buffers, panics as values,
  Rust's checked arithmetic, \<open>io::Result\<close>, big- and little-endian conversion, in-place writes
  into buffers, and the generic reachability argument used by every state machine.
\<close>

unbundle bit_operations_syntax

named_theorems buf_simps \<open>lengths and contents of buffers after reads and writes\<close>
named_theorems endian_simps \<open>byte order conversions\<close>

section \<open>Machine types\<close>

type_synonym u8 = "8 word"
type_synonym u16 = "16 word"
type_synonym u32 = "32 word"
type_synonym u128 = "128 word"
type_synonym bytes = "u8 list"

section \<open>Panics and I/O errors as values\<close>

text \<open>
  Everything that unwinds a Rust task is a value of \<open>outcome\<close>: an index out of range, an
  \<open>unwrap\<close> or \<open>expect\<close> of the wrong variant, \<open>unreachable!\<close>, a failed \<open>assert!\<close> and, when
  the build checks overflow, an arithmetic overflow.
\<close>

datatype panic =
    Index_out_of_bounds
  | Unwrap_failed
  | Expect_failed string
  | Unreachable_code
  | Assertion_failed
  | Arithmetic_overflow

datatype 'a outcome = Ret (the_ret: 'a) | Panic panic

fun obind :: "'a outcome \<Rightarrow> ('a \<Rightarrow> 'b outcome) \<Rightarrow> 'b outcome" where
  "obind (Ret x) f = f x"
| "obind (Panic p) f = Panic p"

fun panics :: "'a outcome \<Rightarrow> bool" where
  "panics (Ret x) = False"
| "panics (Panic p) = True"

lemma obind_eq_Ret_iff: "obind m f = Ret y \<longleftrightarrow> (\<exists>x. m = Ret x \<and> f x = Ret y)"
  by (cases m) auto

lemma not_panics_iff: "\<not> panics m \<longleftrightarrow> (\<exists>x. m = Ret x)"
  by (cases m) auto

text \<open>
  \<open>a + b\<close> on \<open>u32\<close>. With overflow checks (debug builds) an overflow panics; without them
  (release builds) the sum wraps. The flag is the build's \<open>overflow-checks\<close> setting.
\<close>

definition add_u32 :: "bool \<Rightarrow> u32 \<Rightarrow> u32 \<Rightarrow> u32 outcome" where
  "add_u32 overflow_checks a b =
     (if overflow_checks \<and> 2 ^ 32 \<le> unat a + unat b then Panic Arithmetic_overflow
      else Ret (a + b))"

lemma add_u32_release [simp]: "add_u32 False a b = Ret (a + b)"
  by (simp add: add_u32_def)

lemma add_u32_small: "unat a + unat b < 2 ^ 32 \<Longrightarrow> add_u32 m a b = Ret (a + b)"
  by (simp add: add_u32_def)

text \<open>
  \<open>std::io::Error\<close>: an error with a kind and a message, or a raw operating system error whose kind
  is decoded from the macOS error number.
\<close>

datatype io_kind =
    AddrNotAvailable | BrokenPipe | Interrupted | InvalidData | InvalidInput | NotFound | Other
  | PermissionDenied | ResourceBusy | UnexpectedEof | Unsupported | WouldBlock | WriteZero
  | Uncategorized

datatype io_error = Custom io_kind string | Os nat

type_synonym 'a io = "io_error + 'a"

fun os_kind :: "nat \<Rightarrow> io_kind" where
  "os_kind n =
     (if n \<in> {1, 13} then PermissionDenied else if n = 2 then NotFound else if n = 4 then Interrupted
      else if n = 16 then ResourceBusy else if n = 22 then InvalidInput else if n = 32 then BrokenPipe
      else if n = 35 then WouldBlock else if n = 49 then AddrNotAvailable else Uncategorized)"

fun error_kind :: "io_error \<Rightarrow> io_kind" where
  "error_kind (Custom k m) = k"
| "error_kind (Os n) = os_kind n"

fun raw_os_error :: "io_error \<Rightarrow> nat option" where
  "raw_os_error (Custom k m) = None"
| "raw_os_error (Os n) = Some n"

fun io_bind :: "'a io \<Rightarrow> ('a \<Rightarrow> 'b io) \<Rightarrow> 'b io" where
  "io_bind (Inr x) f = f x"
| "io_bind (Inl e) f = Inl e"

fun is_ok :: "'a io \<Rightarrow> bool" where
  "is_ok (Inr x) = True"
| "is_ok (Inl e) = False"

lemma io_bind_eq_Inr_iff: "io_bind m f = Inr y \<longleftrightarrow> (\<exists>x. m = Inr x \<and> f x = Inr y)"
  by (cases m) auto

section \<open>Byte order\<close>

text \<open>\<open>nat_bytes k n\<close> is \<open>n\<close> as \<open>k\<close> bytes, most significant first; \<open>bytes_nat\<close> reads it back.\<close>

fun nat_bytes :: "nat \<Rightarrow> nat \<Rightarrow> bytes" where
  "nat_bytes 0 n = []"
| "nat_bytes (Suc k) n = nat_bytes k (n div 256) @ [word_of_nat n]"

definition bytes_nat :: "bytes \<Rightarrow> nat" where
  "bytes_nat bs = foldl (\<lambda>a b. a * 256 + unat b) 0 bs"

lemma bytes_nat_Nil [simp]: "bytes_nat [] = 0"
  by (simp add: bytes_nat_def)

lemma bytes_nat_snoc [simp]: "bytes_nat (bs @ [b]) = bytes_nat bs * 256 + unat b"
  by (simp add: bytes_nat_def)

lemma length_nat_bytes [simp]: "length (nat_bytes k n) = k"
  by (induction k n rule: nat_bytes.induct) simp_all

lemma unat_u8_less [simp]: "unat (b :: u8) < 256"
  using unsigned_less [of b] by simp

lemma unat_u16_less [simp]: "unat (w :: u16) < 65536"
  using unsigned_less [of w] by simp

lemma unat_of_nat_u8 [simp]: "unat (word_of_nat n :: u8) = n mod 256"
  by (simp add: unat_of_nat)

lemma bytes_nat_nat_bytes: "bytes_nat (nat_bytes k n) = n mod 256 ^ k"
proof (induction k n rule: nat_bytes.induct)
  case (2 k n)
  have "n div 256 mod 256 ^ k * 256 + n mod 256 = n mod (256 * 256 ^ k)"
    using mod_mult2_eq [of n 256 "256 ^ k"] by (simp add: mult.commute)
  with 2 show ?case by simp
qed simp

lemma bytes_nat_less: "bytes_nat bs < 256 ^ length bs"
proof (induction bs rule: rev_induct)
  case (snoc b bs)
  have "bytes_nat bs * 256 + unat b < (bytes_nat bs + 1) * 256"
    using unat_u8_less [of b] by simp
  also have "\<dots> \<le> 256 ^ length bs * 256"
    using snoc by (intro mult_le_mono1) simp
  finally show ?case by simp
qed simp

lemma nat_bytes_bytes_nat: "nat_bytes (length bs) (bytes_nat bs) = bs"
proof (induction bs rule: rev_induct)
  case (snoc b bs)
  have "(bytes_nat bs * 256 + unat b) div 256 = bytes_nat bs"
    using unat_u8_less [of b] by simp
  moreover have "(word_of_nat (bytes_nat bs * 256 + unat b) :: u8) = b"
    by (rule word_unat_eq_iff [THEN iffD2]) (simp only: unat_of_nat_u8, simp)
  ultimately show ?case using snoc by simp
qed simp

lemma nat_bytes_2 [endian_simps]: "nat_bytes 2 n = [word_of_nat (n div 256), word_of_nat n]"
  by (simp add: numeral_2_eq_2)

lemma nat_bytes_4 [endian_simps]:
  "nat_bytes 4 n = [word_of_nat (n div 256 div 256 div 256), word_of_nat (n div 256 div 256),
     word_of_nat (n div 256), word_of_nat n]"
proof -
  have four: "4 = Suc (Suc (Suc (Suc 0)))" by simp
  show ?thesis unfolding four by (simp only: nat_bytes.simps append.simps)
qed

text \<open>\<open>to_be_bytes\<close> and \<open>from_be_bytes\<close> of \<open>u16\<close> and \<open>u32\<close>, and the octets of an address.\<close>

definition u16_to_be :: "u16 \<Rightarrow> bytes" where
  "u16_to_be w = nat_bytes 2 (unat w)"

definition u16_from_be :: "bytes \<Rightarrow> u16" where
  "u16_from_be bs = word_of_nat (bytes_nat bs)"

definition u32_to_be :: "u32 \<Rightarrow> bytes" where
  "u32_to_be w = nat_bytes 4 (unat w)"

definition u32_from_be :: "bytes \<Rightarrow> u32" where
  "u32_from_be bs = word_of_nat (bytes_nat bs)"

definition u128_to_be :: "u128 \<Rightarrow> bytes" where
  "u128_to_be w = nat_bytes 16 (unat w)"

definition u128_from_be :: "bytes \<Rightarrow> u128" where
  "u128_from_be bs = word_of_nat (bytes_nat bs)"

text \<open>
  \<open>to_ne_bytes\<close> and \<open>from_ne_bytes\<close>: the build script produces exactly the two little-endian
  targets \<open>x86_64-apple-darwin\<close> and \<open>aarch64-apple-darwin\<close>.
\<close>

definition u16_to_ne :: "u16 \<Rightarrow> bytes" where
  "u16_to_ne w = rev (u16_to_be w)"

definition u16_from_ne :: "bytes \<Rightarrow> u16" where
  "u16_from_ne bs = u16_from_be (rev bs)"

definition u32_to_ne :: "u32 \<Rightarrow> bytes" where
  "u32_to_ne w = rev (u32_to_be w)"

definition u32_from_ne :: "bytes \<Rightarrow> u32" where
  "u32_from_ne bs = u32_from_be (rev bs)"

lemma length_to_be [simp]:
  "length (u16_to_be a) = 2" "length (u32_to_be b) = 4" "length (u128_to_be c) = 16"
  by (simp_all add: u16_to_be_def u32_to_be_def u128_to_be_def)

lemma length_to_ne [simp]: "length (u16_to_ne a) = 2" "length (u32_to_ne b) = 4"
  by (simp_all add: u16_to_ne_def u32_to_ne_def)

lemma word_of_bytes_of_word:
  "(256::nat) ^ k = 2 ^ LENGTH('a::len) \<Longrightarrow> (word_of_nat (bytes_nat (nat_bytes k (unat w))) :: 'a word) = w"
  using unsigned_less [of w] by (simp add: bytes_nat_nat_bytes)

lemma u16_from_to_be [simp]: "u16_from_be (u16_to_be w) = w"
  by (simp add: u16_from_be_def u16_to_be_def word_of_bytes_of_word)

lemma u32_from_to_be [simp]: "u32_from_be (u32_to_be w) = w"
  by (simp add: u32_from_be_def u32_to_be_def word_of_bytes_of_word)

lemma u128_from_to_be [simp]: "u128_from_be (u128_to_be w) = w"
  by (simp add: u128_from_be_def u128_to_be_def word_of_bytes_of_word)

lemma u16_from_to_ne [simp]: "u16_from_ne (u16_to_ne w) = w"
  by (simp add: u16_from_ne_def u16_to_ne_def)

lemma u32_from_to_ne [simp]: "u32_from_ne (u32_to_ne w) = w"
  by (simp add: u32_from_ne_def u32_to_ne_def)

lemma bytes_of_word_of_bytes:
  "length bs = k \<Longrightarrow> (256::nat) ^ k = 2 ^ LENGTH('a::len)
    \<Longrightarrow> nat_bytes k (unat (word_of_nat (bytes_nat bs) :: 'a word)) = bs"
  using bytes_nat_less [of bs] nat_bytes_bytes_nat [of bs]
  by (auto simp: unat_of_nat)

lemma u16_to_from_be: "length bs = 2 \<Longrightarrow> u16_to_be (u16_from_be bs) = bs"
  by (simp add: u16_from_be_def u16_to_be_def bytes_of_word_of_bytes)

lemma u32_to_from_be: "length bs = 4 \<Longrightarrow> u32_to_be (u32_from_be bs) = bs"
  by (simp add: u32_from_be_def u32_to_be_def bytes_of_word_of_bytes)

lemma u16_to_be_inject [simp]: "u16_to_be a = u16_to_be b \<longleftrightarrow> a = b"
  by (metis u16_from_to_be)

lemma u32_to_be_inject [simp]: "u32_to_be a = u32_to_be b \<longleftrightarrow> a = b"
  by (metis u32_from_to_be)

lemma u128_to_be_inject [simp]: "u128_to_be a = u128_to_be b \<longleftrightarrow> a = b"
  by (metis u128_from_to_be)

section \<open>Reading and writing buffers in place\<close>

text \<open>
  \<open>chunk off n b\<close> is \<open>b[off..off + n]\<close>; \<open>write_at off vs b\<close> is \<open>b\<close> after
  \<open>b[off..off + vs.len()].copy_from_slice(vs)\<close>. Both are used where the range is in bounds.
\<close>

definition chunk :: "nat \<Rightarrow> nat \<Rightarrow> 'a list \<Rightarrow> 'a list" where
  "chunk off n b = take n (drop off b)"

definition write_at :: "nat \<Rightarrow> 'a list \<Rightarrow> 'a list \<Rightarrow> 'a list" where
  "write_at off vs b = take off b @ vs @ drop (off + length vs) b"

lemma length_chunk [simp]: "length (chunk off n b) = min n (length b - off)"
  by (simp add: chunk_def min.commute)

lemma length_write_at [simp]: "off + length vs \<le> length b \<Longrightarrow> length (write_at off vs b) = length b"
  by (simp add: write_at_def)

lemma chunk_write_at_same:
  "off + length vs \<le> length b \<Longrightarrow> n = length vs \<Longrightarrow> chunk off n (write_at off vs b) = vs"
  by (simp add: chunk_def write_at_def)

lemma chunk_append_left: "off + n \<le> length xs \<Longrightarrow> chunk off n (xs @ ys) = chunk off n xs"
  by (simp add: chunk_def)

lemma chunk_append_right:
  "length xs \<le> off \<Longrightarrow> chunk off n (xs @ ys) = chunk (off - length xs) n ys"
  by (simp add: chunk_def)

lemma chunk_append_exact [simp]: "n = length xs \<Longrightarrow> chunk 0 n (xs @ ys) = xs"
  by (simp add: chunk_def)

lemma chunk_zero_all [simp]: "n = length xs \<Longrightarrow> chunk 0 n xs = xs"
  by (simp add: chunk_def)

lemma chunk_take: "off + n \<le> k \<Longrightarrow> chunk off n (take k b) = chunk off n b"
  by (simp add: chunk_def drop_take min_def)

lemma chunk_zero_take: "chunk 0 n b = take n b"
  by (simp add: chunk_def)

text \<open>An index in bounds; the model's reads check it first, as Rust's indexing does.\<close>

definition index_byte :: "bytes \<Rightarrow> nat \<Rightarrow> u8 outcome" where
  "index_byte b i = (if i < length b then Ret (b ! i) else Panic Index_out_of_bounds)"

text \<open>\<open>b[i..i + n]\<close> with Rust's bounds check.\<close>

definition index_range :: "bytes \<Rightarrow> nat \<Rightarrow> nat \<Rightarrow> bytes outcome" where
  "index_range b i n = (if i + n \<le> length b then Ret (chunk i n b) else Panic Index_out_of_bounds)"

section \<open>Decimal output\<close>

text \<open>\<open>Display\<close> of unsigned and signed integers.\<close>

fun show_nat :: "nat \<Rightarrow> string" where
  "show_nat n = (if n < 10 then [char_of (48 + n)] else show_nat (n div 10) @ [char_of (48 + n mod 10)])"

declare show_nat.simps [simp del]

definition show_int :: "int \<Rightarrow> string" where
  "show_int i = (if i < 0 then ''-'' @ show_nat (nat (- i)) else show_nat (nat i))"

section \<open>State machines\<close>

text \<open>
  The contract between a step relation and an invariant. Each state machine of the development
  interprets it once and obtains its reachability theorem from it.
\<close>

locale step_invariant =
  fixes start :: "'s \<Rightarrow> bool"
    and step :: "'s \<Rightarrow> 's \<Rightarrow> bool"
    and inv :: "'s \<Rightarrow> bool"
  assumes start_inv: "start s \<Longrightarrow> inv s"
    and step_inv: "inv s \<Longrightarrow> step s t \<Longrightarrow> inv t"
begin

lemma run_inv: "step\<^sup>*\<^sup>* s t \<Longrightarrow> inv s \<Longrightarrow> inv t"
  by (induction rule: rtranclp_induct) (auto intro: step_inv)

lemma reachable_inv: "start s \<Longrightarrow> step\<^sup>*\<^sup>* s t \<Longrightarrow> inv t"
  by (blast intro: run_inv start_inv)

end

end
