(* ===== verification/Net.thy ===== *)
theory Net
  imports Prelude
begin

text \<open>
  The part of \<open>std::net\<close> the program uses: addresses as fixed-width words, socket addresses with
  the flow label and scope identifier an IPv6 socket address carries, \<open>SocketAddr::new\<close>, the
  accessors, and structural equality. \<open>SocketAddr::new\<close> always yields a zero flow label and scope.
\<close>

type_synonym ipv4_addr = u32
type_synonym ipv6_addr = u128

datatype ip_addr = IpV4 ipv4_addr | IpV6 ipv6_addr

datatype socket_addr_v4 = SocketAddrV4 (ip4: ipv4_addr) (port4: u16)

datatype socket_addr_v6 =
  SocketAddrV6 (ip6: ipv6_addr) (port6: u16) (flowinfo: u32) (scope_id: u32)

datatype socket_addr = V4 socket_addr_v4 | V6 socket_addr_v6

fun socket_addr_new :: "ip_addr \<Rightarrow> u16 \<Rightarrow> socket_addr" where
  "socket_addr_new (IpV4 a) p = V4 (SocketAddrV4 a p)"
| "socket_addr_new (IpV6 a) p = V6 (SocketAddrV6 a p 0 0)"

fun addr_ip :: "socket_addr \<Rightarrow> ip_addr" where
  "addr_ip (V4 a) = IpV4 (ip4 a)"
| "addr_ip (V6 a) = IpV6 (ip6 a)"

fun addr_port :: "socket_addr \<Rightarrow> u16" where
  "addr_port (V4 a) = port4 a"
| "addr_port (V6 a) = port6 a"

fun is_ipv4 :: "socket_addr \<Rightarrow> bool" where
  "is_ipv4 (V4 a) = True"
| "is_ipv4 (V6 a) = False"

definition is_ipv6 :: "socket_addr \<Rightarrow> bool" where
  "is_ipv6 a \<longleftrightarrow> \<not> is_ipv4 a"

definition octets4 :: "ipv4_addr \<Rightarrow> bytes" where
  "octets4 a = u32_to_be a"

definition octets6 :: "ipv6_addr \<Rightarrow> bytes" where
  "octets6 a = u128_to_be a"

lemma length_octets [simp]: "length (octets4 a) = 4" "length (octets6 b) = 16"
  by (simp_all add: octets4_def octets6_def)

lemma from_octets [simp]: "u32_from_be (octets4 a) = a" "u128_from_be (octets6 b) = b"
  by (simp_all add: octets4_def octets6_def)

text \<open>
  A socket address is \<^emph>\<open>unscoped\<close> when it is the one \<open>SocketAddr::new\<close> builds from its own
  address and port: every IPv4 address, and IPv6 addresses with no flow label and no scope.
\<close>

fun unscoped :: "socket_addr \<Rightarrow> bool" where
  "unscoped (V4 a) = True"
| "unscoped (V6 a) = (flowinfo a = 0 \<and> scope_id a = 0)"

lemma socket_addr_new_sel [simp]:
  "addr_ip (socket_addr_new ip p) = ip" "addr_port (socket_addr_new ip p) = p"
  "unscoped (socket_addr_new ip p)"
  by (cases ip, simp_all)+

lemma socket_addr_new_self: "unscoped a \<Longrightarrow> socket_addr_new (addr_ip a) (addr_port a) = a"
  by (cases a) (auto simp: socket_addr_v4.expand socket_addr_v6.expand)

lemma socket_addr_new_eq_iff:
  "socket_addr_new ip p = a \<longleftrightarrow> unscoped a \<and> addr_ip a = ip \<and> addr_port a = p"
  using socket_addr_new_self [of a] by auto

lemma is_ipv4_socket_addr_new [simp]: "is_ipv4 (socket_addr_new (IpV4 x) p)"
  "\<not> is_ipv4 (socket_addr_new (IpV6 y) p)"
  by simp_all

section \<open>Text form\<close>

text \<open>
  \<open>Display\<close> of addresses: dotted decimal; for IPv6 lower-case hexadecimal groups with the first
  longest run of at least two zero groups contracted, and IPv4-mapped addresses with a dotted tail.
\<close>

fun join_with :: "string \<Rightarrow> string list \<Rightarrow> string" where
  "join_with sep [] = []"
| "join_with sep [x] = x"
| "join_with sep (x # xs) = x @ sep @ join_with sep xs"

definition show_ipv4 :: "ipv4_addr \<Rightarrow> string" where
  "show_ipv4 a = join_with ''.'' (map (\<lambda>b. show_nat (unat b)) (octets4 a))"

definition hex_digit :: "nat \<Rightarrow> char" where
  "hex_digit n = (if n < 10 then char_of (48 + n) else char_of (87 + n))"

fun show_hex :: "nat \<Rightarrow> string" where
  "show_hex n = (if n < 16 then [hex_digit n] else show_hex (n div 16) @ [hex_digit (n mod 16)])"

declare show_hex.simps [simp del]

fun segments6 :: "bytes \<Rightarrow> nat list" where
  "segments6 (a # b # bs) = (unat a * 256 + unat b) # segments6 bs"
| "segments6 _ = []"

text \<open>Start and length of the longest zero run; the fold carries the current and the longest run.\<close>

fun zero_run :: "nat list \<Rightarrow> nat \<Rightarrow> nat \<times> nat \<Rightarrow> nat \<times> nat \<Rightarrow> nat \<times> nat" where
  "zero_run [] i current longest = longest"
| "zero_run (s # ss) i (start, len) longest =
     (if s = 0 then
        let current = (if len = 0 then i else start, len + 1)
        in zero_run ss (i + 1) current (if snd current > snd longest then current else longest)
      else zero_run ss (i + 1) (0, 0) longest)"

definition show_groups :: "nat list \<Rightarrow> string" where
  "show_groups ss = join_with '':'' (map show_hex ss)"

definition show_ipv6 :: "ipv6_addr \<Rightarrow> string" where
  "show_ipv6 a =
     (let octs = octets6 a; ss = segments6 octs in
      if take 12 octs = replicate 10 0 @ [255, 255]
      then ''::ffff:'' @ show_ipv4 (u32_from_be (drop 12 octs))
      else
        let (start, len) = zero_run ss 0 (0, 0) (0, 0)
        in if len > 1 then show_groups (take start ss) @ ''::'' @ show_groups (drop (start + len) ss)
           else show_groups ss)"

fun show_ip :: "ip_addr \<Rightarrow> string" where
  "show_ip (IpV4 a) = show_ipv4 a"
| "show_ip (IpV6 a) = show_ipv6 a"

fun show_socket_addr :: "socket_addr \<Rightarrow> string" where
  "show_socket_addr (V4 a) = show_ipv4 (ip4 a) @ '':'' @ show_nat (unat (port4 a))"
| "show_socket_addr (V6 a) =
     ''['' @ show_ipv6 (ip6 a) @ (if scope_id a = 0 then [] else ''%'' @ show_nat (unat (scope_id a)))
       @ '']:'' @ show_nat (unat (port6 a))"

end
