(* ===== verification/Packet.thy ===== *)
theory Packet
  imports Net
begin

text \<open>
  \<open>fake-tcp/src/packet.rs\<close>: building and parsing the IP/TCP packets of the tunnel. The crates
  \<open>pnet_packet\<close> and \<open>internet_checksum\<close> are parameters: the record \<open>packet_lib\<close> holds the
  functions and constants the code calls, and the locale \<open>packet_layout\<close> states their documented
  behaviour (the RFC 791, RFC 8200 and RFC 9293 field layouts, the RFC 1071 checksum).
\<close>

section \<open>Third-party parameters\<close>

datatype tcp_option = Nop | Wscale u8

text \<open>
  A packet view of \<open>pnet_packet\<close> is a buffer; \<open>new\<close> succeeds when the buffer is long enough.
  Setters return the buffer they wrote.
\<close>

record ipv4_lib =
  v4_new :: "bytes \<Rightarrow> bool"
  v4_get_next_level_protocol :: "bytes \<Rightarrow> u8"
  v4_get_source :: "bytes \<Rightarrow> ipv4_addr"
  v4_get_destination :: "bytes \<Rightarrow> ipv4_addr"
  v4_set_version :: "u8 \<Rightarrow> bytes \<Rightarrow> bytes"
  v4_set_header_length :: "u8 \<Rightarrow> bytes \<Rightarrow> bytes"
  v4_set_next_level_protocol :: "u8 \<Rightarrow> bytes \<Rightarrow> bytes"
  v4_set_ttl :: "u8 \<Rightarrow> bytes \<Rightarrow> bytes"
  v4_set_source :: "ipv4_addr \<Rightarrow> bytes \<Rightarrow> bytes"
  v4_set_destination :: "ipv4_addr \<Rightarrow> bytes \<Rightarrow> bytes"
  v4_set_total_length :: "u16 \<Rightarrow> bytes \<Rightarrow> bytes"
  v4_set_flags :: "u8 \<Rightarrow> bytes \<Rightarrow> bytes"
  v4_set_checksum :: "u16 \<Rightarrow> bytes \<Rightarrow> bytes"
  v4_DontFragment :: u8

record ipv6_lib =
  v6_new :: "bytes \<Rightarrow> bool"
  v6_get_next_header :: "bytes \<Rightarrow> u8"
  v6_get_source :: "bytes \<Rightarrow> ipv6_addr"
  v6_get_destination :: "bytes \<Rightarrow> ipv6_addr"
  v6_set_version :: "u8 \<Rightarrow> bytes \<Rightarrow> bytes"
  v6_set_payload_length :: "u16 \<Rightarrow> bytes \<Rightarrow> bytes"
  v6_set_next_header :: "u8 \<Rightarrow> bytes \<Rightarrow> bytes"
  v6_set_hop_limit :: "u8 \<Rightarrow> bytes \<Rightarrow> bytes"
  v6_set_source :: "ipv6_addr \<Rightarrow> bytes \<Rightarrow> bytes"
  v6_set_destination :: "ipv6_addr \<Rightarrow> bytes \<Rightarrow> bytes"

record tcp_lib =
  tcp_new :: "bytes \<Rightarrow> bool"
  tcp_get_source :: "bytes \<Rightarrow> u16"
  tcp_get_destination :: "bytes \<Rightarrow> u16"
  tcp_get_sequence :: "bytes \<Rightarrow> u32"
  tcp_get_acknowledgement :: "bytes \<Rightarrow> u32"
  tcp_get_flags :: "bytes \<Rightarrow> u8"
  tcp_payload :: "bytes \<Rightarrow> bytes"
  tcp_set_source :: "u16 \<Rightarrow> bytes \<Rightarrow> bytes"
  tcp_set_destination :: "u16 \<Rightarrow> bytes \<Rightarrow> bytes"
  tcp_set_sequence :: "u32 \<Rightarrow> bytes \<Rightarrow> bytes"
  tcp_set_acknowledgement :: "u32 \<Rightarrow> bytes \<Rightarrow> bytes"
  tcp_set_data_offset :: "u8 \<Rightarrow> bytes \<Rightarrow> bytes"
  tcp_set_flags :: "u8 \<Rightarrow> bytes \<Rightarrow> bytes"
  tcp_set_window :: "u16 \<Rightarrow> bytes \<Rightarrow> bytes"
  tcp_set_checksum :: "u16 \<Rightarrow> bytes \<Rightarrow> bytes"
  tcp_set_options :: "tcp_option list \<Rightarrow> bytes \<Rightarrow> bytes"
  tcp_set_payload :: "bytes \<Rightarrow> bytes \<Rightarrow> bytes"

text \<open>
  \<open>checksum cs\<close> is the result of \<open>Checksum::new()\<close>, one \<open>add_bytes\<close> per element of \<open>cs\<close> in
  order, and \<open>checksum()\<close>. \<open>SYN\<close>, \<open>RST\<close> and \<open>ACK\<close> are the constants of \<open>tcp::TcpFlags\<close>,
  \<open>Tcp\<close> is \<open>ip::IpNextHeaderProtocols::Tcp\<close>.
\<close>

record packet_lib =
  ipv4 :: ipv4_lib
  ipv6 :: ipv6_lib
  tcp :: tcp_lib
  checksum :: "bytes list \<Rightarrow> bytes"
  SYN :: u8
  RST :: u8
  ACK :: u8
  Tcp :: u8

section \<open>Constants and parsed packets\<close>

definition IPV4_HEADER_LEN :: nat where "IPV4_HEADER_LEN = 20"
definition IPV6_HEADER_LEN :: nat where "IPV6_HEADER_LEN = 40"
definition TCP_HEADER_LEN :: nat where "TCP_HEADER_LEN = 20"
definition MAX_PACKET_LEN :: nat where "MAX_PACKET_LEN = 1500"

lemmas packet_consts = IPV4_HEADER_LEN_def IPV6_HEADER_LEN_def TCP_HEADER_LEN_def

datatype IPPacket = IPPacketV4 bytes | IPPacketV6 bytes

fun get_source :: "packet_lib \<Rightarrow> IPPacket \<Rightarrow> ip_addr" where
  "get_source L (IPPacketV4 p) = IpV4 (v4_get_source (ipv4 L) p)"
| "get_source L (IPPacketV6 p) = IpV6 (v6_get_source (ipv6 L) p)"

fun get_destination :: "packet_lib \<Rightarrow> IPPacket \<Rightarrow> ip_addr" where
  "get_destination L (IPPacketV4 p) = IpV4 (v4_get_destination (ipv4 L) p)"
| "get_destination L (IPPacketV6 p) = IpV6 (v6_get_destination (ipv6 L) p)"

section \<open>Building\<close>

text \<open>\<open>usize\<close> to \<open>u16\<close> with \<open>try_into().unwrap()\<close>.\<close>

definition try_into_u16 :: "nat \<Rightarrow> u16 outcome" where
  "try_into_u16 n = (if n < 2 ^ 16 then Ret (word_of_nat n) else Panic Unwrap_failed)"

definition write_ipv4_header ::
  "packet_lib \<Rightarrow> socket_addr_v4 \<Rightarrow> socket_addr_v4 \<Rightarrow> nat \<Rightarrow> bytes \<Rightarrow> bytes outcome" where
  "write_ipv4_header L local remote total_len ip_buf =
     (let P = ipv4 L in
      if \<not> v4_new P ip_buf then Panic Unwrap_failed else
      let b = v4_set_version P 4 ip_buf;
          b = v4_set_header_length P (word_of_nat IPV4_HEADER_LEN div 4) b;
          b = v4_set_next_level_protocol P (Tcp L) b;
          b = v4_set_ttl P 64 b;
          b = v4_set_source P (ip4 local) b;
          b = v4_set_destination P (ip4 remote) b
      in obind (try_into_u16 total_len) (\<lambda>n.
         let b = v4_set_total_length P n b;
             b = v4_set_flags P (v4_DontFragment P) b;
             cksm = checksum L [b]
         in Ret (v4_set_checksum P (u16_from_be cksm) b)))"

definition write_ipv6_header ::
  "packet_lib \<Rightarrow> socket_addr_v6 \<Rightarrow> socket_addr_v6 \<Rightarrow> nat \<Rightarrow> bytes \<Rightarrow> bytes outcome" where
  "write_ipv6_header L local remote tcp_total_len ip_buf =
     (let P = ipv6 L in
      if \<not> v6_new P ip_buf then Panic Unwrap_failed else
      let b = v6_set_version P 6 ip_buf
      in obind (try_into_u16 tcp_total_len) (\<lambda>n.
         let b = v6_set_payload_length P n b;
             b = v6_set_next_header P (Tcp L) b;
             b = v6_set_hop_limit P 64 b;
             b = v6_set_source P (ip6 local) b;
             b = v6_set_destination P (ip6 remote) b
         in Ret b))"

fun write_ip_header ::
  "packet_lib \<Rightarrow> socket_addr \<Rightarrow> socket_addr \<Rightarrow> nat \<Rightarrow> nat \<Rightarrow> bytes \<Rightarrow> bytes outcome" where
  "write_ip_header L (V4 local) (V4 remote) total_len tcp_total_len ip_buf =
     write_ipv4_header L local remote total_len ip_buf"
| "write_ip_header L (V6 local) (V6 remote) total_len tcp_total_len ip_buf =
     write_ipv6_header L local remote tcp_total_len ip_buf"
| "write_ip_header L _ _ total_len tcp_total_len ip_buf = Panic Unreachable_code"

definition write_tcp_segment ::
  "packet_lib \<Rightarrow> u16 \<Rightarrow> u16 \<Rightarrow> u32 \<Rightarrow> u32 \<Rightarrow> u8 \<Rightarrow> bytes option \<Rightarrow> bytes \<Rightarrow> bytes outcome" where
  "write_tcp_segment L local_port remote_port seq ack flags payload tcp_buf =
     (let P = tcp L; wscale = flags AND SYN L \<noteq> 0 in
      if \<not> tcp_new P tcp_buf then Panic Unwrap_failed else
      let b = tcp_set_window P 0xffff tcp_buf;
          b = tcp_set_source P local_port b;
          b = tcp_set_destination P remote_port b;
          b = tcp_set_sequence P seq b;
          b = tcp_set_acknowledgement P ack b;
          b = tcp_set_flags P flags b;
          b = tcp_set_data_offset P
                (word_of_nat TCP_HEADER_LEN div 4 + (if wscale then 1 else 0)) b;
          b = (if wscale then tcp_set_options P [Nop, Wscale 14] b else b);
          b = (case payload of None \<Rightarrow> b | Some payload \<Rightarrow> tcp_set_payload P payload b)
      in Ret b)"

fun pseudo_header ::
  "packet_lib \<Rightarrow> socket_addr \<Rightarrow> socket_addr \<Rightarrow> nat \<Rightarrow> bytes list outcome" where
  "pseudo_header L (V4 local) (V4 remote) tcp_total_len =
     Ret [octets4 (ip4 local), octets4 (ip4 remote),
          write_at 2 (u16_to_be (word_of_nat tcp_total_len)) [0, Tcp L, 0, 0]]"
| "pseudo_header L (V6 local) (V6 remote) tcp_total_len =
     Ret [octets6 (ip6 local), octets6 (ip6 remote),
          write_at 0 (u32_to_be (word_of_nat tcp_total_len)) [0, 0, 0, 0, 0, 0, 0, Tcp L]]"
| "pseudo_header L _ _ tcp_total_len = Panic Unreachable_code"

definition tcp_total_len_of :: "packet_lib \<Rightarrow> u8 \<Rightarrow> bytes option \<Rightarrow> nat" where
  "tcp_total_len_of L flags payload =
     (let wscale = flags AND SYN L \<noteq> 0;
          tcp_header_len = TCP_HEADER_LEN + (if wscale then 4 else 0)
      in tcp_header_len + (case payload of None \<Rightarrow> 0 | Some payload \<Rightarrow> length payload))"

definition build_tcp_packet ::
  "packet_lib \<Rightarrow> socket_addr \<Rightarrow> socket_addr \<Rightarrow> u32 \<Rightarrow> u32 \<Rightarrow> u8 \<Rightarrow> bytes option
     \<Rightarrow> bytes outcome" where
  "build_tcp_packet L local_addr remote_addr seq ack flags payload =
     (let ip_header_len = (case local_addr of V4 _ \<Rightarrow> IPV4_HEADER_LEN | V6 _ \<Rightarrow> IPV6_HEADER_LEN);
          tcp_total_len = tcp_total_len_of L flags payload;
          total_len = ip_header_len + tcp_total_len;
          buf = replicate total_len (0 :: u8);
          ip_buf = take ip_header_len buf;
          buf = drop ip_header_len buf;
          tcp_buf = take tcp_total_len buf;
          buf = drop tcp_total_len buf
      in if length buf \<noteq> 0 then Panic Assertion_failed else
      obind (write_ip_header L local_addr remote_addr total_len tcp_total_len ip_buf) (\<lambda>ip_buf.
      obind (write_tcp_segment L (addr_port local_addr) (addr_port remote_addr)
               seq ack flags payload tcp_buf) (\<lambda>tcp_buf.
      obind (pseudo_header L local_addr remote_addr tcp_total_len) (\<lambda>chunks.
        let cksm = checksum L (chunks @ [tcp_buf]);
            tcp_buf = tcp_set_checksum (tcp L) (u16_from_be cksm) tcp_buf
        in Ret (ip_buf @ tcp_buf)))))"

section \<open>Parsing\<close>

text \<open>\<open>&buf[n..]\<close> panics when \<open>n > buf.len()\<close>.\<close>

definition slice_from :: "nat \<Rightarrow> bytes \<Rightarrow> bytes outcome" where
  "slice_from n b = (if n \<le> length b then Ret (drop n b) else Panic Index_out_of_bounds)"

definition parse_tcp :: "packet_lib \<Rightarrow> nat \<Rightarrow> bytes \<Rightarrow> bytes outcome" where
  "parse_tcp L n b = obind (slice_from n b) (\<lambda>t.
     if tcp_new (tcp L) t then Ret t else Panic Unwrap_failed)"

definition parse_ip_packet :: "packet_lib \<Rightarrow> bytes \<Rightarrow> (IPPacket \<times> bytes) option outcome" where
  "parse_ip_packet L buf =
     obind (index_byte buf 0) (\<lambda>b0.
     if drop_bit 4 b0 = 4 then
       (if \<not> v4_new (ipv4 L) buf then Panic Unwrap_failed
        else if v4_get_next_level_protocol (ipv4 L) buf \<noteq> Tcp L then Ret None
        else obind (parse_tcp L IPV4_HEADER_LEN buf) (\<lambda>t. Ret (Some (IPPacketV4 buf, t))))
     else if drop_bit 4 b0 = 6 then
       (if \<not> v6_new (ipv6 L) buf then Panic Unwrap_failed
        else if v6_get_next_header (ipv6 L) buf \<noteq> Tcp L then Ret None
        else obind (parse_tcp L IPV6_HEADER_LEN buf) (\<lambda>t. Ret (Some (IPPacketV6 buf, t))))
     else Ret None)"

end
