(* ===== verification/Packet_Layout.thy ===== *)
theory Packet_Layout
  imports Packet
begin

text \<open>
  The documented behaviour of the packet crates as a locale, the closed wire form of everything
  \<open>build_tcp_packet\<close> emits, and the reference instance \<open>wire_lib\<close> that shows the contract can be
  met. The lemmas inside the locale hold for every library that keeps the contract.
\<close>

section \<open>The RFC 1071 checksum\<close>

text \<open>16-bit big-endian words of a buffer; an odd last byte is padded with a zero byte.\<close>

fun words16 :: "bytes \<Rightarrow> nat list" where
  "words16 [] = []"
| "words16 [a] = [unat a * 256]"
| "words16 (a # b # bs) = (unat a * 256 + unat b) # words16 bs"

text \<open>One's complement addition: the carry out of bit 15 is added back in.\<close>

definition oc_add :: "nat \<Rightarrow> nat \<Rightarrow> nat" where
  "oc_add a b = (let s = a + b in if s < 65536 then s else s - 65535)"

definition oc_sum :: "nat list \<Rightarrow> nat" where
  "oc_sum ws = foldl oc_add 0 ws"

text \<open>What a receiver checks: the one's complement sum over everything, checksum included.\<close>

definition checksum_valid :: "bytes list \<Rightarrow> bool" where
  "checksum_valid cs \<longleftrightarrow> oc_sum (concat (map words16 cs)) = 65535"

subsection \<open>Arithmetic of the one's complement sum\<close>

text \<open>\<open>fold16\<close> is the sum with all carries folded: the residue modulo 65535, with 65535 for a
nonzero multiple.\<close>

definition fold16 :: "nat \<Rightarrow> nat" where
  "fold16 n = (if n = 0 then 0 else (n - 1) mod 65535 + 1)"

lemma fold16_le: "fold16 n \<le> 65535"
proof -
  have "(n - 1) mod 65535 < 65535" by (rule mod_less_divisor) simp
  then show ?thesis unfolding fold16_def by auto
qed

lemma oc_add_fold16: "a \<le> 65535 \<Longrightarrow> b \<le> 65535 \<Longrightarrow> oc_add a b = fold16 (a + b)"
  by (auto simp: oc_add_def fold16_def Let_def mod_if le_mod_geq)

lemma fold16_fold16_add: "fold16 (fold16 a + b) = fold16 (a + b)"
proof (cases "a = 0")
  case False
  then have "(a - 1 + b) mod 65535 = ((a - 1) mod 65535 + b) mod 65535"
    by (simp add: mod_add_left_eq)
  with False show ?thesis by (simp add: fold16_def)
qed (simp add: fold16_def)

lemma oc_sum_fold16: "\<forall>w \<in> set ws. w \<le> 65535 \<Longrightarrow> oc_sum ws = fold16 (sum_list ws)"
proof (induction ws rule: rev_induct)
  case (snoc w ws)
  then show ?case
    by (simp add: oc_sum_def oc_add_fold16 fold16_le fold16_fold16_add)
qed (simp add: oc_sum_def fold16_def)

lemma words16_le: "w \<in> set (words16 bs) \<Longrightarrow> w \<le> 65535"
proof (induction bs rule: words16.induct)
  case (2 a)
  have "unat a * 256 \<le> 65535" using unat_u8_less [of a] by linarith
  with 2 show ?case by simp
next
  case (3 a b bs)
  have "unat a * 256 + unat b \<le> 65535" using unat_u8_less [of a] unat_u8_less [of b] by linarith
  with 3 show ?case by auto
qed simp

lemma words16_append: "even (length xs) \<Longrightarrow> words16 (xs @ ys) = words16 xs @ words16 ys"
  by (induction xs rule: words16.induct) auto

lemma words16_u16: "words16 (u16_to_be w) = [unat w]"
proof -
  have "unat w div 256 < 256" using unat_u16_less [of w] by linarith
  then have "unat w div 256 mod 256 * 256 + unat w mod 256 = unat w"
    by (simp only: mod_less div_mult_mod_eq)
  then show ?thesis by (simp only: u16_to_be_def nat_bytes_2 words16.simps unat_of_nat_u8)
qed

text \<open>
  Writing the complement of the sum into a zero word of the summed data makes the sum all ones.
\<close>

lemma fold16_complement: "fold16 (s + (65535 - fold16 s)) = 65535"
proof (cases "s = 0")
  case False
  define q r where "q = (s - 1) div 65535" and "r = (s - 1) mod 65535"
  have "s = q * 65535 + r + 1" and "r < 65535"
    using False by (simp_all add: q_def r_def)
  moreover from this have "s + (65535 - (r + 1)) - 1 = q * 65535 + 65534" by simp
  ultimately show ?thesis by (simp add: fold16_def r_def [symmetric])
qed (simp add: fold16_def)

lemma checksum_valid_insert:
  assumes "even (length pre)"
    and "ck = word_of_nat (65535 - oc_sum (concat (map words16 (cs @ [pre @ [0, 0] @ post]))))"
  shows "checksum_valid (cs @ [pre @ u16_to_be ck @ post])"
proof -
  let ?z = "concat (map words16 (cs @ [pre @ [0, 0] @ post]))"
  let ?f = "concat (map words16 (cs @ [pre @ u16_to_be ck @ post]))"
  have z: "oc_sum ?z = fold16 (sum_list ?z)" and f: "oc_sum ?f = fold16 (sum_list ?f)"
    by (rule oc_sum_fold16; auto dest: words16_le)+
  have "unat ck = 65535 - oc_sum ?z"
    using assms(2) by (simp add: unat_of_nat)
  moreover have "sum_list ?f = sum_list ?z + unat ck"
    using assms(1) by (simp add: words16_append words16_u16)
  ultimately have "oc_sum ?f = fold16 (sum_list ?z + (65535 - fold16 (sum_list ?z)))"
    using f z by metis
  then show ?thesis
    unfolding checksum_valid_def by (simp only: fold16_complement)
qed

section \<open>The contract of the packet crates\<close>

locale packet_layout =
  fixes L :: packet_lib
  assumes v4_new: "v4_new (ipv4 L) b \<longleftrightarrow> 20 \<le> length b"
    and v4_proto: "20 \<le> length b \<Longrightarrow> v4_get_next_level_protocol (ipv4 L) b = b ! 9"
    and v4_source: "20 \<le> length b \<Longrightarrow> v4_get_source (ipv4 L) b = u32_from_be (chunk 12 4 b)"
    and v4_destination:
      "20 \<le> length b \<Longrightarrow> v4_get_destination (ipv4 L) b = u32_from_be (chunk 16 4 b)"
    and v4_set_version: "20 \<le> length b \<Longrightarrow>
      v4_set_version (ipv4 L) v b = write_at 0 [(b ! 0 AND 15) OR push_bit 4 v] b"
    and v4_set_header_length: "20 \<le> length b \<Longrightarrow>
      v4_set_header_length (ipv4 L) v b = write_at 0 [(b ! 0 AND 240) OR (v AND 15)] b"
    and v4_set_proto: "20 \<le> length b \<Longrightarrow> v4_set_next_level_protocol (ipv4 L) p b = write_at 9 [p] b"
    and v4_set_ttl: "20 \<le> length b \<Longrightarrow> v4_set_ttl (ipv4 L) t b = write_at 8 [t] b"
    and v4_set_source: "20 \<le> length b \<Longrightarrow> v4_set_source (ipv4 L) a b = write_at 12 (octets4 a) b"
    and v4_set_destination:
      "20 \<le> length b \<Longrightarrow> v4_set_destination (ipv4 L) a b = write_at 16 (octets4 a) b"
    and v4_set_total_length:
      "20 \<le> length b \<Longrightarrow> v4_set_total_length (ipv4 L) n b = write_at 2 (u16_to_be n) b"
    and v4_set_flags: "20 \<le> length b \<Longrightarrow>
      v4_set_flags (ipv4 L) f b = write_at 6 [(b ! 6 AND 31) OR push_bit 5 f] b"
    and v4_set_checksum:
      "20 \<le> length b \<Longrightarrow> v4_set_checksum (ipv4 L) c b = write_at 10 (u16_to_be c) b"
    and v4_DontFragment: "v4_DontFragment (ipv4 L) = 2"
    and v6_new: "v6_new (ipv6 L) b \<longleftrightarrow> 40 \<le> length b"
    and v6_next_header: "40 \<le> length b \<Longrightarrow> v6_get_next_header (ipv6 L) b = b ! 6"
    and v6_source: "40 \<le> length b \<Longrightarrow> v6_get_source (ipv6 L) b = u128_from_be (chunk 8 16 b)"
    and v6_destination:
      "40 \<le> length b \<Longrightarrow> v6_get_destination (ipv6 L) b = u128_from_be (chunk 24 16 b)"
    and v6_set_version: "40 \<le> length b \<Longrightarrow>
      v6_set_version (ipv6 L) v b = write_at 0 [(b ! 0 AND 15) OR push_bit 4 v] b"
    and v6_set_payload_length:
      "40 \<le> length b \<Longrightarrow> v6_set_payload_length (ipv6 L) n b = write_at 4 (u16_to_be n) b"
    and v6_set_next_header: "40 \<le> length b \<Longrightarrow> v6_set_next_header (ipv6 L) p b = write_at 6 [p] b"
    and v6_set_hop_limit: "40 \<le> length b \<Longrightarrow> v6_set_hop_limit (ipv6 L) h b = write_at 7 [h] b"
    and v6_set_source: "40 \<le> length b \<Longrightarrow> v6_set_source (ipv6 L) a6 b = write_at 8 (octets6 a6) b"
    and v6_set_destination:
      "40 \<le> length b \<Longrightarrow> v6_set_destination (ipv6 L) a6 b = write_at 24 (octets6 a6) b"
    and tcp_new: "tcp_new (tcp L) b \<longleftrightarrow> 20 \<le> length b"
    and tcp_source: "20 \<le> length b \<Longrightarrow> tcp_get_source (tcp L) b = u16_from_be (chunk 0 2 b)"
    and tcp_destination:
      "20 \<le> length b \<Longrightarrow> tcp_get_destination (tcp L) b = u16_from_be (chunk 2 2 b)"
    and tcp_sequence: "20 \<le> length b \<Longrightarrow> tcp_get_sequence (tcp L) b = u32_from_be (chunk 4 4 b)"
    and tcp_acknowledgement:
      "20 \<le> length b \<Longrightarrow> tcp_get_acknowledgement (tcp L) b = u32_from_be (chunk 8 4 b)"
    and tcp_flags: "20 \<le> length b \<Longrightarrow> tcp_get_flags (tcp L) b = b ! 13"
    and tcp_payload: "k = 4 * unat (drop_bit 4 (b ! 12)) \<Longrightarrow> 20 \<le> k \<Longrightarrow> k \<le> length b \<Longrightarrow>
      tcp_payload (tcp L) b = drop k b"
    and tcp_payload_bound: "20 \<le> length b \<Longrightarrow> length (tcp_payload (tcp L) b) \<le> length b - 20"
    and tcp_set_source: "20 \<le> length b \<Longrightarrow> tcp_set_source (tcp L) q b = write_at 0 (u16_to_be q) b"
    and tcp_set_destination:
      "20 \<le> length b \<Longrightarrow> tcp_set_destination (tcp L) q b = write_at 2 (u16_to_be q) b"
    and tcp_set_sequence:
      "20 \<le> length b \<Longrightarrow> tcp_set_sequence (tcp L) s b = write_at 4 (u32_to_be s) b"
    and tcp_set_acknowledgement:
      "20 \<le> length b \<Longrightarrow> tcp_set_acknowledgement (tcp L) s b = write_at 8 (u32_to_be s) b"
    and tcp_set_data_offset: "20 \<le> length b \<Longrightarrow>
      tcp_set_data_offset (tcp L) d b = write_at 12 [(b ! 12 AND 15) OR push_bit 4 d] b"
    and tcp_set_flags: "20 \<le> length b \<Longrightarrow> tcp_set_flags (tcp L) f b = write_at 13 [f] b"
    and tcp_set_window: "20 \<le> length b \<Longrightarrow> tcp_set_window (tcp L) w b = write_at 14 (u16_to_be w) b"
    and tcp_set_checksum:
      "20 \<le> length b \<Longrightarrow> tcp_set_checksum (tcp L) c b = write_at 16 (u16_to_be c) b"
    and tcp_set_options: "drop_bit 4 (b ! 12) = 6 \<Longrightarrow> 24 \<le> length b \<Longrightarrow>
      tcp_set_options (tcp L) [Nop, Wscale v] b = write_at 20 [1, 3, 3, v] b"
    and tcp_set_payload: "k = 4 * unat (drop_bit 4 (b ! 12)) \<Longrightarrow> 20 \<le> k \<Longrightarrow>
      k + length vs = length b \<Longrightarrow> tcp_set_payload (tcp L) vs b = write_at k vs b"
    and checksum: "checksum L cs = nat_bytes 2 (65535 - oc_sum (concat (map words16 cs)))"
    and SYN: "SYN L = 2"
    and RST: "RST L = 4"
    and ACK: "ACK L = 16"
    and Tcp: "Tcp L = 6"

section \<open>Wire forms\<close>

text \<open>The packet formats of the RFCs, with the field values the tunnel uses.\<close>

definition ipv4_wire :: "nat \<Rightarrow> u16 \<Rightarrow> ipv4_addr \<Rightarrow> ipv4_addr \<Rightarrow> bytes" where
  "ipv4_wire total_len ck s d =
     [69, 0] @ u16_to_be (word_of_nat total_len) @ [0, 0, 64, 0, 64, 6] @ u16_to_be ck
       @ octets4 s @ octets4 d"

definition ipv6_wire :: "nat \<Rightarrow> ipv6_addr \<Rightarrow> ipv6_addr \<Rightarrow> bytes" where
  "ipv6_wire payload_len s d =
     [96, 0, 0, 0] @ u16_to_be (word_of_nat payload_len) @ [6, 64] @ octets6 s @ octets6 d"

definition has_syn :: "u8 \<Rightarrow> bool" where
  "has_syn flags \<longleftrightarrow> flags AND 2 \<noteq> 0"

definition tcp_wire ::
  "u16 \<Rightarrow> u16 \<Rightarrow> u32 \<Rightarrow> u32 \<Rightarrow> u8 \<Rightarrow> u16 \<Rightarrow> bytes \<Rightarrow> bytes" where
  "tcp_wire sp dp seq ack flags ck payload =
     u16_to_be sp @ u16_to_be dp @ u32_to_be seq @ u32_to_be ack
       @ [if has_syn flags then 96 else 80, flags, 255, 255] @ u16_to_be ck @ [0, 0]
       @ (if has_syn flags then [1, 3, 3, 14] else []) @ payload"

lemma length_ipv4_wire [simp]: "length (ipv4_wire n ck s d) = 20"
  by (simp add: ipv4_wire_def)

lemma length_ipv6_wire [simp]: "length (ipv6_wire n s d) = 40"
  by (simp add: ipv6_wire_def)

lemma length_tcp_wire [simp]:
  "length (tcp_wire sp dp seq ack flags ck payload)
     = (if has_syn flags then 24 else 20) + length payload"
  by (simp add: tcp_wire_def)

lemma replicate_20_append:
  "replicate (20 + n) x
    = [x, x, x, x, x, x, x, x, x, x, x, x, x, x, x, x, x, x, x, x] @ replicate n x"
  by (simp add: replicate_add numeral_eq_Suc)

lemma replicate_40:
  "replicate 40 x = [x, x, x, x, x, x, x, x, x, x, x, x, x, x, x, x, x, x, x, x,
      x, x, x, x, x, x, x, x, x, x, x, x, x, x, x, x, x, x, x, x]"
  by (simp add: numeral_eq_Suc)

lemma u16_to_be_0 [simp]: "u16_to_be 0 = [0, 0]"
  by code_simp

lemma u16_to_be_ffff [simp]: "u16_to_be 65535 = [255, 255]"
  by (simp add: u16_to_be_def endian_simps)

context packet_layout
begin

lemmas v4_ops = v4_new v4_set_version v4_set_header_length v4_set_proto v4_set_ttl v4_set_source
  v4_set_destination v4_set_total_length v4_set_flags v4_set_checksum v4_DontFragment Tcp

lemmas v6_ops = v6_new v6_set_version v6_set_payload_length v6_set_next_header v6_set_hop_limit
  v6_set_source v6_set_destination Tcp

lemmas tcp_ops = tcp_new tcp_set_source tcp_set_destination tcp_set_sequence
  tcp_set_acknowledgement tcp_set_data_offset tcp_set_flags tcp_set_window SYN

lemma write_ipv4_header_wire:
  assumes "total_len < 65536"
  shows "write_ipv4_header L l r total_len (replicate 20 0)
    = Ret (ipv4_wire total_len (u16_from_be (checksum L [ipv4_wire total_len 0 (ip4 l) (ip4 r)]))
            (ip4 l) (ip4 r))"
  using assms replicate_20_append [of 0 "0::u8"]
  by (simp add: write_ipv4_header_def Let_def v4_ops try_into_u16_def write_at_def ipv4_wire_def
      packet_consts nth_append)

lemma write_ipv6_header_wire:
  assumes "n < 65536"
  shows "write_ipv6_header L l r n (replicate 40 0) = Ret (ipv6_wire n (ip6 l) (ip6 r))"
  using assms
  by (simp add: write_ipv6_header_def Let_def v6_ops try_into_u16_def write_at_def ipv6_wire_def
      replicate_40 nth_append)

text \<open>The fixed part of the TCP header, before options and payload are written.\<close>

lemma write_tcp_segment_wire:
  assumes "n = tcp_total_len_of L flags payload"
  shows "write_tcp_segment L sp dp seq ack flags payload (replicate n 0)
    = Ret (tcp_wire sp dp seq ack flags 0 (case payload of None \<Rightarrow> [] | Some p \<Rightarrow> p))"
proof (cases "has_syn flags")
  case True
  define m where "m = (case payload of None \<Rightarrow> 0 | Some p \<Rightarrow> length p)"
  have n: "n = 20 + (4 + m)"
    using assms True by (simp add: tcp_total_len_of_def SYN has_syn_def m_def packet_consts)
  have buf: "replicate n (0::u8) = replicate 20 0 @ [0, 0, 0, 0] @ replicate m 0"
    unfolding n by (simp add: replicate_add numeral_eq_Suc)
  show ?thesis
    using True replicate_20_append [of 0 "0::u8"] unfolding buf
    by (cases payload)
      (simp_all add: write_tcp_segment_def Let_def tcp_ops write_at_def tcp_wire_def has_syn_def
        packet_consts nth_append tcp_set_options tcp_set_payload m_def)
next
  case False
  define m where "m = (case payload of None \<Rightarrow> 0 | Some p \<Rightarrow> length p)"
  have n: "n = 20 + m"
    using assms False by (simp add: tcp_total_len_of_def SYN has_syn_def m_def packet_consts)
  show ?thesis
    using False unfolding n replicate_20_append
    by (cases payload)
      (simp_all add: write_tcp_segment_def Let_def tcp_ops write_at_def tcp_wire_def
        has_syn_def packet_consts nth_append tcp_set_payload m_def)
qed

end

section \<open>Closed form of every packet built\<close>

definition payload_bytes :: "bytes option \<Rightarrow> bytes" where
  "payload_bytes payload = (case payload of None \<Rightarrow> [] | Some p \<Rightarrow> p)"

definition tcp_wire_len :: "u8 \<Rightarrow> bytes option \<Rightarrow> nat" where
  "tcp_wire_len flags payload = (if has_syn flags then 24 else 20) + length (payload_bytes payload)"

lemma write_tcp_wire_checksum:
  "write_at 16 (u16_to_be c) (tcp_wire sp dp seq ack flags 0 p) = tcp_wire sp dp seq ack flags c p"
  by (simp add: tcp_wire_def write_at_def)

lemma pseudo_write:
  "write_at 2 (u16_to_be w) [0, p, 0, 0] = [0, p] @ u16_to_be w"
  "write_at 0 (u32_to_be v) [0, 0, 0, 0, 0, 0, 0, p] = u32_to_be v @ [0, 0, 0, p]"
  by (simp_all add: write_at_def)

lemma u16_from_nat_bytes: "n < 65536 \<Longrightarrow> u16_from_be (nat_bytes 2 n) = word_of_nat n"
  by (simp add: u16_from_be_def bytes_nat_nat_bytes)

context packet_layout
begin

lemma tcp_total_len_wire: "tcp_total_len_of L flags payload = tcp_wire_len flags payload"
  by (simp add: tcp_total_len_of_def tcp_wire_len_def payload_bytes_def SYN has_syn_def packet_consts
      split: option.splits)

lemma checksum_word:
  "u16_from_be (checksum L cs) = word_of_nat (65535 - oc_sum (concat (map words16 cs)))"
  by (simp add: checksum u16_from_nat_bytes)

lemma write_tcp:
  assumes "n = tcp_wire_len flags payload"
  shows "write_tcp_segment L sp dp seq ack flags payload (replicate n 0)
    = Ret (tcp_wire sp dp seq ack flags 0 (payload_bytes payload))"
  using write_tcp_segment_wire [of n flags payload] assms
  by (simp add: tcp_total_len_wire payload_bytes_def)

lemma build_v4:
  assumes "n = 20 + tcp_wire_len flags payload" "n < 65536"
    and "ck = u16_from_be (checksum L [ipv4_wire n 0 (ip4 l) (ip4 r)])"
    and "tk = u16_from_be (checksum L
           [octets4 (ip4 l), octets4 (ip4 r),
            [0, 6] @ u16_to_be (word_of_nat (tcp_wire_len flags payload)),
            tcp_wire (port4 l) (port4 r) seq ack flags 0 (payload_bytes payload)])"
  shows "build_tcp_packet L (V4 l) (V4 r) seq ack flags payload
    = Ret (ipv4_wire n ck (ip4 l) (ip4 r)
           @ tcp_wire (port4 l) (port4 r) seq ack flags tk (payload_bytes payload))"
  using assms write_ipv4_header_wire [of n l r] write_tcp [OF refl, where flags = flags and payload = payload]
  by (simp add: build_tcp_packet_def Let_def tcp_total_len_wire packet_consts Tcp
      tcp_set_checksum write_tcp_wire_checksum pseudo_write)

lemma build_v6:
  assumes "n = tcp_wire_len flags payload" "n < 65536"
    and "tk = u16_from_be (checksum L
           [octets6 (ip6 l), octets6 (ip6 r), u32_to_be (word_of_nat n) @ [0, 0, 0, 6],
            tcp_wire (port6 l) (port6 r) seq ack flags 0 (payload_bytes payload)])"
  shows "build_tcp_packet L (V6 l) (V6 r) seq ack flags payload
    = Ret (ipv6_wire n (ip6 l) (ip6 r)
           @ tcp_wire (port6 l) (port6 r) seq ack flags tk (payload_bytes payload))"
  using assms write_ipv6_header_wire [of n l r] write_tcp [OF refl, where flags = flags and payload = payload]
  by (simp add: build_tcp_packet_def Let_def tcp_total_len_wire packet_consts Tcp
      tcp_set_checksum write_tcp_wire_checksum pseudo_write)

end


section \<open>What a parsed packet carries\<close>

text \<open>
  The fields the tunnel reads from a parsed packet. \<open>carries L b S\<close> says that \<open>parse_ip_packet\<close>
  accepts \<open>b\<close> and that its accessors read \<open>S\<close>; it is the interface the socket and stack proofs use.
\<close>

record segment =
  seg_src :: socket_addr
  seg_dst :: socket_addr
  seg_seq :: u32
  seg_ack :: u32
  seg_flags :: u8
  seg_data :: bytes

definition segment_of :: "packet_lib \<Rightarrow> IPPacket \<Rightarrow> bytes \<Rightarrow> segment" where
  "segment_of L ip t =
     \<lparr>seg_src = socket_addr_new (get_source L ip) (tcp_get_source (tcp L) t),
      seg_dst = socket_addr_new (get_destination L ip) (tcp_get_destination (tcp L) t),
      seg_seq = tcp_get_sequence (tcp L) t,
      seg_ack = tcp_get_acknowledgement (tcp L) t,
      seg_flags = tcp_get_flags (tcp L) t,
      seg_data = tcp_payload (tcp L) t\<rparr>"

definition carries :: "packet_lib \<Rightarrow> bytes \<Rightarrow> segment \<Rightarrow> bool" where
  "carries L b S \<longleftrightarrow>
     (case parse_ip_packet L b of Ret (Some (ip, t)) \<Rightarrow> segment_of L ip t = S | _ \<Rightarrow> False)"

definition strip_scope :: "socket_addr \<Rightarrow> socket_addr" where
  "strip_scope a = socket_addr_new (addr_ip a) (addr_port a)"

text \<open>The packet fits the 16-bit length field of its IP header.\<close>

definition fits :: "socket_addr \<Rightarrow> u8 \<Rightarrow> bytes option \<Rightarrow> bool" where
  "fits a flags payload \<longleftrightarrow> (if is_ipv4 a then 20 else 0) + tcp_wire_len flags payload < 65536"

definition same_family :: "socket_addr \<Rightarrow> socket_addr \<Rightarrow> bool" where
  "same_family a b \<longleftrightarrow> is_ipv4 a = is_ipv4 b"

definition packet_len :: "socket_addr \<Rightarrow> u8 \<Rightarrow> bytes option \<Rightarrow> nat" where
  "packet_len a flags payload = (if is_ipv4 a then 20 else 40) + tcp_wire_len flags payload"

lemma payload_bytes_simps [simp]: "payload_bytes None = []" "payload_bytes (Some p) = p"
  by (simp_all add: payload_bytes_def)

lemma fits_None [simp]: "fits a flags None"
  by (simp add: fits_def tcp_wire_len_def)

lemma carries_parse_ip:
  assumes "carries L b S"
  obtains ip t where "parse_ip_packet L b = Ret (Some (ip, t))" "segment_of L ip t = S"
  using assms by (auto simp: carries_def split: outcome.splits option.splits)

lemma segment_of_sel [simp]:
  "seg_seq (segment_of L ip t) = tcp_get_sequence (tcp L) t"
  "seg_ack (segment_of L ip t) = tcp_get_acknowledgement (tcp L) t"
  "seg_flags (segment_of L ip t) = tcp_get_flags (tcp L) t"
  "seg_data (segment_of L ip t) = tcp_payload (tcp L) t"
  "seg_src (segment_of L ip t) = socket_addr_new (get_source L ip) (tcp_get_source (tcp L) t)"
  "seg_dst (segment_of L ip t) = socket_addr_new (get_destination L ip) (tcp_get_destination (tcp L) t)"
  by (simp_all add: segment_of_def)

lemma carries_unique: "carries L b S \<Longrightarrow> carries L b S' \<Longrightarrow> S = S'"
  by (auto simp: carries_def split: outcome.splits option.splits)

context packet_layout
begin

lemma tcp_wire_fields:
  assumes t_def: "t = tcp_wire sp dp seq ack flags ck p"
  shows "tcp_get_source (tcp L) t = sp" "tcp_get_destination (tcp L) t = dp"
    "tcp_get_sequence (tcp L) t = seq" "tcp_get_acknowledgement (tcp L) t = ack"
    "tcp_get_flags (tcp L) t = flags" "tcp_payload (tcp L) t = p"
proof -
  have len: "20 \<le> length t" by (simp add: t_def)
  note g = tcp_source tcp_destination tcp_sequence tcp_acknowledgement tcp_flags
  show "tcp_get_source (tcp L) t = sp" "tcp_get_destination (tcp L) t = dp"
    "tcp_get_sequence (tcp L) t = seq" "tcp_get_acknowledgement (tcp L) t = ack"
    "tcp_get_flags (tcp L) t = flags"
    using len by (simp_all add: g) (simp_all add: t_def tcp_wire_def chunk_def nth_append)
  have "t ! 12 = (if has_syn flags then 96 else 80)"
    by (simp add: t_def tcp_wire_def nth_append)
  then have "tcp_payload (tcp L) t = drop (if has_syn flags then 24 else 20) t"
    by (intro tcp_payload) (simp_all add: t_def)
  then show "tcp_payload (tcp L) t = p"
    by (simp add: t_def tcp_wire_def)
qed

lemma parse_v4_wire:
  assumes "20 \<le> length t"
  shows "parse_ip_packet L (ipv4_wire n ck s d @ t)
    = Ret (Some (IPPacketV4 (ipv4_wire n ck s d @ t), t))"
  using assms
  by (simp add: parse_ip_packet_def index_byte_def parse_tcp_def slice_from_def v4_new v4_proto
      tcp_new Tcp packet_consts nth_append) (simp add: ipv4_wire_def nth_append)

lemma parse_v6_wire:
  assumes "20 \<le> length t"
  shows "parse_ip_packet L (ipv6_wire n s d @ t)
    = Ret (Some (IPPacketV6 (ipv6_wire n s d @ t), t))"
  using assms
  by (simp add: parse_ip_packet_def index_byte_def parse_tcp_def slice_from_def v6_new v6_next_header
      tcp_new Tcp packet_consts nth_append) (simp add: ipv6_wire_def nth_append)

lemma v4_wire_addrs:
  "v4_get_source (ipv4 L) (ipv4_wire n ck s d @ t) = s"
  "v4_get_destination (ipv4 L) (ipv4_wire n ck s d @ t) = d"
  by (simp_all add: v4_source v4_destination) (simp_all add: ipv4_wire_def chunk_def)

lemma v6_wire_addrs:
  "v6_get_source (ipv6 L) (ipv6_wire n s d @ t) = s"
  "v6_get_destination (ipv6 L) (ipv6_wire n s d @ t) = d"
  by (simp_all add: v6_source v6_destination) (simp_all add: ipv6_wire_def chunk_def)

lemma build_carries:
  assumes "same_family l r" and "fits l flags payload"
  shows "\<exists>b. build_tcp_packet L l r seq ack flags payload = Ret b
    \<and> carries L b \<lparr>seg_src = strip_scope l, seg_dst = strip_scope r, seg_seq = seq, seg_ack = ack,
         seg_flags = flags, seg_data = payload_bytes payload\<rparr>
    \<and> length b = packet_len l flags payload"
proof (cases l)
  case (V4 l4)
  with assms(1) obtain r4 where "r = V4 r4" by (cases r) (auto simp: same_family_def)
  with V4 assms(2) build_v4 [OF refl _ refl refl, of flags payload l4 r4 seq ack] show ?thesis
    by (auto simp: fits_def carries_def parse_v4_wire segment_of_def v4_wire_addrs tcp_wire_fields [OF refl]
        strip_scope_def packet_len_def tcp_wire_len_def)
next
  case (V6 l6)
  with assms(1) obtain r6 where "r = V6 r6" by (cases r) (auto simp: same_family_def)
  with V6 assms(2) build_v6 [OF refl _ refl, of flags payload l6 r6 seq ack] show ?thesis
    by (auto simp: fits_def carries_def parse_v6_wire segment_of_def v6_wire_addrs tcp_wire_fields [OF refl]
        strip_scope_def packet_len_def tcp_wire_len_def)
qed

end

section \<open>A library that keeps the contract\<close>

text \<open>
  The field accessors of the RFC layouts, written out. They instantiate the parameter wherever a
  concrete packet is evaluated, and show that the contract is consistent.
\<close>

definition data_start :: "bytes \<Rightarrow> nat" where
  "data_start b = 4 * unat (drop_bit 4 (b ! 12))"

fun option_bytes :: "tcp_option \<Rightarrow> bytes" where
  "option_bytes Nop = [1]"
| "option_bytes (Wscale s) = [3, 3, s]"

definition wire_v4 :: ipv4_lib where
  "wire_v4 = \<lparr>v4_new = (\<lambda>b. 20 \<le> length b),
     v4_get_next_level_protocol = (\<lambda>b. b ! 9),
     v4_get_source = (\<lambda>b. u32_from_be (chunk 12 4 b)),
     v4_get_destination = (\<lambda>b. u32_from_be (chunk 16 4 b)),
     v4_set_version = (\<lambda>v b. write_at 0 [(b ! 0 AND 15) OR push_bit 4 v] b),
     v4_set_header_length = (\<lambda>v b. write_at 0 [(b ! 0 AND 240) OR (v AND 15)] b),
     v4_set_next_level_protocol = (\<lambda>p. write_at 9 [p]),
     v4_set_ttl = (\<lambda>t. write_at 8 [t]),
     v4_set_source = (\<lambda>a. write_at 12 (octets4 a)),
     v4_set_destination = (\<lambda>a. write_at 16 (octets4 a)),
     v4_set_total_length = (\<lambda>n. write_at 2 (u16_to_be n)),
     v4_set_flags = (\<lambda>f b. write_at 6 [(b ! 6 AND 31) OR push_bit 5 f] b),
     v4_set_checksum = (\<lambda>c. write_at 10 (u16_to_be c)),
     v4_DontFragment = 2\<rparr>"

definition wire_v6 :: ipv6_lib where
  "wire_v6 = \<lparr>v6_new = (\<lambda>b. 40 \<le> length b),
     v6_get_next_header = (\<lambda>b. b ! 6),
     v6_get_source = (\<lambda>b. u128_from_be (chunk 8 16 b)),
     v6_get_destination = (\<lambda>b. u128_from_be (chunk 24 16 b)),
     v6_set_version = (\<lambda>v b. write_at 0 [(b ! 0 AND 15) OR push_bit 4 v] b),
     v6_set_payload_length = (\<lambda>n. write_at 4 (u16_to_be n)),
     v6_set_next_header = (\<lambda>p. write_at 6 [p]),
     v6_set_hop_limit = (\<lambda>h. write_at 7 [h]),
     v6_set_source = (\<lambda>a. write_at 8 (octets6 a)),
     v6_set_destination = (\<lambda>a. write_at 24 (octets6 a))\<rparr>"

definition wire_tcp :: tcp_lib where
  "wire_tcp = \<lparr>tcp_new = (\<lambda>b. 20 \<le> length b),
     tcp_get_source = (\<lambda>b. u16_from_be (chunk 0 2 b)),
     tcp_get_destination = (\<lambda>b. u16_from_be (chunk 2 2 b)),
     tcp_get_sequence = (\<lambda>b. u32_from_be (chunk 4 4 b)),
     tcp_get_acknowledgement = (\<lambda>b. u32_from_be (chunk 8 4 b)),
     tcp_get_flags = (\<lambda>b. b ! 13),
     tcp_payload = (\<lambda>b. drop (max 20 (data_start b)) b),
     tcp_set_source = (\<lambda>p. write_at 0 (u16_to_be p)),
     tcp_set_destination = (\<lambda>p. write_at 2 (u16_to_be p)),
     tcp_set_sequence = (\<lambda>s. write_at 4 (u32_to_be s)),
     tcp_set_acknowledgement = (\<lambda>s. write_at 8 (u32_to_be s)),
     tcp_set_data_offset = (\<lambda>d b. write_at 12 [(b ! 12 AND 15) OR push_bit 4 d] b),
     tcp_set_flags = (\<lambda>f. write_at 13 [f]),
     tcp_set_window = (\<lambda>w. write_at 14 (u16_to_be w)),
     tcp_set_checksum = (\<lambda>c. write_at 16 (u16_to_be c)),
     tcp_set_options = (\<lambda>os. write_at 20 (concat (map option_bytes os))),
     tcp_set_payload = (\<lambda>vs b. write_at (max 20 (data_start b)) vs b)\<rparr>"

definition wire_lib :: packet_lib where
  "wire_lib = \<lparr>ipv4 = wire_v4, ipv6 = wire_v6, tcp = wire_tcp,
     checksum = (\<lambda>cs. nat_bytes 2 (65535 - oc_sum (concat (map words16 cs)))),
     SYN = 2, RST = 4, ACK = 16, Tcp = 6\<rparr>"

lemmas wire_defs = wire_lib_def wire_v4_def wire_v6_def wire_tcp_def

interpretation wire: packet_layout wire_lib
  by unfold_locales (simp_all add: wire_defs data_start_def)

lemma packet_layout_wire_lib: "packet_layout wire_lib"
  by (rule wire.packet_layout_axioms)

section \<open>Properties of the packet format\<close>

text \<open>
  C1: round trip. A packet built from addresses of one family, with any sequence numbers, flags
  and payload that fit the IP length field, is accepted by the parser, which reads back the same
  addresses (without IPv6 flow label and scope), numbers, flags and payload.
\<close>

theorem build_parse_roundtrip:
  assumes "packet_layout L" and "same_family l r" and "fits l flags payload"
  shows "\<exists>b ip t. build_tcp_packet L l r seq ack flags payload = Ret b
    \<and> parse_ip_packet L b = Ret (Some (ip, t))
    \<and> socket_addr_new (get_source L ip) (tcp_get_source (tcp L) t) = strip_scope l
    \<and> socket_addr_new (get_destination L ip) (tcp_get_destination (tcp L) t) = strip_scope r
    \<and> tcp_get_sequence (tcp L) t = seq \<and> tcp_get_acknowledgement (tcp L) t = ack
    \<and> tcp_get_flags (tcp L) t = flags \<and> tcp_payload (tcp L) t = payload_bytes payload"
proof -
  obtain b where "build_tcp_packet L l r seq ack flags payload = Ret b"
    and "carries L b \<lparr>seg_src = strip_scope l, seg_dst = strip_scope r, seg_seq = seq, seg_ack = ack,
         seg_flags = flags, seg_data = payload_bytes payload\<rparr>"
    using packet_layout.build_carries [OF assms, of seq ack] by blast
  then show ?thesis
    by (auto simp: carries_def segment_of_def split: outcome.splits option.splits)
qed

theorem build_parse_roundtrip_witness:
  "\<exists>b ip t. build_tcp_packet wire_lib (V4 (SocketAddrV4 3221225994 40000))
       (V4 (SocketAddrV4 3405803796 65009)) 1 2 16 (Some [104, 105]) = Ret b
    \<and> parse_ip_packet wire_lib b = Ret (Some (ip, t))
    \<and> tcp_payload (tcp wire_lib) t = [104, 105]"
proof -
  have "same_family (V4 (SocketAddrV4 3221225994 40000)) (V4 (SocketAddrV4 3405803796 65009))"
    by (simp add: same_family_def)
  moreover have "fits (V4 (SocketAddrV4 3221225994 40000)) 16 (Some [104, 105])"
    by (simp add: fits_def tcp_wire_len_def payload_bytes_def has_syn_def)
  ultimately show ?thesis
    using build_parse_roundtrip [OF packet_layout_wire_lib, where seq = 1 and ack = 2]
    by (fastforce simp: payload_bytes_def)
qed

context packet_layout
begin

text \<open>The checksum written into a wire form makes the sum over that form all ones.\<close>

lemma ipv4_checksum_valid:
  assumes "ck = u16_from_be (checksum L [ipv4_wire n 0 s d])"
  shows "checksum_valid [ipv4_wire n ck s d]"
  using checksum_valid_insert [of "[69, 0] @ u16_to_be (word_of_nat n) @ [0, 0, 64, 0, 64, 6]" ck "[]"
      "octets4 s @ octets4 d"] assms
  by (simp add: checksum_word ipv4_wire_def)

lemma tcp_checksum_valid:
  assumes "tk = u16_from_be (checksum L (cs @ [tcp_wire sp dp seq ack flags 0 p]))"
  shows "checksum_valid (cs @ [tcp_wire sp dp seq ack flags tk p])"
proof -
  have w: "tcp_wire sp dp seq ack flags c p
    = (u16_to_be sp @ u16_to_be dp @ u32_to_be seq @ u32_to_be ack
        @ [if has_syn flags then 96 else 80, flags, 255, 255])
      @ u16_to_be c @ ([0, 0] @ (if has_syn flags then [1, 3, 3, 14] else []) @ p)" for c
    by (simp add: tcp_wire_def)
  show ?thesis
    using assms unfolding w u16_to_be_0
    by (intro checksum_valid_insert) (simp_all only: checksum_word, simp)
qed

end
text \<open>What a receiver verifies on a packet between two addresses, per address family.\<close>

fun checksums_ok :: "socket_addr \<Rightarrow> socket_addr \<Rightarrow> bytes \<Rightarrow> bool" where
  "checksums_ok (V4 l) (V4 r) b \<longleftrightarrow>
     checksum_valid [take 20 b]
     \<and> checksum_valid [octets4 (ip4 l), octets4 (ip4 r),
          [0, 6] @ u16_to_be (word_of_nat (length b - 20)), drop 20 b]"
| "checksums_ok (V6 l) (V6 r) b \<longleftrightarrow>
     checksum_valid [octets6 (ip6 l), octets6 (ip6 r),
          u32_to_be (word_of_nat (length b - 40)) @ [0, 0, 0, 6], drop 40 b]"
| "checksums_ok _ _ b \<longleftrightarrow> False"

context packet_layout
begin

lemma build_v4_checksums:
  assumes "20 + tcp_wire_len flags payload < 65536"
  shows "\<exists>b. build_tcp_packet L (V4 l) (V4 r) seq ack flags payload = Ret b
    \<and> checksums_ok (V4 l) (V4 r) b"
proof -
  let ?n = "20 + tcp_wire_len flags payload"
  let ?cs = "[octets4 (ip4 l), octets4 (ip4 r),
            [0, 6] @ u16_to_be (word_of_nat (tcp_wire_len flags payload))]"
  let ?t = "\<lambda>k. tcp_wire (port4 l) (port4 r) seq ack flags k (payload_bytes payload)"
  define ck where "ck = u16_from_be (checksum L [ipv4_wire ?n 0 (ip4 l) (ip4 r)])"
  define tk where "tk = u16_from_be (checksum L (?cs @ [?t 0]))"
  have b: "build_tcp_packet L (V4 l) (V4 r) seq ack flags payload
      = Ret (ipv4_wire ?n ck (ip4 l) (ip4 r) @ ?t tk)"
    using build_v4 [OF refl assms ck_def] tk_def by simp
  have "length (?t tk) = tcp_wire_len flags payload"
    by (simp add: tcp_wire_len_def)
  then show ?thesis
    using b ipv4_checksum_valid [OF ck_def] tcp_checksum_valid [OF tk_def] by simp
qed

lemma build_v6_checksums:
  assumes "tcp_wire_len flags payload < 65536"
  shows "\<exists>b. build_tcp_packet L (V6 l) (V6 r) seq ack flags payload = Ret b
    \<and> checksums_ok (V6 l) (V6 r) b"
proof -
  let ?n = "tcp_wire_len flags payload"
  let ?cs = "[octets6 (ip6 l), octets6 (ip6 r), u32_to_be (word_of_nat ?n) @ [0, 0, 0, 6]]"
  let ?t = "\<lambda>k. tcp_wire (port6 l) (port6 r) seq ack flags k (payload_bytes payload)"
  define tk where "tk = u16_from_be (checksum L (?cs @ [?t 0]))"
  have b: "build_tcp_packet L (V6 l) (V6 r) seq ack flags payload
      = Ret (ipv6_wire ?n (ip6 l) (ip6 r) @ ?t tk)"
    using build_v6 [OF refl assms] tk_def by simp
  have "length (?t tk) = ?n"
    by (simp add: tcp_wire_len_def)
  then show ?thesis
    using b tcp_checksum_valid [OF tk_def] by simp
qed

lemma build_mixed:
  "\<not> same_family l r \<Longrightarrow> build_tcp_packet L l r seq ack flags payload = Panic Unreachable_code"
  by (cases l; cases r) (simp_all add: same_family_def build_tcp_packet_def Let_def)

lemma build_too_long:
  "same_family l r \<Longrightarrow> \<not> fits l flags payload
    \<Longrightarrow> build_tcp_packet L l r seq ack flags payload = Panic Unwrap_failed"
  by (cases l; cases r)
    (simp_all add: same_family_def fits_def build_tcp_packet_def write_ipv4_header_def
      write_ipv6_header_def Let_def tcp_total_len_wire packet_consts try_into_u16_def v4_new v6_new)

lemma build_panics_iff:
  "panics (build_tcp_packet L l r seq ack flags payload)
    \<longleftrightarrow> \<not> same_family l r \<or> \<not> fits l flags payload"
  using build_carries [of l r flags payload seq ack] build_mixed [of l r seq ack flags payload]
    build_too_long [of l r flags payload seq ack]
  by (cases "same_family l r"; cases "fits l flags payload") auto

lemma build_checksums:
  assumes "build_tcp_packet L l r seq ack flags payload = Ret b"
  shows "checksums_ok l r b"
proof -
  have "same_family l r" "fits l flags payload"
    using build_panics_iff [of l r seq ack flags payload] assms by auto
  then consider (v4) l4 r4 where "l = V4 l4" "r = V4 r4" "20 + tcp_wire_len flags payload < 65536"
    | (v6) l6 r6 where "l = V6 l6" "r = V6 r6" "tcp_wire_len flags payload < 65536"
    by (cases l; cases r) (auto simp: same_family_def fits_def)
  then show ?thesis
  proof cases
    case v4
    with assms build_v4_checksums [OF v4(3), of l4 r4 seq ack] show ?thesis by auto
  next
    case v6
    with assms build_v6_checksums [OF v6(3), of l6 r6 seq ack] show ?thesis by auto
  qed
qed

lemma parse_panics_iff:
  "panics (parse_ip_packet L b) \<longleftrightarrow> b = []
    \<or> drop_bit 4 (b ! 0) = 4 \<and> (length b < 20 \<or> b ! 9 = 6 \<and> length b < 40)
    \<or> drop_bit 4 (b ! 0) = 6 \<and> (length b < 40 \<or> b ! 6 = 6 \<and> length b < 60)"
proof (cases "b = []")
  case False
  have t: "panics (obind (parse_tcp L n b) (\<lambda>t. Ret (f t))) \<longleftrightarrow> length b < n + 20"
    for n and f :: "bytes \<Rightarrow> (IPPacket \<times> bytes) option"
    by (auto simp: parse_tcp_def slice_from_def tcp_new)
  show ?thesis
    using False t
    by (simp add: parse_ip_packet_def index_byte_def v4_new v6_new v4_proto v6_next_header Tcp
        packet_consts not_le)
qed (simp add: parse_ip_packet_def index_byte_def)

end

text \<open>
  C12: checksums. Whatever \<open>build_tcp_packet\<close> returns verifies at the receiver: the one's complement
  sum over the IPv4 header, and over pseudo header and TCP segment, is all ones.
\<close>

theorem build_checksums_valid:
  assumes "packet_layout L" and "build_tcp_packet L l r seq ack flags payload = Ret b"
  shows "checksums_ok l r b"
  using packet_layout.build_checksums [OF assms] .

theorem build_checksums_valid_witness:
  "\<exists>b. build_tcp_packet wire_lib (V4 (SocketAddrV4 1 2)) (V4 (SocketAddrV4 3 4)) 5 6 2 None = Ret b
    \<and> checksums_ok (V4 (SocketAddrV4 1 2)) (V4 (SocketAddrV4 3 4)) b"
proof -
  have "\<not> panics (build_tcp_packet wire_lib (V4 (SocketAddrV4 1 2)) (V4 (SocketAddrV4 3 4)) 5 6 2 None)"
    by (simp add: wire.build_panics_iff same_family_def fits_def tcp_wire_len_def payload_bytes_def
        has_syn_def)
  then show ?thesis
    unfolding not_panics_iff by (blast dest: build_checksums_valid [OF packet_layout_wire_lib])
qed

text \<open>
  C39: \<open>build_tcp_packet\<close> panics exactly when the two addresses are of different families or the
  packet does not fit the 16-bit length field of the IP header.
\<close>

theorem build_panics_exactly:
  assumes "packet_layout L"
  shows "panics (build_tcp_packet L l r seq ack flags payload)
    \<longleftrightarrow> \<not> same_family l r \<or> \<not> fits l flags payload"
  by (rule packet_layout.build_panics_iff [OF assms])

theorem build_panics_exactly_witness:
  "panics (build_tcp_packet wire_lib (V4 (SocketAddrV4 1 2)) (V6 (SocketAddrV6 3 4 0 0)) 0 0 2 None)
   \<and> \<not> panics (build_tcp_packet wire_lib (V4 (SocketAddrV4 1 2)) (V4 (SocketAddrV4 3 4)) 0 0 2 None)"
  unfolding build_panics_exactly [OF packet_layout_wire_lib]
  by (simp add: same_family_def fits_def tcp_wire_len_def payload_bytes_def has_syn_def)

text \<open>
  C40: \<open>parse_ip_packet\<close> panics, instead of returning \<open>None\<close>, exactly on an empty buffer, on a
  truncated IP header and on a TCP packet with fewer than 20 bytes after the IP header.
\<close>

theorem parse_panics_exactly:
  assumes "packet_layout L"
  shows "panics (parse_ip_packet L b) \<longleftrightarrow> b = []
    \<or> drop_bit 4 (b ! 0) = 4 \<and> (length b < 20 \<or> b ! 9 = 6 \<and> length b < 40)
    \<or> drop_bit 4 (b ! 0) = 6 \<and> (length b < 40 \<or> b ! 6 = 6 \<and> length b < 60)"
  by (rule packet_layout.parse_panics_iff [OF assms])

theorem parse_panics_exactly_witness:
  "panics (parse_ip_packet wire_lib [69, 0, 0]) \<and> \<not> panics (parse_ip_packet wire_lib [0])"
  unfolding parse_panics_exactly [OF packet_layout_wire_lib] by simp

end
