(* ===== verification/Link.thy ===== *)
theory Link
  imports Packet_Layout
begin

text \<open>
  The frame decoder of \<open>phantun-client-mac/src/macos_packet.rs\<close>: BPF records, link-layer framing,
  IP normalisation and the filter on the configured server. Constants and structure offsets of the
  \<open>libc\<close> crate are the parameter \<open>libc_abi\<close>; the locale \<open>darwin\<close> states their macOS values.
\<close>

record libc_abi =
  AF_INET :: u32
  AF_INET6 :: u32
  IPPROTO_TCP :: u8
  bh_caplen_offset :: nat
  bh_hdrlen_offset :: nat

definition BPF_HEADER_MIN_SIZE :: "libc_abi \<Rightarrow> nat" where
  "BPF_HEADER_MIN_SIZE C = bh_hdrlen_offset C + 2"

section \<open>Link types\<close>

datatype LinkType = Null | Ethernet | Raw

definition BPF_DLT_NULL :: int where "BPF_DLT_NULL = 0"
definition BPF_DLT_EN10MB :: int where "BPF_DLT_EN10MB = 1"
definition BPF_DLT_RAW :: int where "BPF_DLT_RAW = 12"

definition from_dlt :: "int \<Rightarrow> LinkType io" where
  "from_dlt v =
     (if v = BPF_DLT_NULL then Inr Null
      else if v = BPF_DLT_EN10MB then Inr Ethernet
      else if v = BPF_DLT_RAW then Inr Raw
      else Inl (Custom Unsupported (''unsupported macOS BPF datalink type '' @ show_int v)))"

fun dlt :: "LinkType \<Rightarrow> int" where
  "dlt Null = BPF_DLT_NULL"
| "dlt Ethernet = BPF_DLT_EN10MB"
| "dlt Raw = BPF_DLT_RAW"

section \<open>From a captured frame to an IP packet\<close>

definition bpf_word_align :: "nat \<Rightarrow> nat" where
  "bpf_word_align v = unat ((word_of_nat (v + 3) :: 64 word) AND NOT 3)"

definition is_vlan_tag :: "u16 \<Rightarrow> bool" where
  "is_vlan_tag t \<longleftrightarrow> t = 0x8100 \<or> t = 0x88a8 \<or> t = 0x9100"

text \<open>The \<open>while\<close> loop over VLAN tags: the final offset and type, or \<open>None\<close> for a short frame.\<close>

function vlan_loop :: "bytes \<Rightarrow> nat \<Rightarrow> u16 \<Rightarrow> (nat \<times> u16) option" where
  "vlan_loop frame network_offset ether_type =
     (if is_vlan_tag ether_type then
        if length frame < network_offset + 4 then None
        else vlan_loop frame (network_offset + 4) (u16_from_be (chunk (network_offset + 2) 2 frame))
      else Some (network_offset, ether_type))"
  by pat_completeness auto
termination
  by (relation "measure (\<lambda>(frame, n, t). length frame - n)") auto

declare vlan_loop.simps [simp del]

definition ethernet_network_packet :: "bytes \<Rightarrow> bytes option" where
  "ethernet_network_packet frame =
     (if length frame < 14 then None
      else case vlan_loop frame 14 (u16_from_be (chunk 12 2 frame)) of
        None \<Rightarrow> None
      | Some (network_offset, ether_type) \<Rightarrow>
          if ether_type = 0x0800 \<or> ether_type = 0x86dd then Some (drop network_offset frame)
          else None)"

definition normalize_ip_packet :: "libc_abi \<Rightarrow> bytes \<Rightarrow> bytes option" where
  "normalize_ip_packet C packet =
     (case packet of
        [] \<Rightarrow> None
      | first # _ \<Rightarrow>
        if drop_bit 4 first = 4 then
          (if length packet < 40 \<or> packet ! 9 \<noteq> IPPROTO_TCP C \<or> packet ! 0 AND 0x0f \<noteq> 5 then None
           else
             let total_len = unat (u16_from_be (chunk 2 2 packet));
                 fragment_offset = u16_from_be (chunk 6 2 packet) AND 0x1fff
             in if total_len < 40 \<or> length packet < total_len \<or> fragment_offset \<noteq> 0 then None
                else Some (take total_len packet))
        else if drop_bit 4 first = 6 then
          (if length packet < 60 \<or> packet ! 6 \<noteq> IPPROTO_TCP C then None
           else
             let payload_len = unat (u16_from_be (chunk 4 2 packet));
                 total_len = 40 + payload_len
             in if payload_len < 20 \<or> length packet < total_len then None
                else Some (take total_len packet))
        else None)"

definition packet_from_link_frame :: "libc_abi \<Rightarrow> LinkType \<Rightarrow> bytes \<Rightarrow> bytes option" where
  "packet_from_link_frame C link_type frame =
     (case (case link_type of
              Raw \<Rightarrow> Some frame
            | Null \<Rightarrow>
                if length frame < 4 then None
                else let family = u32_from_ne (take 4 frame) in
                  if family \<noteq> AF_INET C \<and> family \<noteq> AF_INET6 C then None else Some (drop 4 frame)
            | Ethernet \<Rightarrow> ethernet_network_packet frame) of
        None \<Rightarrow> None
      | Some packet \<Rightarrow> normalize_ip_packet C packet)"

definition is_expected_remote_packet :: "packet_lib \<Rightarrow> bytes \<Rightarrow> socket_addr \<Rightarrow> bool outcome" where
  "is_expected_remote_packet L packet remote =
     obind (parse_ip_packet L packet) (\<lambda>r.
       case r of
         None \<Rightarrow> Ret False
       | Some (ip, t) \<Rightarrow>
           Ret (socket_addr_new (get_source L ip) (tcp_get_source (tcp L) t) = remote))"

section \<open>BPF records\<close>

text \<open>The packet of one record, appended when it comes from the configured server.\<close>

definition push_packet ::
  "packet_lib \<Rightarrow> libc_abi \<Rightarrow> LinkType \<Rightarrow> socket_addr \<Rightarrow> bytes \<Rightarrow> bytes list \<Rightarrow> bytes list outcome"
where
  "push_packet L C link_type remote frame packets =
     (case packet_from_link_frame C link_type frame of
        None \<Rightarrow> Ret packets
      | Some packet \<Rightarrow>
          obind (is_expected_remote_packet L packet remote)
            (\<lambda>ok. Ret (if ok then packets @ [packet] else packets)))"

text \<open>Header length and capture length of the record at \<open>offset\<close>.\<close>

definition record_header :: "libc_abi \<Rightarrow> bytes \<Rightarrow> nat \<Rightarrow> (nat \<times> nat) outcome" where
  "record_header C records offset =
     obind (index_range records (offset + bh_hdrlen_offset C) 2) (\<lambda>h.
     obind (index_range records (offset + bh_caplen_offset C) 4) (\<lambda>c.
       Ret (unat (u16_from_ne h), unat (u32_from_ne c))))"

function decode_loop ::
  "packet_lib \<Rightarrow> libc_abi \<Rightarrow> LinkType \<Rightarrow> socket_addr \<Rightarrow> bytes \<Rightarrow> nat \<Rightarrow> bytes list
     \<Rightarrow> bytes list io outcome" where
  "decode_loop L C link_type remote records offset packets =
     (if offset < length records then
        if length records - offset < BPF_HEADER_MIN_SIZE C
        then Ret (Inl (Custom InvalidData ''truncated macOS BPF record header''))
        else obind (record_header C records offset) (\<lambda>(header_len, caplen).
          let packet_start = offset + header_len;
              packet_end = packet_start + caplen
          in if header_len < BPF_HEADER_MIN_SIZE C \<or> packet_start > length records
                \<or> packet_end > length records
             then Ret (Inl (Custom InvalidData ''invalid macOS BPF record boundaries''))
             else obind (push_packet L C link_type remote (chunk packet_start caplen records) packets)
               (\<lambda>packets.
                let next_offset = bpf_word_align packet_end
                in if next_offset \<le> offset
                   then Ret (Inl (Custom InvalidData ''invalid macOS BPF record alignment''))
                   else if next_offset > length records then
                     if packet_end = length records then Ret (Inr packets)
                     else Ret (Inl (Custom InvalidData ''invalid macOS BPF record alignment''))
                   else decode_loop L C link_type remote records next_offset packets))
      else Ret (Inr packets))"
  by pat_completeness auto
termination
  by (relation "measure (\<lambda>(L, C, t, a, records, offset, ps). length records - offset)") auto

declare decode_loop.simps [simp del]

definition decode_records ::
  "packet_lib \<Rightarrow> libc_abi \<Rightarrow> bytes \<Rightarrow> LinkType \<Rightarrow> socket_addr \<Rightarrow> bytes list io outcome" where
  "decode_records L C records link_type remote = decode_loop L C link_type remote records 0 []"

end
