(* ===== verification/Decoder.thy ===== *)
theory Decoder
  imports Link
begin

text \<open>
  Correctness of the frame decoder: alignment, normalisation, the filter on the configured server,
  decoding of whole record streams, and VLAN tags. The locale \<open>bpf_decoder\<close> combines the contract of
  the packet crates with the macOS values of the \<open>libc\<close> parameters.
\<close>

section \<open>Alignment\<close>

lemma and_not_3: "unat ((x :: 64 word) AND NOT 3) = unat x div 4 * 4"
proof -
  have three: "(3 :: 64 word) = mask 2"
    by (simp add: mask_eq_exp_minus_1)
  have "Suc (Suc (n - 2)) = n" if "2 \<le> n" for n
    using that by simp
  then have "x AND NOT (mask 2) = push_bit 2 (drop_bit 2 x)"
    by (intro bit_word_eqI) (auto simp: bit_simps not_less)
  then have "unat (x AND NOT 3) = unat (push_bit 2 (drop_bit 2 x))"
    unfolding three by (rule arg_cong)
  also have "\<dots> = take_bit LENGTH(64) (push_bit 2 (drop_bit 2 (unat x)))"
    by (simp only: unsigned_push_bit_eq unat_drop_bit_eq)
  also have "\<dots> = unat x div 4 * 4"
  proof -
    have "unat x div 4 * 4 < 2 ^ 64"
      by (rule le_less_trans [OF div_times_less_eq_dividend]) (use unsigned_less [of x] in simp)
    then show ?thesis by (simp add: push_bit_eq_mult drop_bit_eq_div take_bit_eq_mod)
  qed
  finally show ?thesis .
qed


lemma bpf_word_align_eq: "v + 3 < 2 ^ 64 \<Longrightarrow> bpf_word_align v = (v + 3) div 4 * 4"
  unfolding bpf_word_align_def and_not_3 unat_of_nat by simp

lemma bpf_word_align_add:
  assumes "4 dvd n" "n + v + 3 < 2 ^ 64"
  shows "bpf_word_align (n + v) = n + bpf_word_align v"
proof -
  from assms(1) obtain k where "n = 4 * k" ..
  then have "(n + v + 3) div 4 * 4 = n + (v + 3) div 4 * 4"
    by (simp add: add.assoc)
  with assms(2) show ?thesis by (simp add: bpf_word_align_eq)
qed

lemma bpf_word_align_bounds:
  "v + 3 < 2 ^ 64 \<Longrightarrow> v \<le> bpf_word_align v \<and> bpf_word_align v < v + 4 \<and> 4 dvd bpf_word_align v"
  by (auto simp: bpf_word_align_eq)

section \<open>The macOS values of the parameters\<close>

locale darwin =
  fixes C :: libc_abi
  assumes AF_INET: "AF_INET C = 2"
    and AF_INET6: "AF_INET6 C = 30"
    and IPPROTO_TCP: "IPPROTO_TCP C = 6"
    and caplen_offset: "bh_caplen_offset C = 8"
    and hdrlen_offset: "bh_hdrlen_offset C = 16"
begin

lemma header_min: "BPF_HEADER_MIN_SIZE C = 18"
  by (simp add: BPF_HEADER_MIN_SIZE_def hdrlen_offset)

lemma record_header_ok:
  "offset + 18 \<le> length records \<Longrightarrow> record_header C records offset
    = Ret (unat (u16_from_ne (chunk (offset + 16) 2 records)),
           unat (u32_from_ne (chunk (offset + 8) 4 records)))"
  by (simp add: record_header_def index_range_def caplen_offset hdrlen_offset)

text \<open>What \<open>normalize_ip_packet\<close> guarantees about its result.\<close>

lemma normalize_cases:
  assumes "normalize_ip_packet C p = Some q"
  obtains (v4) "q = take (length q) p" "40 \<le> length q" "drop_bit 4 (q ! 0) = 4" "q ! 9 = 6"
      "q ! 0 AND 15 = 5" "unat (u16_from_be (chunk 2 2 q)) = length q"
      "u16_from_be (chunk 6 2 q) AND 0x1fff = 0"
    | (v6) "q = take (length q) p" "60 \<le> length q" "drop_bit 4 (q ! 0) = 6" "q ! 6 = 6"
      "40 + unat (u16_from_be (chunk 4 2 q)) = length q"
proof (cases p)
  case (Cons a p')
  show ?thesis
  proof (cases "drop_bit 4 a = 4")
    case True
    define n where "n = unat (u16_from_be (chunk 2 2 p))"
    from True Cons assms have f: "length p \<ge> 40" "p ! 9 = 6" "p ! 0 AND 15 = 5" "40 \<le> n"
      "n \<le> length p" "u16_from_be (chunk 6 2 p) AND 0x1fff = 0" "q = take n p"
      by (auto simp: normalize_ip_packet_def IPPROTO_TCP Let_def n_def split: if_splits)
    then have "q ! 0 = p ! 0" "q ! 9 = p ! 9" "chunk 2 2 q = chunk 2 2 p" "chunk 6 2 q = chunk 6 2 p"
      "length q = n"
      by (simp_all add: chunk_take)
    with f True Cons show ?thesis
      by (intro v4) (simp_all add: n_def)
  next
    case False
    define n where "n = unat (u16_from_be (chunk 4 2 p))"
    from False Cons assms have f: "length p \<ge> 60" "p ! 6 = 6" "20 \<le> n" "drop_bit 4 (p ! 0) = 6"
      "40 + n \<le> length p" "q = take (40 + n) p"
      by (auto simp: normalize_ip_packet_def IPPROTO_TCP Let_def n_def split: if_splits)
    then have "q ! 0 = p ! 0" "q ! 6 = p ! 6" "chunk 4 2 q = chunk 4 2 p" "length q = 40 + n"
      by (simp_all add: chunk_take)
    with f Cons show ?thesis
      by (intro v6) (simp_all add: n_def)
  qed
qed (use assms in \<open>simp add: normalize_ip_packet_def\<close>)

lemma normalize_v4_fix:
  assumes "40 \<le> length q" "drop_bit 4 (q ! 0) = 4" "q ! 9 = 6" "q ! 0 AND 15 = 5"
    "unat (u16_from_be (chunk 2 2 q)) = length q" "u16_from_be (chunk 6 2 q) AND 0x1fff = 0"
  shows "normalize_ip_packet C q = Some q"
proof -
  from assms(1) obtain a q' where "q = a # q'" by (cases q) auto
  with assms show ?thesis by (simp add: normalize_ip_packet_def IPPROTO_TCP Let_def)
qed

lemma normalize_v6_fix:
  assumes "60 \<le> length q" "drop_bit 4 (q ! 0) = 6" "q ! 6 = 6"
    "40 + unat (u16_from_be (chunk 4 2 q)) = length q"
  shows "normalize_ip_packet C q = Some q"
proof -
  from assms(1) obtain a q' where "q = a # q'" by (cases q) auto
  with assms show ?thesis by (simp add: normalize_ip_packet_def IPPROTO_TCP Let_def)
qed

lemma normalize_idem: "normalize_ip_packet C p = Some q \<Longrightarrow> normalize_ip_packet C q = Some q"
  by (erule normalize_cases) (blast intro: normalize_v4_fix normalize_v6_fix)+

end

locale bpf_decoder = packet_layout L + darwin C for L C
begin

lemma normalize_parses:
  assumes "normalize_ip_packet C p = Some q"
  shows "\<exists>S. carries L q S"
proof -
  have "\<not> panics (parse_ip_packet L q)" and "parse_ip_packet L q \<noteq> Ret None"
    using assms
    by (auto elim!: normalize_cases simp: parse_panics_iff)
       (auto simp: parse_ip_packet_def index_byte_def obind_eq_Ret_iff v4_proto v6_next_header Tcp
         split: if_splits)
  then show ?thesis
    by (auto simp: carries_def not_panics_iff)
qed

end

section \<open>What the decoder accepts\<close>

text \<open>A normalised TCP packet whose source is the configured server.\<close>

definition from_server :: "packet_lib \<Rightarrow> libc_abi \<Rightarrow> socket_addr \<Rightarrow> bytes \<Rightarrow> bool" where
  "from_server L C remote p \<longleftrightarrow>
     normalize_ip_packet C p = Some p \<and> (\<exists>S. carries L p S \<and> seg_src S = remote)"

text \<open>The contribution of one captured frame to the decoded packets.\<close>

definition accepted ::
  "packet_lib \<Rightarrow> libc_abi \<Rightarrow> LinkType \<Rightarrow> socket_addr \<Rightarrow> bytes \<Rightarrow> bytes list" where
  "accepted L C link_type remote frame =
     (case packet_from_link_frame C link_type frame of
        None \<Rightarrow> []
      | Some p \<Rightarrow> if is_expected_remote_packet L p remote = Ret True then [p] else [])"

lemma normalize_prefix_length: "normalize_ip_packet C p = Some q \<Longrightarrow> length q \<le> length p"
  by (auto simp: normalize_ip_packet_def Let_def split: list.splits if_splits)

lemma ethernet_payload_length: "ethernet_network_packet f = Some p \<Longrightarrow> length p \<le> length f"
  by (auto simp: ethernet_network_packet_def split: if_splits option.splits)

lemma frame_packet:
  assumes "packet_from_link_frame C lt f = Some q"
  shows "\<exists>p. normalize_ip_packet C p = Some q \<and> length p \<le> length f"
  using assms
  by (auto simp: packet_from_link_frame_def Let_def dest: ethernet_payload_length
      split: option.splits LinkType.splits if_splits)

context bpf_decoder
begin

lemma expected_iff:
  assumes "normalize_ip_packet C p = Some q"
  shows "\<exists>S. carries L q S \<and> is_expected_remote_packet L q remote = Ret (seg_src S = remote)"
proof -
  obtain S where S: "carries L q S"
    using normalize_parses [OF assms] ..
  then obtain ip t where "parse_ip_packet L q = Ret (Some (ip, t))" "segment_of L ip t = S"
    by (rule carries_parse_ip)
  with S show ?thesis
    by (auto simp: is_expected_remote_packet_def)
qed

lemma push_packet_eq:
  "push_packet L C lt remote f ps = Ret (ps @ accepted L C lt remote f)"
  using frame_packet [of C lt f] expected_iff [of _ _ remote]
  by (fastforce simp: push_packet_def accepted_def split: option.splits)

lemma accepted_from_server:
  assumes "p \<in> set (accepted L C lt remote f)"
  shows "from_server L C remote p \<and> length p \<le> length f"
proof -
  from assms have f: "packet_from_link_frame C lt f = Some p"
    and e: "is_expected_remote_packet L p remote = Ret True"
    by (auto simp: accepted_def split: option.splits if_splits)
  from frame_packet [OF f] obtain q where q: "normalize_ip_packet C q = Some p" "length q \<le> length f"
    by blast
  with e expected_iff [OF q(1), of remote] normalize_idem [OF q(1)] normalize_prefix_length [OF q(1)]
  show ?thesis by (auto simp: from_server_def)
qed

lemma decode_loop_safe:
  "\<exists>r. decode_loop L C lt remote records offset ps = Ret r
    \<and> (\<forall>qs. r = Inr qs \<longrightarrow>
         (\<forall>q \<in> set qs. q \<in> set ps \<or> from_server L C remote q \<and> length q \<le> length records))
    \<and> (\<forall>e. r = Inl e \<longrightarrow> error_kind e = InvalidData)"
proof (induction "length records - offset" arbitrary: offset ps rule: less_induct)
  case less
  show ?case
  proof (cases "offset < length records \<and> 18 \<le> length records - offset")
    case True
    define h c where "h = unat (u16_from_ne (chunk (offset + 16) 2 records))"
      and "c = unat (u32_from_ne (chunk (offset + 8) 4 records))"
    have hdr: "record_header C records offset = Ret (h, c)"
      unfolding h_def c_def by (rule record_header_ok) (use True in linarith)
    let ?qs = "ps @ accepted L C lt remote (chunk (offset + h) c records)"
    let ?next = "bpf_word_align (offset + h + c)"
    have len: "length (chunk (offset + h) c records) \<le> length records" by simp
    have acc: "q \<in> set ps \<or> from_server L C remote q \<and> length q \<le> length records"
      if "q \<in> set ?qs" for q
      using that accepted_from_server [of q lt remote] len
      by (auto simp del: length_chunk intro: le_trans)
    show ?thesis
    proof (cases "offset < ?next \<and> ?next \<le> length records")
      case True': True
      then have "length records - ?next < length records - offset" by linarith
      from less.hyps [OF this, of ?qs] acc True True' show ?thesis
        by (subst decode_loop.simps) (fastforce simp: hdr header_min push_packet_eq Let_def)
    next
      case False
      with acc True show ?thesis
        by (subst decode_loop.simps) (auto simp: hdr header_min push_packet_eq Let_def)
    qed
  next
    case False
    then show ?thesis
      by (subst decode_loop.simps) (auto simp: header_min)
  qed
qed

end

section \<open>Streams of records\<close>

text \<open>
  The records the kernel writes: timestamp, capture length, original length and header length,
  optional extra header bytes, the captured frame, and padding up to the next four-byte boundary.
\<close>

record bpf_rec =
  rec_ts :: bytes
  rec_datalen :: u32
  rec_fill :: bytes
  rec_frame :: bytes
  rec_pad :: bytes

definition rec_len :: "bpf_rec \<Rightarrow> nat" where
  "rec_len r = 18 + length (rec_fill r) + length (rec_frame r)"

definition rec_ok :: "bpf_rec \<Rightarrow> bool" where
  "rec_ok r \<longleftrightarrow> length (rec_ts r) = 8 \<and> 18 + length (rec_fill r) < 65536
     \<and> length (rec_frame r) < 2 ^ 32 \<and> length (rec_pad r) = bpf_word_align (rec_len r) - rec_len r"

definition rec_bytes :: "bpf_rec \<Rightarrow> bytes" where
  "rec_bytes r = rec_ts r @ u32_to_ne (word_of_nat (length (rec_frame r))) @ u32_to_ne (rec_datalen r)
     @ u16_to_ne (word_of_nat (18 + length (rec_fill r))) @ rec_fill r @ rec_frame r"

definition rec_padded :: "bpf_rec \<Rightarrow> bytes" where
  "rec_padded r = rec_bytes r @ rec_pad r"

lemma length_rec_bytes: "rec_ok r \<Longrightarrow> length (rec_bytes r) = rec_len r"
  by (simp add: rec_ok_def rec_bytes_def rec_len_def)

lemma length_rec_padded:
  "rec_ok r \<Longrightarrow> length (rec_padded r) = bpf_word_align (rec_len r)"
  using bpf_word_align_bounds [of "rec_len r"]
  by (auto simp: rec_padded_def length_rec_bytes) (simp add: rec_ok_def rec_len_def)

context bpf_decoder
begin

lemma record_at:
  assumes "rec_ok r"
  shows "record_header C (pre @ rec_bytes r @ post) (length pre)
      = Ret (18 + length (rec_fill r), length (rec_frame r))"
    and "chunk (length pre + (18 + length (rec_fill r))) (length (rec_frame r)) (pre @ rec_bytes r @ post)
      = rec_frame r"
proof -
  note len = length_rec_bytes [OF assms]
  have h: "chunk (length pre + 16) 2 (pre @ rec_bytes r @ post)
      = u16_to_ne (word_of_nat (18 + length (rec_fill r)))"
    and c: "chunk (length pre + 8) 4 (pre @ rec_bytes r @ post)
      = u32_to_ne (word_of_nat (length (rec_frame r)))"
    using assms by (simp_all add: chunk_def rec_bytes_def rec_ok_def)
  have "unat (word_of_nat (18 + length (rec_fill r)) :: u16) = 18 + length (rec_fill r)"
    and "unat (word_of_nat (length (rec_frame r)) :: u32) = length (rec_frame r)"
    using assms by (simp_all only: unat_of_nat rec_ok_def) simp_all
  then show "record_header C (pre @ rec_bytes r @ post) (length pre)
      = Ret (18 + length (rec_fill r), length (rec_frame r))"
    using h c by (subst record_header_ok) (simp_all add: len rec_len_def)
  show "chunk (length pre + (18 + length (rec_fill r))) (length (rec_frame r)) (pre @ rec_bytes r @ post)
      = rec_frame r"
    using assms by (simp add: chunk_def rec_bytes_def rec_ok_def)
qed

lemma decode_record:
  assumes "rec_ok r" and "4 dvd length pre" and "length (pre @ rec_bytes r @ post) < 2 ^ 32"
  shows "decode_loop L C lt remote (pre @ rec_bytes r @ post) (length pre) ps
    = (let n = length pre + bpf_word_align (rec_len r);
           qs = ps @ accepted L C lt remote (rec_frame r)
       in if n \<le> length (pre @ rec_bytes r @ post)
          then decode_loop L C lt remote (pre @ rec_bytes r @ post) n qs
          else if post = [] then Ret (Inr qs)
          else Ret (Inl (Custom InvalidData ''invalid macOS BPF record alignment'')))"
proof -
  let ?R = "pre @ rec_bytes r @ post"
  have len: "length (rec_bytes r) = rec_len r" by (rule length_rec_bytes [OF assms(1)])
  have "length pre + rec_len r + 3 < 2 ^ 64" "rec_len r + 3 < 2 ^ 64"
    using assms(3) len by simp_all
  note al = bpf_word_align_add [OF assms(2) this(1)] bpf_word_align_bounds [OF this(2)]
  have sum: "length pre + (18 + length (rec_fill r)) + length (rec_frame r) = length pre + rec_len r"
    by (simp add: rec_len_def)
  have "18 \<le> rec_len r" by (simp add: rec_len_def)
  then show ?thesis
    using record_at [OF assms(1), of pre post] al len sum
    by (subst decode_loop.simps)
      (auto simp: header_min push_packet_eq Let_def rec_len_def add.assoc not_le)
qed

end

text \<open>A read may end in a record whose padding is cut off.\<close>

definition stream :: "bpf_rec list \<Rightarrow> bpf_rec option \<Rightarrow> bytes" where
  "stream rs t = concat (map rec_padded rs) @ (case t of None \<Rightarrow> [] | Some r \<Rightarrow> rec_bytes r)"

definition frames_of :: "bpf_rec list \<Rightarrow> bpf_rec option \<Rightarrow> bytes list" where
  "frames_of rs t = map rec_frame (rs @ (case t of None \<Rightarrow> [] | Some r \<Rightarrow> [r]))"

definition stream_ok :: "bpf_rec list \<Rightarrow> bpf_rec option \<Rightarrow> bool" where
  "stream_ok rs t \<longleftrightarrow> list_all rec_ok rs \<and> (case t of None \<Rightarrow> True | Some r \<Rightarrow> rec_ok r)
     \<and> length (stream rs t) < 2 ^ 32"

lemma decode_loop_end: "length records \<le> offset \<Longrightarrow> decode_loop L C lt a records offset ps = Ret (Inr ps)"
  by (subst decode_loop.simps) simp

context bpf_decoder
begin

lemma decode_stream:
  assumes "list_all rec_ok rs" and "case t of None \<Rightarrow> True | Some r \<Rightarrow> rec_ok r"
    and "4 dvd length pre" and "length (pre @ stream rs t) < 2 ^ 32"
  shows "decode_loop L C lt remote (pre @ stream rs t) (length pre) ps
    = Ret (Inr (ps @ concat (map (accepted L C lt remote) (frames_of rs t))))"
  using assms
proof (induction rs arbitrary: pre ps)
  case Nil
  show ?case
  proof (cases t)
    case None
    then show ?thesis by (simp add: stream_def frames_of_def decode_loop_end)
  next
    case (Some r)
    with Nil have r: "rec_ok r" "length (pre @ rec_bytes r @ []) < 2 ^ 32"
      by (simp_all add: stream_def)
    have "rec_len r \<le> bpf_word_align (rec_len r)"
      using bpf_word_align_bounds [of "rec_len r"] r length_rec_bytes [OF r(1)] by simp
    with decode_record [OF r(1) Nil.prems(3) r(2), of lt remote ps] Some show ?thesis
      by (auto simp: stream_def frames_of_def Let_def decode_loop_end length_rec_bytes [OF r(1)])
  qed
next
  case (Cons r rs)
  let ?post = "rec_pad r @ stream rs t" and ?pre = "pre @ rec_padded r"
  have eq: "pre @ stream (r # rs) t = pre @ rec_bytes r @ ?post"
    "pre @ stream (r # rs) t = ?pre @ stream rs t"
    by (simp_all add: stream_def rec_padded_def)
  have r: "rec_ok r" "rec_len r + 3 < 2 ^ 64"
    using Cons.prems(1,4) length_rec_bytes [of r] by (simp_all add: eq)
  have dvd: "4 dvd length ?pre"
    using Cons.prems(3) bpf_word_align_bounds [OF r(2)] by (simp add: length_rec_padded [OF r(1)])
  have n: "length pre + bpf_word_align (rec_len r) = length ?pre"
    by (simp add: length_rec_padded [OF r(1)])
  have le: "length ?pre \<le> length (pre @ rec_bytes r @ ?post)"
    by (simp add: rec_padded_def)
  have "decode_loop L C lt remote (pre @ stream (r # rs) t) (length pre) ps
      = decode_loop L C lt remote (?pre @ stream rs t) (length ?pre) (ps @ accepted L C lt remote (rec_frame r))"
    using decode_record [OF r(1) Cons.prems(3), of ?post lt remote ps] Cons.prems(4) le
    unfolding Let_def n eq(1) [symmetric] by (simp add: eq(2))
  also have "\<dots> = Ret (Inr ((ps @ accepted L C lt remote (rec_frame r))
      @ concat (map (accepted L C lt remote) (frames_of rs t))))"
    using Cons.prems(1,2) dvd Cons.prems(4) [unfolded eq(2)] by (intro Cons.IH) simp_all
  finally show ?case by (simp add: frames_of_def)
qed

lemma decode_records_stream:
  assumes "stream_ok rs t"
  shows "decode_records L C (stream rs t) lt remote
    = Ret (Inr (concat (map (accepted L C lt remote) (frames_of rs t))))"
  using decode_stream [of rs t "[]" lt remote "[]"] assms
  by (simp add: decode_records_def stream_ok_def)

end

section \<open>VLAN tags\<close>

text \<open>A stack of VLAN tags in front of the type and payload of an Ethernet frame.\<close>

fun tagged :: "(u16 \<times> u16) list \<Rightarrow> u16 \<Rightarrow> bytes \<Rightarrow> bytes" where
  "tagged [] ty payload = u16_to_be ty @ payload"
| "tagged ((tpid, tci) # tags) ty payload = u16_to_be tpid @ u16_to_be tci @ tagged tags ty payload"

lemma vlan_loop_tagged:
  assumes "list_all (\<lambda>(tpid, tci). is_vlan_tag tpid) tags" and "\<not> is_vlan_tag ty"
    and "frame = pre @ tagged tags ty payload" and "2 \<le> length pre"
  shows "vlan_loop frame (length pre + 2) (u16_from_be (chunk (length pre) 2 frame))
    = Some (length pre + 4 * length tags + 2, ty)"
  using assms
proof (induction tags arbitrary: pre)
  case Nil
  then show ?case by (subst vlan_loop.simps) (simp add: chunk_def)
next
  case (Cons tag tags)
  obtain tpid tci where tag: "tag = (tpid, tci)" by (cases tag)
  let ?pre = "pre @ u16_to_be tpid @ u16_to_be tci"
  have IH: "vlan_loop frame (length ?pre + 2) (u16_from_be (chunk (length ?pre) 2 frame))
      = Some (length ?pre + 4 * length tags + 2, ty)"
    using Cons.prems tag by (intro Cons.IH) simp_all
  have "2 \<le> length (tagged tags ty payload)"
    by (cases tags) auto
  with Cons.prems IH tag show ?case
    by (subst vlan_loop.simps) (simp add: chunk_def add.commute add.left_commute)
qed

lemma ethernet_tagged:
  assumes "length macs = 12" and "list_all (\<lambda>(tpid, tci). is_vlan_tag tpid) tags"
    and "ty = 0x0800 \<or> ty = 0x86dd"
  shows "ethernet_network_packet (macs @ tagged tags ty payload) = Some payload"
proof -
  have len: "length (tagged tags ty payload) = 4 * length tags + 2 + length payload"
    by (induction tags ty payload rule: tagged.induct) simp_all
  have dr: "drop (4 * length tags + 2) (tagged tags ty payload) = payload"
    by (induction tags ty payload rule: tagged.induct) simp_all
  have "\<not> is_vlan_tag ty" using assms(3) by (auto simp: is_vlan_tag_def)
  from vlan_loop_tagged [OF assms(2) this refl, of macs payload] assms(1,3) len dr show ?thesis
    by (auto simp: ethernet_network_packet_def)
qed

section \<open>The decoder on the macOS parameters\<close>

definition darwin_libc :: libc_abi where
  "darwin_libc = \<lparr>AF_INET = 2, AF_INET6 = 30, IPPROTO_TCP = 6, bh_caplen_offset = 8,
     bh_hdrlen_offset = 16\<rparr>"

interpretation mac: bpf_decoder wire_lib darwin_libc
  by unfold_locales (simp_all add: darwin_libc_def)

lemma bpf_decoder_mac: "bpf_decoder wire_lib darwin_libc"
  by (rule mac.bpf_decoder_axioms)

section \<open>Properties of the decoder\<close>



text \<open>
  VLAN transparency. An Ethernet frame with any number of 802.1Q, 802.1ad or QinQ tags in front
  of an IPv4 or IPv6 payload yields exactly that payload.
\<close>

theorem ethernet_vlan_transparent:
  assumes "length macs = 12" and "list_all (\<lambda>(tpid, tci). is_vlan_tag tpid) tags"
    and "ty = 0x0800 \<or> ty = 0x86dd"
  shows "ethernet_network_packet (macs @ tagged tags ty payload) = Some payload"
  by (rule ethernet_tagged [OF assms])

theorem ethernet_vlan_transparent_witness:
  "ethernet_network_packet (replicate 12 0 @ tagged [(0x8100, 1), (0x88a8, 2)] 0x0800 [69, 1])
     = Some [69, 1]"
  by (rule ethernet_vlan_transparent) (simp_all add: is_vlan_tag_def)

text \<open>
  A scoped IPv6 server is never matched. When the configured address carries a scope
  identifier or a flow label, as a link-local address from the resolver does, no packet at all is
  recognised as coming from it, because the comparison builds the packet's source with
  \<open>SocketAddr::new\<close>, which sets both to zero.
\<close>

theorem scoped_remote_never_expected:
  assumes "\<not> unscoped remote"
  shows "is_expected_remote_packet L packet remote \<noteq> Ret True"
  using assms
  by (auto simp: is_expected_remote_packet_def obind_eq_Ret_iff socket_addr_new_eq_iff
      split: option.splits)

theorem scoped_remote_never_expected_witness:
  "is_expected_remote_packet wire_lib [96] (V6 (SocketAddrV6 1 65009 0 4)) \<noteq> Ret True"
  by (rule scoped_remote_never_expected) simp

lemma u16_from_be_64_0: "u16_from_be [64, 0] AND 0x1fff = 0"
  by (simp add: u16_from_be_def bytes_nat_def)

context bpf_decoder
begin

lemma normalize_v4_wire:
  assumes "n = 20 + length t" "20 \<le> length t" "n < 65536"
  shows "normalize_ip_packet C (ipv4_wire n ck s d @ t) = Some (ipv4_wire n ck s d @ t)"
proof -
  have n: "unat (word_of_nat n :: u16) = n"
    using assms(3) unfolding unat_of_nat by simp
  have "u16_from_be (chunk 2 2 (ipv4_wire n ck s d @ t)) = word_of_nat n"
    by (simp add: ipv4_wire_def chunk_def)
  moreover have "chunk 6 2 (ipv4_wire n ck s d @ t) = [64, 0]"
    by (simp add: ipv4_wire_def chunk_def)
  moreover have "(ipv4_wire n ck s d @ t) ! 0 = 69" "(ipv4_wire n ck s d @ t) ! 9 = 6"
    by (simp_all add: ipv4_wire_def nth_append)
  ultimately show ?thesis
    using assms(1,2) n u16_from_be_64_0 by (intro normalize_v4_fix) (simp_all only:, simp_all)
qed

lemma normalize_v6_wire:
  assumes "n = length t" "20 \<le> n" "n < 65536"
  shows "normalize_ip_packet C (ipv6_wire n s d @ t) = Some (ipv6_wire n s d @ t)"
proof -
  have n: "unat (word_of_nat n :: u16) = n"
    using assms(3) unfolding unat_of_nat by simp
  have "u16_from_be (chunk 4 2 (ipv6_wire n s d @ t)) = word_of_nat n"
    by (simp add: ipv6_wire_def chunk_def)
  moreover have "(ipv6_wire n s d @ t) ! 0 = 96" "(ipv6_wire n s d @ t) ! 6 = 6"
    by (simp_all add: ipv6_wire_def nth_append)
  ultimately show ?thesis
    using assms(1,2) n by (intro normalize_v6_fix) (simp_all only:, simp_all)
qed

lemma build_normalized:
  assumes "build_tcp_packet L l r sq ak flags payload = Ret b"
  shows "normalize_ip_packet C b = Some b"
proof -
  have "same_family l r" "fits l flags payload"
    using build_panics_iff [of l r sq ak flags payload] assms by auto
  then consider (v4) l4 r4 where "l = V4 l4" "r = V4 r4" "20 + tcp_wire_len flags payload < 65536"
    | (v6) l6 r6 where "l = V6 l6" "r = V6 r6" "tcp_wire_len flags payload < 65536"
    by (cases l; cases r) (auto simp: same_family_def fits_def)
  then show ?thesis
  proof cases
    case v4
    with assms build_v4 [OF refl v4(3) refl refl, of l4 r4 sq ak] show ?thesis
      by (auto simp: tcp_wire_len_def intro!: normalize_v4_wire)
  next
    case v6
    with assms build_v6 [OF refl v6(3) refl, of l6 r6 sq ak] show ?thesis
      by (auto simp: tcp_wire_len_def intro!: normalize_v6_wire)
  qed
qed

end

text \<open>The frames in which each link type carries an IP packet.\<close>

definition framed :: "libc_abi \<Rightarrow> LinkType \<Rightarrow> bytes \<Rightarrow> bytes \<Rightarrow> bool" where
  "framed C link_type packet frame \<longleftrightarrow>
     (case link_type of
        Raw \<Rightarrow> frame = packet
      | Null \<Rightarrow> frame = u32_to_ne (AF_INET C) @ packet \<or> frame = u32_to_ne (AF_INET6 C) @ packet
      | Ethernet \<Rightarrow> (\<exists>macs tags ty. length macs = 12 \<and> list_all (\<lambda>(tpid, tci). is_vlan_tag tpid) tags
          \<and> (ty = 0x0800 \<or> ty = 0x86dd) \<and> frame = macs @ tagged tags ty packet))"

lemma framed_packet:
  "framed C lt p f \<Longrightarrow> packet_from_link_frame C lt f = normalize_ip_packet C p"
  by (auto simp: framed_def packet_from_link_frame_def Let_def ethernet_tagged
      split: LinkType.splits option.splits)

context bpf_decoder
begin

lemma framed_accepted:
  assumes "build_tcp_packet L remote l sq ak flags payload = Ret b" "unscoped remote" "framed C lt b f"
  shows "accepted L C lt remote f = [b]"
proof -
  note norm = build_normalized [OF assms(1)]
  have "same_family remote l" "fits remote flags payload"
    using build_panics_iff [of remote l sq ak flags payload] assms(1) by auto
  from build_carries [OF this, of sq ak] assms(1) obtain S where
    S: "carries L b S" "seg_src S = strip_scope remote" by auto
  from expected_iff [OF norm, of remote] obtain S' where
    "carries L b S'" "is_expected_remote_packet L b remote = Ret (seg_src S' = remote)" by blast
  with S carries_unique [OF S(1)] assms(2) have "is_expected_remote_packet L b remote = Ret True"
    by (simp add: strip_scope_def socket_addr_new_self)
  with framed_packet [OF assms(3)] norm show ?thesis
    by (simp add: accepted_def)
qed

end

text \<open>
  The server's packets get through. A packet that the server's \<open>build_tcp_packet\<close> emits from the
  configured (unscoped) address, framed as any supported link type frames it, is accepted unchanged.
\<close>

theorem server_packet_accepted:
  assumes "bpf_decoder L C" and "build_tcp_packet L remote l sq ak flags payload = Ret b"
    and "unscoped remote" and "framed C link_type b frame"
  shows "accepted L C link_type remote frame = [b]"
  by (rule bpf_decoder.framed_accepted [OF assms])

theorem server_packet_accepted_witness:
  "\<exists>b. build_tcp_packet wire_lib (V4 (SocketAddrV4 3405803796 65009)) (V4 (SocketAddrV4 3325256714 40000))
       0 1 18 None = Ret b
    \<and> accepted wire_lib darwin_libc Ethernet (V4 (SocketAddrV4 3405803796 65009))
        (replicate 12 0 @ tagged [(0x8100, 1)] 0x0800 b) = [b]"
proof -
  have "\<not> panics (build_tcp_packet wire_lib (V4 (SocketAddrV4 3405803796 65009))
      (V4 (SocketAddrV4 3325256714 40000)) 0 1 18 None)"
    by (simp add: wire.build_panics_iff same_family_def)
  then obtain b where b: "build_tcp_packet wire_lib (V4 (SocketAddrV4 3405803796 65009))
      (V4 (SocketAddrV4 3325256714 40000)) 0 1 18 None = Ret b"
    by (auto simp: not_panics_iff)
  have "framed darwin_libc Ethernet b (replicate 12 0 @ tagged [(0x8100, 1)] 0x0800 b)"
    by (auto simp: framed_def is_vlan_tag_def intro!: exI [of _ "replicate 12 0"] exI [of _ "[(0x8100, 1)]"]
        exI [of _ "0x0800"])
  with server_packet_accepted [OF bpf_decoder_mac b _ this] b show ?thesis by auto
qed

text \<open>One BPF record around a frame.\<close>

definition record_of :: "bytes \<Rightarrow> bpf_rec" where
  "record_of frame = \<lparr>rec_ts = replicate 8 0, rec_datalen = word_of_nat (length frame), rec_fill = [],
     rec_frame = frame, rec_pad = replicate (bpf_word_align (18 + length frame) - (18 + length frame)) 0\<rparr>"

lemma record_of_ok: "length frame < 65536 \<Longrightarrow> stream_ok [record_of frame] None"
  by (simp add: stream_ok_def rec_ok_def rec_len_def record_of_def stream_def rec_padded_def rec_bytes_def
      bpf_word_align_eq)

lemma server_record_decoded:
  assumes "bpf_decoder L C" "build_tcp_packet L remote l sq ak flags payload = Ret b" "unscoped remote"
    and "framed C lt b frame" "length frame < 65536"
  shows "decode_records L C (stream [record_of frame] None) lt remote = Ret (Inr [b])"
  using bpf_decoder.decode_records_stream [OF assms(1) record_of_ok [OF assms(5)], of lt remote]
    bpf_decoder.framed_accepted [OF assms(1-4)]
  by (simp add: frames_of_def record_of_def)

lemma sample_built:
  obtains b where "build_tcp_packet wire_lib (V4 (SocketAddrV4 3405803796 65009)) (V4 (SocketAddrV4 3325256714 40000))
      0 1 18 None = Ret b" "length b = 44"
proof -
  have "same_family (V4 (SocketAddrV4 3405803796 65009)) (V4 (SocketAddrV4 3325256714 40000))"
    by (simp add: same_family_def)
  from wire.build_carries [OF this fits_None, where flags = 18 and seq = 0 and ack = 1] obtain b where
    "build_tcp_packet wire_lib (V4 (SocketAddrV4 3405803796 65009)) (V4 (SocketAddrV4 3325256714 40000)) 0 1 18 None = Ret b"
    "length b = packet_len (V4 (SocketAddrV4 3405803796 65009)) 18 None" by blast
  then show ?thesis by (intro that) (simp_all add: packet_len_def tcp_wire_len_def has_syn_def)
qed

text \<open>
  C30: the decoder is total and filters. On every byte sequence, well formed or not, decoding
  finishes without a panic. It fails only with \<open>InvalidData\<close>; otherwise every packet it returns is a
  complete TCP/IP packet from the configured server, in normal form (no options, not a fragment, cut
  to its declared length), that the tunnel's parser accepts.
\<close>

theorem decode_records_safe:
  assumes "bpf_decoder L C"
  shows "\<exists>r. decode_records L C records link_type remote = Ret r
    \<and> (case r of Inl e \<Rightarrow> error_kind e = InvalidData
       | Inr ps \<Rightarrow> list_all (\<lambda>p. from_server L C remote p \<and> length p \<le> length records) ps)"
proof -
  obtain r where r: "decode_loop L C link_type remote records 0 [] = Ret r"
    "\<forall>qs. r = Inr qs \<longrightarrow> (\<forall>q \<in> set qs. from_server L C remote q \<and> length q \<le> length records)"
    "\<forall>e. r = Inl e \<longrightarrow> error_kind e = InvalidData"
    using bpf_decoder.decode_loop_safe [OF assms, of link_type remote records 0 "[]"] by auto
  then show ?thesis by (cases r) (auto simp: decode_records_def list_all_iff)
qed

theorem decode_records_safe_witness:
  "\<exists>records b. decode_records wire_lib darwin_libc records Raw (V4 (SocketAddrV4 3405803796 65009)) = Ret (Inr [b])
     \<and> from_server wire_lib darwin_libc (V4 (SocketAddrV4 3405803796 65009)) b"
proof -
  obtain b where b: "build_tcp_packet wire_lib (V4 (SocketAddrV4 3405803796 65009)) (V4 (SocketAddrV4 3325256714 40000))
      0 1 18 None = Ret b" "length b = 44" by (rule sample_built)
  have "framed darwin_libc Raw b b" by (simp add: framed_def)
  from server_record_decoded [OF bpf_decoder_mac b(1) _ this] b(2) have
    r: "decode_records wire_lib darwin_libc (stream [record_of b] None) Raw (V4 (SocketAddrV4 3405803796 65009)) = Ret (Inr [b])" by simp
  with decode_records_safe [OF bpf_decoder_mac, of "stream [record_of b] None" Raw "V4 (SocketAddrV4 3405803796 65009)"]
  show ?thesis by auto
qed

end
