(* ===== verification/RawSender.thy ===== *)
theory RawSender
  imports Decoder
begin

text \<open>
  The sending half of \<open>phantun-client-mac/src/macos_packet.rs\<close>: the raw IP socket, its destination
  address, and the conversion of a wire packet into what the Darwin kernel expects. System calls are
  parameters that return their result and the error number; constants and structure sizes of the
  \<open>libc\<close> crate are the parameter \<open>sock_abi\<close>.
\<close>

section \<open>System calls\<close>

record sock_abi =
  SOCK_RAW :: int
  IPPROTO_RAW :: int
  IPPROTO_IP :: int
  IP_HDRINCL :: int
  O_NONBLOCK :: int
  sizeof_sockaddr_in :: nat
  sizeof_sockaddr_in6 :: nat

record sockaddr_in =
  sin_len :: u8
  sin_family :: u8
  sin_port :: u16
  sin_addr :: u32
  sin_zero :: bytes

record sockaddr_in6 =
  sin6_len :: u8
  sin6_family :: u8
  sin6_port :: u16
  sin6_flowinfo :: u32
  sin6_addr :: bytes
  sin6_scope_id :: u32

datatype sockaddr = Sockaddr_in sockaddr_in | Sockaddr_in6 sockaddr_in6

type_synonym sys_result = "int \<times> nat"
type_synonym sendto_call = "int \<Rightarrow> bytes \<Rightarrow> sockaddr \<Rightarrow> nat \<Rightarrow> sys_result"

record raw_kernel =
  sys_socket :: "int \<Rightarrow> int \<Rightarrow> int \<Rightarrow> sys_result"
  sys_getfl :: "int \<Rightarrow> sys_result"
  sys_setfl :: "int \<Rightarrow> int \<Rightarrow> sys_result"
  sys_setsockopt :: "int \<Rightarrow> int \<Rightarrow> int \<Rightarrow> int \<Rightarrow> sys_result"
  sys_bind :: "int \<Rightarrow> sockaddr \<Rightarrow> nat \<Rightarrow> sys_result"
  async_fd_new :: "int \<Rightarrow> int io"

text \<open>A negative result is the error of \<open>io::Error::last_os_error()\<close>.\<close>

definition sys_check :: "sys_result \<Rightarrow> int io" where
  "sys_check r = (if fst r < 0 then Inl (Os (snd r)) else Inr (fst r))"

section \<open>Destination addresses\<close>

definition sockaddr_v4 :: "sock_abi \<Rightarrow> libc_abi \<Rightarrow> socket_addr_v4 \<Rightarrow> sockaddr_in" where
  "sockaddr_v4 A C address =
     \<lparr>sin_len = word_of_nat (sizeof_sockaddr_in A), sin_family = ucast (AF_INET C),
      sin_port = u16_from_ne (u16_to_be (port4 address)),
      sin_addr = u32_from_ne (octets4 (ip4 address)), sin_zero = replicate 8 0\<rparr>"

definition raw_destination_v4 :: "sock_abi \<Rightarrow> libc_abi \<Rightarrow> socket_addr_v4 \<Rightarrow> sockaddr_in" where
  "raw_destination_v4 A C address = (sockaddr_v4 A C address)\<lparr>sin_port := 0\<rparr>"

definition sockaddr_v6 :: "sock_abi \<Rightarrow> libc_abi \<Rightarrow> socket_addr_v6 \<Rightarrow> sockaddr_in6" where
  "sockaddr_v6 A C address =
     \<lparr>sin6_len = word_of_nat (sizeof_sockaddr_in6 A), sin6_family = ucast (AF_INET6 C),
      sin6_port = u16_from_ne (u16_to_be (port6 address)), sin6_flowinfo = flowinfo address,
      sin6_addr = octets6 (ip6 address), sin6_scope_id = scope_id address\<rparr>"

definition raw_destination_v6 :: "sock_abi \<Rightarrow> libc_abi \<Rightarrow> socket_addr_v6 \<Rightarrow> sockaddr_in6" where
  "raw_destination_v6 A C address = (sockaddr_v6 A C address)\<lparr>sin6_port := 0\<rparr>"

section \<open>One packet to the kernel\<close>

definition send_to :: "sendto_call \<Rightarrow> int \<Rightarrow> bytes \<Rightarrow> sockaddr \<Rightarrow> nat \<Rightarrow> nat io" where
  "send_to sendto raw_fd packet remote address_len =
     io_bind (sys_check (sendto raw_fd packet remote address_len)) (\<lambda>size.
       if nat size \<noteq> length packet then Inl (Custom WriteZero ''short write to raw IP socket'')
       else Inr (nat size))"

definition macos_raw_ipv4_packet :: "bytes \<Rightarrow> bytes io" where
  "macos_raw_ipv4_packet packet =
     (if length packet < 20
      then Inl (Custom InvalidData ''IPv4 fake-TCP packet is shorter than its IP header'')
      else
        let header_len = unat (packet ! 0 AND 0x0f) * 4;
            total_len = u16_from_be (chunk 2 2 packet)
        in if header_len < 20 \<or> header_len > length packet \<or> unat total_len \<noteq> length packet
           then Inl (Custom InvalidData ''IPv4 fake-TCP packet has an invalid total length'')
           else
             let macos_packet = write_at 2 (u16_to_ne total_len) packet;
                 fragment_offset = u16_from_be (chunk 6 2 packet)
             in Inr (write_at 6 (u16_to_ne fragment_offset) macos_packet))"

definition send_ipv4_packet ::
  "sock_abi \<Rightarrow> sendto_call \<Rightarrow> int \<Rightarrow> sockaddr_in \<Rightarrow> bytes \<Rightarrow> nat io" where
  "send_ipv4_packet A sendto raw_fd remote packet =
     (if (case packet of [] \<Rightarrow> True | b # _ \<Rightarrow> drop_bit 4 b \<noteq> 4)
      then Inl (Custom InvalidData ''IPv4 raw socket received a non-IPv4 fake-TCP packet'')
      else io_bind (macos_raw_ipv4_packet packet) (\<lambda>packet.
        send_to sendto raw_fd packet (Sockaddr_in remote) (sizeof_sockaddr_in A)))"

definition ipv6_tcp_payload :: "libc_abi \<Rightarrow> bytes \<Rightarrow> bytes io" where
  "ipv6_tcp_payload C packet =
     (if length packet < 60 \<or> drop_bit 4 (packet ! 0) \<noteq> 6 \<or> packet ! 6 \<noteq> IPPROTO_TCP C
      then Inl (Custom InvalidData ''IPv6 raw socket received an invalid fake-TCP packet'')
      else
        let payload_len = unat (u16_from_be (chunk 4 2 packet))
        in if payload_len < 20 \<or> payload_len + 40 \<noteq> length packet
           then Inl (Custom InvalidData ''IPv6 fake-TCP packet has an invalid payload length'')
           else Inr (drop 40 packet))"

definition send_ipv6_packet ::
  "sock_abi \<Rightarrow> libc_abi \<Rightarrow> sendto_call \<Rightarrow> int \<Rightarrow> sockaddr_in6 \<Rightarrow> bytes \<Rightarrow> nat io" where
  "send_ipv6_packet A C sendto raw_fd remote packet =
     io_bind (ipv6_tcp_payload C packet) (\<lambda>payload.
     io_bind (send_to sendto raw_fd payload (Sockaddr_in6 remote) (sizeof_sockaddr_in6 A)) (\<lambda>_.
       Inr (length packet)))"

section \<open>The sender\<close>

definition set_nonblocking :: "sock_abi \<Rightarrow> raw_kernel \<Rightarrow> int \<Rightarrow> unit io" where
  "set_nonblocking A K raw_fd =
     io_bind (sys_check (sys_getfl K raw_fd)) (\<lambda>flags.
     io_bind (sys_check (sys_setfl K raw_fd (flags OR O_NONBLOCK A))) (\<lambda>_. Inr ()))"

definition open_raw_socket :: "sock_abi \<Rightarrow> raw_kernel \<Rightarrow> int \<Rightarrow> int \<Rightarrow> int io" where
  "open_raw_socket A K domain protocol =
     io_bind (sys_check (sys_socket K domain (SOCK_RAW A) protocol)) (\<lambda>fd.
     io_bind (set_nonblocking A K fd) (\<lambda>_. Inr fd))"

datatype RawPacketSender = Ipv4 int sockaddr_in | Ipv6 int sockaddr_in6

fun raw_sender_new ::
  "sock_abi \<Rightarrow> libc_abi \<Rightarrow> raw_kernel \<Rightarrow> socket_addr \<Rightarrow> socket_addr_v6 option \<Rightarrow> RawPacketSender io"
where
  "raw_sender_new A C K (V4 remote) local_ipv6 =
     io_bind (open_raw_socket A K (uint (AF_INET C)) (IPPROTO_RAW A)) (\<lambda>fd.
     io_bind (sys_check (sys_setsockopt K fd (IPPROTO_IP A) (IP_HDRINCL A) 1)) (\<lambda>_.
     io_bind (async_fd_new K fd) (\<lambda>fd. Inr (Ipv4 fd (raw_destination_v4 A C remote)))))"
| "raw_sender_new A C K (V6 remote) local_ipv6 =
     (case local_ipv6 of
        None \<Rightarrow> Inl (Custom AddrNotAvailable
                  ''no local IPv6 address is available for the configured remote'')
      | Some local \<Rightarrow>
          io_bind (open_raw_socket A K (uint (AF_INET6 C)) (uint (IPPROTO_TCP C))) (\<lambda>fd.
          let local_address =
                sockaddr_v6 A C (SocketAddrV6 (ip6 local) 0 (flowinfo local) (scope_id local))
          in io_bind (sys_check (sys_bind K fd (Sockaddr_in6 local_address) (sizeof_sockaddr_in6 A)))
             (\<lambda>_. io_bind (async_fd_new K fd)
             (\<lambda>fd. Inr (Ipv6 fd (raw_destination_v6 A C remote))))))"

fun sender_write :: "sock_abi \<Rightarrow> libc_abi \<Rightarrow> RawPacketSender \<Rightarrow> sendto_call \<Rightarrow> bytes \<Rightarrow> nat io" where
  "sender_write A C (Ipv4 fd remote) sendto packet = send_ipv4_packet A sendto fd remote packet"
| "sender_write A C (Ipv6 fd remote) sendto packet = send_ipv6_packet A C sendto fd remote packet"

text \<open>
  \<open>wait_writable\<close>: each round the descriptor reports readiness (or an error), and one write is
  tried; a write that would block starts the next round. \<open>rounds\<close> holds the rounds the kernel has
  answered so far; \<open>None\<close> means the task still waits.
\<close>

fun wait_writable :: "(unit io \<times> 'k) list \<Rightarrow> ('k \<Rightarrow> nat io) \<Rightarrow> nat io option" where
  "wait_writable [] write_packet = None"
| "wait_writable ((writable, k) # rounds) write_packet =
     (case writable of
        Inl e \<Rightarrow> Some (Inl e)
      | Inr _ \<Rightarrow>
          (case write_packet k of
             Inl e \<Rightarrow> if error_kind e = WouldBlock then wait_writable rounds write_packet
                      else Some (Inl e)
           | Inr n \<Rightarrow> Some (Inr n)))"

definition raw_sender_send ::
  "sock_abi \<Rightarrow> libc_abi \<Rightarrow> RawPacketSender \<Rightarrow> (unit io \<times> sendto_call) list \<Rightarrow> bytes \<Rightarrow> nat io option"
where
  "raw_sender_send A C sender rounds packet =
     wait_writable rounds (\<lambda>sendto. sender_write A C sender sendto packet)"

definition raw_sender_try_send ::
  "sock_abi \<Rightarrow> libc_abi \<Rightarrow> RawPacketSender \<Rightarrow> sendto_call \<Rightarrow> bytes \<Rightarrow> unit io" where
  "raw_sender_try_send A C sender sendto packet =
     io_bind (sender_write A C sender sendto packet) (\<lambda>_. Inr ())"

section \<open>The buffer for the kernel\<close>

text \<open>
  The header that an \<open>IP_HDRINCL\<close> socket of Darwin is given: the length and the fragment field of \<open>b\<close> are
  in host order in \<open>q\<close>, and every other byte is that of \<open>b\<close>.
\<close>

definition host_header :: "bytes \<Rightarrow> bytes \<Rightarrow> bool" where
  "host_header q b \<longleftrightarrow> length q = length b
     \<and> u16_from_ne (chunk 2 2 q) = u16_from_be (chunk 2 2 b) \<and> u16_from_ne (chunk 6 2 q) = u16_from_be (chunk 6 2 b)
     \<and> (\<forall>i<length b. i \<notin> {2, 3, 6, 7} \<longrightarrow> q ! i = b ! i)"

lemma chunk_drop: "chunk i n b @ drop (i + n) b = drop i b"
  by (metis append_take_drop_id chunk_def drop_drop add.commute)

text \<open>A header cut at the two swapped fields.\<close>

lemma header_split:
  assumes "8 \<le> length p"
  obtains a n b f c where "p = a @ n @ b @ f @ c" "length a = 2" "length n = 2" "length b = 2" "length f = 2"
proof
  have "drop 2 p = chunk 2 2 p @ drop 4 p" "drop 4 p = chunk 4 2 p @ drop 6 p"
    "drop 6 p = chunk 6 2 p @ drop 8 p"
    using chunk_drop [of 2 2 p] chunk_drop [of 4 2 p] chunk_drop [of 6 2 p] by simp_all
  then show "p = take 2 p @ chunk 2 2 p @ chunk 4 2 p @ chunk 6 2 p @ drop 8 p"
    by (metis append_take_drop_id)
qed (use assms in simp_all)

lemma swap_fields:
  "length a = 2 \<Longrightarrow> length n = 2 \<Longrightarrow> length b = 2 \<Longrightarrow> length f = 2 \<Longrightarrow> length n' = 2
    \<Longrightarrow> length f' = 2 \<Longrightarrow> write_at 6 f' (write_at 2 n' (a @ n @ b @ f @ c)) = a @ n' @ b @ f' @ c"
  by (simp add: write_at_def)

lemma macos_raw_cases:
  "macos_raw_ipv4_packet p = Inr q \<longleftrightarrow>
     20 \<le> length p \<and> 5 \<le> unat (p ! 0 AND 0x0f) \<and> 4 * unat (p ! 0 AND 0x0f) \<le> length p
     \<and> unat (u16_from_be (chunk 2 2 p)) = length p
     \<and> q = write_at 6 (u16_to_ne (u16_from_be (chunk 6 2 p)))
             (write_at 2 (u16_to_ne (u16_from_be (chunk 2 2 p))) p)"
  by (auto simp: macos_raw_ipv4_packet_def Let_def)

lemma macos_raw_host_header:
  assumes "macos_raw_ipv4_packet p = Inr q"
  shows "host_header q p"
proof -
  from assms have "20 \<le> length p" by (simp add: macos_raw_cases)
  then obtain a n b f c where p: "p = a @ n @ b @ f @ c"
    and len: "length a = 2" "length n = 2" "length b = 2" "length f = 2"
    by (auto intro: header_split [of p])
  have fields: "chunk 2 2 p = n" "chunk 6 2 p = f" using len by (simp_all add: p chunk_def)
  have q: "q = a @ u16_to_ne (u16_from_be n) @ b @ u16_to_ne (u16_from_be f) @ c"
    using assms len by (auto simp: macos_raw_cases fields) (simp add: p swap_fields)
  have "chunk 2 2 q = u16_to_ne (u16_from_be n)" "chunk 6 2 q = u16_to_ne (u16_from_be f)"
    using len by (simp_all add: q chunk_def)
  moreover have "i \<notin> {2, 3, 6, 7} \<Longrightarrow> i < length p \<Longrightarrow> q ! i = p ! i" for i
    using len unfolding q p by (auto simp: nth_append)
  moreover have "length q = length p" using len by (simp add: q p)
  ultimately show ?thesis by (simp add: host_header_def fields)
qed

section \<open>Packets the stack builds reach the socket\<close>

text \<open>
  The buffer \<open>q\<close> that a sender submits for the packet \<open>b\<close>: for IPv4 the whole packet with two fields in host
  order, for IPv6, whose header the kernel writes, the TCP segment that the parser finds in \<open>b\<close>.
\<close>

fun raw_buffer :: "packet_lib \<Rightarrow> RawPacketSender \<Rightarrow> bytes \<Rightarrow> bytes \<Rightarrow> bool" where
  "raw_buffer L (Ipv4 fd remote) q b \<longleftrightarrow> host_header q b"
| "raw_buffer L (Ipv6 fd remote) q b \<longleftrightarrow> (\<exists>ip. parse_ip_packet L b = Ret (Some (ip, q)))"

fun sender_fd :: "RawPacketSender \<Rightarrow> int" where
  "sender_fd (Ipv4 fd remote) = fd"
| "sender_fd (Ipv6 fd remote) = fd"

fun destination_of :: "sock_abi \<Rightarrow> libc_abi \<Rightarrow> socket_addr \<Rightarrow> sockaddr" where
  "destination_of A C (V4 r) = Sockaddr_in (raw_destination_v4 A C r)"
| "destination_of A C (V6 r) = Sockaddr_in6 (raw_destination_v6 A C r)"

fun address_len_of :: "sock_abi \<Rightarrow> socket_addr \<Rightarrow> nat" where
  "address_len_of A (V4 r) = sizeof_sockaddr_in A"
| "address_len_of A (V6 r) = sizeof_sockaddr_in6 A"

lemma raw_sender_new_kind:
  "raw_sender_new A C K (V4 r) l6 = Inr sender \<Longrightarrow> \<exists>fd. sender = Ipv4 fd (raw_destination_v4 A C r)"
  "raw_sender_new A C K (V6 r6) l6 = Inr sender \<Longrightarrow> \<exists>fd. sender = Ipv6 fd (raw_destination_v6 A C r6)"
  by (auto simp: io_bind_eq_Inr_iff Let_def split: option.splits)

lemma send_to_size: "n = length q \<Longrightarrow> io_bind (send_to f fd q a k) (\<lambda>_. Inr n) = send_to f fd q a k"
  by (cases "sys_check (f fd q a k)") (simp_all add: send_to_def)

context bpf_decoder
begin

lemma ipv4_wire_sendable:
  assumes "n = 20 + length t" "n < 65536"
  shows "\<exists>q. macos_raw_ipv4_packet (ipv4_wire n ck s d @ t) = Inr q"
proof -
  have "unat (word_of_nat n :: u16) = n"
    using assms(2) unfolding unat_of_nat by simp
  moreover have "u16_from_be (chunk 2 2 (ipv4_wire n ck s d @ t)) = word_of_nat n"
    by (simp add: ipv4_wire_def chunk_def)
  moreover have "(ipv4_wire n ck s d @ t) ! 0 = 69"
    by (simp add: ipv4_wire_def)
  moreover have "unat ((69 :: u8) AND 15) = 5" by simp
  ultimately show ?thesis
    using assms(1) by (simp only: macos_raw_cases) (simp del: unat_word_ariths)
qed

lemma ipv6_wire_sendable:
  assumes "n = length t" "20 \<le> n" "n < 65536"
  shows "ipv6_tcp_payload C (ipv6_wire n s d @ t) = Inr t"
proof -
  have "unat (word_of_nat n :: u16) = n"
    using assms(3) unfolding unat_of_nat by simp
  moreover have "u16_from_be (chunk 4 2 (ipv6_wire n s d @ t)) = word_of_nat n"
    by (simp add: ipv6_wire_def chunk_def)
  moreover have "(ipv6_wire n s d @ t) ! 0 = 96" "(ipv6_wire n s d @ t) ! 6 = 6"
    by (simp_all add: ipv6_wire_def nth_append)
  moreover have "drop_bit 4 (96 :: u8) = 6" by simp
  ultimately show ?thesis
    using assms(1,2) IPPROTO_TCP by (simp only: ipv6_tcp_payload_def Let_def) simp
qed

lemma built_packet_submitted:
  assumes "build_tcp_packet L l r sq ak flags payload = Ret b"
    and "raw_sender_new A C K r l6 = Inr sender"
  shows "\<exists>q. raw_buffer L sender q b \<and> (\<forall>sendto. sender_write A C sender sendto b =
     io_bind (send_to sendto (sender_fd sender) q (destination_of A C r) (address_len_of A r))
       (\<lambda>_. Inr (length b)))"
proof (cases r)
  case (V4 r4)
  then obtain l4 where l: "l = V4 l4" "20 + tcp_wire_len flags payload < 65536"
    using assms(1) build_panics_iff [of l r sq ak flags payload]
    by (cases l) (auto simp: same_family_def fits_def)
  from V4 assms(2) obtain fd where s: "sender = Ipv4 fd (raw_destination_v4 A C r4)"
    using raw_sender_new_kind(1) by blast
  from build_v4 [OF refl l(2) refl refl, of l4 r4 sq ak] V4 l(1) assms(1) obtain ck t where
    b: "b = ipv4_wire (20 + length t) ck (ip4 l4) (ip4 r4) @ t" "20 + length t < 65536"
    using l(2) by (auto simp: tcp_wire_len_def)
  from ipv4_wire_sendable [OF refl b(2)] b(1) obtain q where q: "macos_raw_ipv4_packet b = Inr q"
    by blast
  have first: "\<exists>bs. b = 69 # bs" by (simp add: b(1) ipv4_wire_def)
  have "raw_buffer L sender q b"
    using macos_raw_host_header [OF q] s by simp
  moreover have "sender_write A C sender sendto b = io_bind (send_to sendto (sender_fd sender) q
      (destination_of A C r) (address_len_of A r)) (\<lambda>_. Inr (length b))" for sendto
    using first macos_raw_host_header [OF q, unfolded host_header_def] q s V4
    by (auto simp: send_ipv4_packet_def send_to_size)
  ultimately show ?thesis by blast
next
  case (V6 r6)
  then obtain l6' where l: "l = V6 l6'" "tcp_wire_len flags payload < 65536"
    using assms(1) build_panics_iff [of l r sq ak flags payload]
    by (cases l) (auto simp: same_family_def fits_def)
  from V6 assms(2) obtain fd where s: "sender = Ipv6 fd (raw_destination_v6 A C r6)"
    using raw_sender_new_kind(2) by blast
  from build_v6 [OF refl l(2) refl, of l6' r6 sq ak] V6 l(1) assms(1) obtain t where
    b: "b = ipv6_wire (length t) (ip6 l6') (ip6 r6) @ t" "20 \<le> length t" "length t < 65536"
    using l(2) by (auto simp: tcp_wire_len_def)
  with ipv6_wire_sendable [OF refl b(2,3)] parse_v6_wire [OF b(2)] s V6 show ?thesis
    by (auto simp: send_ipv6_packet_def)
qed

end

text \<open>Rounds of the write loop: the kernel reports a full buffer, or takes the whole buffer.\<close>

definition EAGAIN :: nat where "EAGAIN = 35"

definition blocked :: "unit io \<times> sendto_call \<Rightarrow> bool" where
  "blocked r \<longleftrightarrow> fst r = Inr () \<and> (\<forall>fd q a n. snd r fd q a n = (- 1, EAGAIN))"

definition takes_all :: "unit io \<times> sendto_call \<Rightarrow> bool" where
  "takes_all r \<longleftrightarrow> fst r = Inr () \<and> (\<forall>fd q a n. fst (snd r fd q a n) = int (length q))"

lemma send_to_blocked: "blocked r \<Longrightarrow> send_to (snd r) fd q a n = Inl (Os EAGAIN)"
  by (simp add: blocked_def send_to_def sys_check_def)

lemma send_to_takes_all: "takes_all r \<Longrightarrow> send_to (snd r) fd q a n = Inr (length q)"
  by (simp add: takes_all_def send_to_def sys_check_def)

lemma wait_writable_blocked:
  assumes "\<forall>r \<in> set rs. fst r = Inr () \<and> (\<exists>e. w (snd r) = Inl e \<and> error_kind e = WouldBlock)"
  shows "wait_writable (rs @ rs') w = wait_writable rs' w"
  using assms by (induction rs) (auto split: sum.splits)

text \<open>The macOS values and a kernel that grants every call.\<close>

definition darwin_sock :: sock_abi where
  "darwin_sock = \<lparr>SOCK_RAW = 3, IPPROTO_RAW = 255, IPPROTO_IP = 0, IP_HDRINCL = 2, O_NONBLOCK = 4,
     sizeof_sockaddr_in = 16, sizeof_sockaddr_in6 = 28\<rparr>"

definition granting_kernel :: raw_kernel where
  "granting_kernel = \<lparr>sys_socket = (\<lambda>d t p. (7, 0)), sys_getfl = (\<lambda>fd. (2, 0)), sys_setfl = (\<lambda>fd v. (0, 0)),
     sys_setsockopt = (\<lambda>fd l n v. (0, 0)), sys_bind = (\<lambda>fd a n. (0, 0)), async_fd_new = Inr\<rparr>"


text \<open>
  The Darwin header conversion. \<open>macos_raw_ipv4_packet\<close> accepts exactly the packets whose header
  length and total length describe the buffer; it converts the two 16-bit fields to host order and
  changes no other byte. Everything else is refused as \<open>InvalidData\<close>.
\<close>

theorem raw_header_conversion:
  "case macos_raw_ipv4_packet packet of
     Inr q \<Rightarrow> 20 \<le> length packet \<and> 5 \<le> unat (packet ! 0 AND 0x0f)
         \<and> 4 * unat (packet ! 0 AND 0x0f) \<le> length packet
         \<and> unat (u16_from_be (chunk 2 2 packet)) = length packet \<and> host_header q packet
   | Inl e \<Rightarrow> error_kind e = InvalidData
         \<and> \<not> (20 \<le> length packet \<and> 5 \<le> unat (packet ! 0 AND 0x0f)
              \<and> 4 * unat (packet ! 0 AND 0x0f) \<le> length packet
              \<and> unat (u16_from_be (chunk 2 2 packet)) = length packet)"
proof (cases "macos_raw_ipv4_packet packet")
  case (Inr q)
  from iffD1 [OF macos_raw_cases Inr] macos_raw_host_header [OF Inr] show ?thesis
    unfolding Inr sum.case by blast
next
  case (Inl e)
  then show ?thesis by (auto simp: macos_raw_ipv4_packet_def Let_def split: if_splits)
qed

end
