(* ===== verification/Capture.thy ===== *)
theory Capture
  imports RawSender
begin

text \<open>
  The receiving half of the macOS device in \<open>phantun-client-mac/src/macos_packet.rs\<close>: opening and
  configuring a BPF device, waiting for and reading record buffers, and the queue of decoded packets.
  System calls and \<open>libpcap\<close> are parameters; the queue's mutex is never poisoned because nothing
  panics while it is held.
\<close>

section \<open>Errors with context\<close>

text \<open>\<open>show\<close> is the \<open>Display\<close> of an error; for operating system errors its text is the system's.\<close>

definition contextual_error :: "(io_error \<Rightarrow> string) \<Rightarrow> string \<Rightarrow> io_error \<Rightarrow> io_error" where
  "contextual_error show ctx e = Custom (error_kind e) (ctx @ '': '' @ show e)"

fun map_err :: "(io_error \<Rightarrow> io_error) \<Rightarrow> 'a io \<Rightarrow> 'a io" where
  "map_err f (Inl e) = Inl (f e)"
| "map_err f (Inr x) = Inr x"

definition in_context :: "(io_error \<Rightarrow> string) \<Rightarrow> string \<Rightarrow> 'a io \<Rightarrow> 'a io" where
  "in_context show ctx = map_err (contextual_error show ctx)"

section \<open>Opening the device\<close>

definition BPF_BUFFER_REQUESTED :: u32 where "BPF_BUFFER_REQUESTED = 0x00080000"
definition BPF_POLL_TIMEOUT_MILLIS :: int where "BPF_POLL_TIMEOUT_MILLIS = 250"
definition PCAP_NETMASK_UNKNOWN :: u32 where "PCAP_NETMASK_UNKNOWN = 0xffffffff"

record bpf_abi =
  EBUSY :: nat
  IFNAMSIZ :: nat
  POLLIN :: u16
  POLLERR :: u16
  POLLHUP :: u16
  POLLNVAL :: u16

text \<open>
  \<open>sys_open i\<close> opens \<open>/dev/bpf<i>\<close>; the \<open>ioctl\<close>s return their result and, where they write one, the
  value; \<open>pcap_compile\<close> returns the result of \<open>pcap_compile_nopcap\<close> and the program.
\<close>

record 'p bpf_kernel =
  sys_open :: "string \<Rightarrow> sys_result"
  bioc_sblen :: "int \<Rightarrow> u32 \<Rightarrow> sys_result"
  bioc_setif :: "int \<Rightarrow> string \<Rightarrow> sys_result"
  bioc_immediate :: "int \<Rightarrow> u32 \<Rightarrow> sys_result"
  bioc_sseesent :: "int \<Rightarrow> u32 \<Rightarrow> sys_result"
  bioc_gdlt :: "int \<Rightarrow> sys_result \<times> u32"
  pcap_compile :: "nat \<Rightarrow> int \<Rightarrow> string \<Rightarrow> int \<Rightarrow> u32 \<Rightarrow> int \<times> 'p"
  bioc_setf :: "int \<Rightarrow> 'p \<Rightarrow> sys_result"
  bioc_gblen :: "int \<Rightarrow> sys_result \<times> u32"

record BpfCapture =
  cap_fd :: int
  buffer_len :: nat
  link_type :: LinkType
  cap_remote :: socket_addr
  queue :: "bytes list"

text \<open>The loop over \<open>/dev/bpf0\<close> to \<open>/dev/bpf255\<close>.\<close>

fun open_bpf_loop :: "bpf_abi \<Rightarrow> 'p bpf_kernel \<Rightarrow> nat list \<Rightarrow> io_error option \<Rightarrow> int io" where
  "open_bpf_loop B K [] last_error =
     Inl (case last_error of Some e \<Rightarrow> e
          | None \<Rightarrow> Custom NotFound ''no macOS BPF capture device is available'')"
| "open_bpf_loop B K (i # is) last_error =
     (case sys_check (sys_open K (''/dev/bpf'' @ show_nat i)) of
        Inr fd \<Rightarrow> Inr fd
      | Inl e \<Rightarrow> if raw_os_error e \<noteq> Some (EBUSY B) then Inl e else open_bpf_loop B K is (Some e))"

definition open_bpf_device :: "bpf_abi \<Rightarrow> 'p bpf_kernel \<Rightarrow> int io" where
  "open_bpf_device B K = open_bpf_loop B K [0..<256] None"

definition filter_expression :: "socket_addr \<Rightarrow> string" where
  "filter_expression remote =
     ''tcp and src host '' @ show_ip (addr_ip remote) @ '' and src port '' @ show_nat (unat (addr_port remote))"

definition compile_bpf_filter :: "'p bpf_kernel \<Rightarrow> LinkType \<Rightarrow> socket_addr \<Rightarrow> 'p io" where
  "compile_bpf_filter K lt remote =
     (let (compilation, program) =
            pcap_compile K 65535 (dlt lt) (filter_expression remote) 1 PCAP_NETMASK_UNKNOWN
      in if compilation \<noteq> 0
         then Inl (Custom Other ''unable to compile the macOS BPF filter for the Phantun remote'')
         else Inr program)"

definition install_bpf_filter :: "'p bpf_kernel \<Rightarrow> int \<Rightarrow> LinkType \<Rightarrow> socket_addr \<Rightarrow> unit io" where
  "install_bpf_filter K fd lt remote =
     io_bind (compile_bpf_filter K lt remote) (\<lambda>program.
     io_bind (sys_check (bioc_setf K fd program)) (\<lambda>_. Inr ()))"

definition configure_bpf ::
  "(io_error \<Rightarrow> string) \<Rightarrow> bpf_abi \<Rightarrow> 'p bpf_kernel \<Rightarrow> int \<Rightarrow> string \<Rightarrow> socket_addr \<Rightarrow> BpfCapture io" where
  "configure_bpf show B K fd interface_name remote =
     (if length interface_name \<ge> IFNAMSIZ B
      then Inl (Custom InvalidInput (''network interface name is too long: '' @ interface_name))
      else
        io_bind (in_context show ''BIOCSBLEN'' (sys_check (bioc_sblen K fd BPF_BUFFER_REQUESTED))) (\<lambda>_.
        io_bind (in_context show ''BIOCSETIF'' (sys_check (bioc_setif K fd interface_name))) (\<lambda>_.
        io_bind (in_context show ''BIOCIMMEDIATE'' (sys_check (bioc_immediate K fd 1))) (\<lambda>_.
        io_bind (in_context show ''BIOCSSEESENT'' (sys_check (bioc_sseesent K fd 1))) (\<lambda>_.
        io_bind (in_context show ''BIOCGDLT'' (sys_check (fst (bioc_gdlt K fd)))) (\<lambda>_.
        io_bind (from_dlt (sint (snd (bioc_gdlt K fd)))) (\<lambda>lt.
        io_bind (in_context show ''install BPF filter'' (install_bpf_filter K fd lt remote)) (\<lambda>_.
        io_bind (in_context show ''BIOCGBLEN'' (sys_check (fst (bioc_gblen K fd)))) (\<lambda>_.
          let actual_buffer_len = snd (bioc_gblen K fd) in
          if actual_buffer_len = 0
          then Inl (Custom InvalidData ''macOS BPF returned an empty receive buffer'')
          else Inr \<lparr>cap_fd = fd, buffer_len = unat actual_buffer_len, link_type = lt,
                    cap_remote = remote, queue = []\<rparr>)))))))))"

definition capture_open ::
  "(io_error \<Rightarrow> string) \<Rightarrow> bpf_abi \<Rightarrow> 'p bpf_kernel \<Rightarrow> string \<Rightarrow> socket_addr \<Rightarrow> BpfCapture io" where
  "capture_open show B K interface_name remote =
     io_bind (in_context show ''open /dev/bpf'' (open_bpf_device B K)) (\<lambda>fd.
       in_context show ''configure /dev/bpf''
         (configure_bpf show B K fd interface_name remote))"

section \<open>Reading\<close>

text \<open>
  One answer of \<open>poll\<close>: result, error number, and the returned events. A poll interrupted by a signal
  is repeated; \<open>None\<close> while it has not been answered.
\<close>

type_synonym poll_answer = "sys_result \<times> u16"

fun poll_loop :: "poll_answer list \<Rightarrow> (int \<times> u16) io option" where
  "poll_loop [] = None"
| "poll_loop ((r, revents) # answers) =
     (case sys_check r of
        Inr value \<Rightarrow> Some (Inr (value, revents))
      | Inl e \<Rightarrow> if error_kind e \<noteq> Interrupted then Some (Inl e) else poll_loop answers)"

definition show_hex16 :: "u16 \<Rightarrow> string" where
  "show_hex16 w = show_hex (unat w)"

text \<open>\<open>read_call n\<close> is the result of \<open>read\<close> into a buffer of \<open>n\<close> bytes and the buffer's contents.\<close>

definition read_bpf_records ::
  "bpf_abi \<Rightarrow> poll_answer list \<Rightarrow> (nat \<Rightarrow> sys_result \<times> bytes) \<Rightarrow> nat \<Rightarrow> bytes option io option" where
  "read_bpf_records B answers read_call len =
     (case poll_loop answers of
        None \<Rightarrow> None
      | Some (Inl e) \<Rightarrow> Some (Inl e)
      | Some (Inr (value, revents)) \<Rightarrow>
          if value = 0 then Some (Inr None)
          else if revents AND (POLLERR B OR POLLHUP B OR POLLNVAL B) \<noteq> 0
          then Some (Inl (Custom Other (''macOS BPF poll returned error events: 0x'' @ show_hex16 revents)))
          else if revents AND POLLIN B = 0 then Some (Inr None)
          else
            let (r, records) = read_call len in
            case sys_check r of
              Inl e \<Rightarrow> if error_kind e = WouldBlock then Some (Inr None) else Some (Inl e)
            | Inr count \<Rightarrow>
                if count = 0 then Some (Inl (Custom UnexpectedEof ''macOS BPF device closed''))
                else Some (Inr (Some (take (nat count) records))))"

text \<open>The first queued packet that fits into \<open>output\<close>; longer ones are discarded.\<close>

fun copy_pending_packet :: "bytes \<Rightarrow> bytes list \<Rightarrow> nat option \<times> bytes \<times> bytes list" where
  "copy_pending_packet output [] = (None, output, [])"
| "copy_pending_packet output (packet # pending) =
     (if length packet > length output then copy_pending_packet output pending
      else (Some (length packet), write_at 0 packet output, pending))"

text \<open>
  \<open>rounds\<close> are the results of the blocking reader tasks so far, an error text when a task could not be
  joined; \<open>None\<close> while the caller waits for the next one.
\<close>

fun read_packet ::
  "packet_lib \<Rightarrow> libc_abi \<Rightarrow> (string + bytes option io) list \<Rightarrow> bytes \<Rightarrow> BpfCapture
     \<Rightarrow> (nat io \<times> bytes \<times> BpfCapture) outcome option" where
  "read_packet L C rounds output cap =
     (case copy_pending_packet output (queue cap) of
        (Some n, output, q) \<Rightarrow> Some (Ret (Inr n, output, cap\<lparr>queue := q\<rparr>))
      | (None, output, q) \<Rightarrow>
          let cap = cap\<lparr>queue := q\<rparr> in
          case rounds of
            [] \<Rightarrow> None
          | Inl m # rounds \<Rightarrow>
              Some (Ret (Inl (Custom Other (''macOS BPF reader task failed: '' @ m)), output, cap))
          | Inr (Inl e) # rounds \<Rightarrow> Some (Ret (Inl e, output, cap))
          | Inr (Inr None) # rounds \<Rightarrow> read_packet L C rounds output cap
          | Inr (Inr (Some records)) # rounds \<Rightarrow>
              (case decode_records L C records (link_type cap) (cap_remote cap) of
                 Panic p \<Rightarrow> Some (Panic p)
               | Ret (Inl e) \<Rightarrow> Some (Ret (Inl e, output, cap))
               | Ret (Inr packets) \<Rightarrow>
                   read_packet L C rounds output (cap\<lparr>queue := queue cap @ packets\<rparr>)))"

declare read_packet.simps [simp del]
section \<open>What a read delivers\<close>

lemma copy_pending_dropWhile:
  "copy_pending_packet output ps =
     (case dropWhile (\<lambda>p. length p > length output) ps of
        [] \<Rightarrow> (None, output, [])
      | p # qs \<Rightarrow> (Some (length p), write_at 0 p output, qs))"
  by (induction ps) simp_all

lemma copy_pending_None: "copy_pending_packet output ps = (None, out, q) \<Longrightarrow> out = output \<and> q = []"
  by (auto simp: copy_pending_dropWhile split: list.splits)

lemma copy_pending_Some:
  assumes "copy_pending_packet output ps = (Some n, out, q)"
  obtains p where "p \<in> set ps" "n = length p" "length p \<le> length output" "out = write_at 0 p output"
    "set q \<subseteq> set ps"
proof -
  from assms obtain p where d: "dropWhile (\<lambda>p. length p > length output) ps = p # q"
    "n = length p" "out = write_at 0 p output"
    by (auto simp: copy_pending_dropWhile split: list.splits)
  have "length p \<le> length output" using hd_dropWhile [of "\<lambda>p. length p > length output" ps] d(1) by auto
  moreover have "set (p # q) \<subseteq> set ps" using set_dropWhileD [of _ _ ps] d(1) by (metis subsetI)
  ultimately show ?thesis using that d(2,3) by auto
qed

definition capture_ok :: "packet_lib \<Rightarrow> libc_abi \<Rightarrow> BpfCapture \<Rightarrow> bool" where
  "capture_ok L C cap \<longleftrightarrow> list_all (from_server L C (cap_remote cap)) (queue cap)"

text \<open>What one call of \<open>read_packet\<close> guarantees.\<close>

definition read_result ::
  "packet_lib \<Rightarrow> libc_abi \<Rightarrow> BpfCapture \<Rightarrow> bytes \<Rightarrow> (nat io \<times> bytes \<times> BpfCapture) outcome \<Rightarrow> bool" where
  "read_result L C cap output res \<longleftrightarrow>
     (\<exists>r out cap'. res = Ret (r, out, cap') \<and> cap' = cap\<lparr>queue := queue cap'\<rparr> \<and> capture_ok L C cap'
        \<and> length out = length output
        \<and> (\<forall>n. r = Inr n \<longrightarrow> n \<le> length output \<and> from_server L C (cap_remote cap) (take n out)))"

lemma read_result_queue: "read_result L C (cap\<lparr>queue := q\<rparr>) output res = read_result L C cap output res"
  by (auto simp: read_result_def)

context bpf_decoder
begin

lemma decoded_ok:
  assumes "decode_records L C records lt remote = r"
  shows "\<exists>x. r = Ret x \<and> (\<forall>ps. x = Inr ps \<longrightarrow> list_all (from_server L C remote) ps)"
  using assms decode_loop_safe [of lt remote records 0 "[]"]
  by (auto simp: decode_records_def list_all_iff)

lemma read_pending_ok:
  assumes "copy_pending_packet output (queue cap) = (Some n, out, q)" "capture_ok L C cap"
  shows "read_result L C cap output (Ret (Inr n, out, cap\<lparr>queue := q\<rparr>))"
proof -
  obtain p where p: "p \<in> set (queue cap)" "n = length p" "length p \<le> length output"
    "out = write_at 0 p output" "set q \<subseteq> set (queue cap)"
    by (rule copy_pending_Some [OF assms(1)])
  then have "take n out = p" "length out = length output" by (simp_all add: write_at_def)
  with p assms(2) show ?thesis
    by (auto simp: read_result_def capture_ok_def list_all_iff)
qed

lemma read_packet_ok:
  assumes "read_packet L C rounds output cap = Some res" "capture_ok L C cap"
  shows "read_result L C cap output res"
  using assms
proof (induction rounds arbitrary: cap)
  case Nil
  obtain m out q where c: "copy_pending_packet output (queue cap) = (m, out, q)" by (cases "copy_pending_packet output (queue cap)") auto
  with Nil.prems read_pending_ok [of "output" cap _ out q] show ?case
    by (cases m) (auto simp: read_packet.simps [of _ _ "[]"])
next
  case (Cons a rounds)
  obtain m out q where c: "copy_pending_packet output (queue cap) = (m, out, q)" by (cases "copy_pending_packet output (queue cap)") auto
  show ?case
  proof (cases m)
    case (Some n)
    with Cons.prems c read_pending_ok [of "output" cap n out q] show ?thesis
      by (simp add: read_packet.simps [of _ _ "a # rounds"])
  next
    case None
    with copy_pending_None [of "output" "queue cap" out q] c have q: "out = output" "q = []" by simp_all
    note step = Cons.prems(1) [unfolded read_packet.simps [of _ _ "a # rounds"]]
    have empty: "capture_ok L C (cap\<lparr>queue := []\<rparr>)" by (simp add: capture_ok_def)
    have fail: "read_result L C cap output (Ret (Inl e, output, cap\<lparr>queue := []\<rparr>))" for e
      by (simp add: read_result_def capture_ok_def)
    consider (join) x where "a = Inl x" | (err) e where "a = Inr (Inl e)" | (none) "a = Inr (Inr None)"
      | (some) records where "a = Inr (Inr (Some records))"
      by (metis not_Some_eq sum.exhaust)
    then show ?thesis
    proof cases
      case none
      with step c None q Cons.IH [OF _ empty] show ?thesis by (simp add: read_result_queue)
    next
      case some
      obtain x where x: "decode_records L C records (link_type cap) (cap_remote cap) = Ret x"
        "\<And>ps. x = Inr ps \<Longrightarrow> list_all (from_server L C (cap_remote cap)) ps"
        using decoded_ok [OF refl] by metis
      show ?thesis
      proof (cases x)
        case (Inl e)
        with step c None q some x(1) fail show ?thesis by auto
      next
        case (Inr ps)
        then have "capture_ok L C (cap\<lparr>queue := ps\<rparr>)" using x(2) by (simp add: capture_ok_def)
        from Cons.IH [OF _ this] step c None q some x(1) Inr show ?thesis by (simp add: read_result_queue)
      qed
    qed (use step c None q fail in auto)
  qed
qed

end

lemma read_packet_first:
  assumes "queue cap = []" "list_all (\<lambda>r. r = Inr (Inr None)) waits"
    and "decode_records L C records (link_type cap) (cap_remote cap) = Ret (Inr packets)"
    and "dropWhile (\<lambda>p. length p > length output) packets = p # ps"
  shows "read_packet L C (waits @ Inr (Inr (Some records)) # later) output cap
    = Some (Ret (Inr (length p), write_at 0 p output, cap\<lparr>queue := ps\<rparr>))"
  using assms(1,2)
proof (induction waits)
  case Nil
  have "copy_pending_packet output packets = (Some (length p), write_at 0 p output, ps)"
    using assms(4) by (simp add: copy_pending_dropWhile)
  then have "read_packet L C later output (cap\<lparr>queue := packets\<rparr>)
      = Some (Ret (Inr (length p), write_at 0 p output, cap\<lparr>queue := ps\<rparr>))"
    by (simp add: read_packet.simps [of _ _ later])
  with Nil assms(3) show ?case by (simp add: read_packet.simps [of _ _ "Inr (Inr (Some records)) # later"])
next
  case (Cons w waits)
  let ?rest = "waits @ Inr (Inr (Some records)) # later"
  have same: "cap\<lparr>queue := []\<rparr> = cap" using assms(1) by (cases cap) simp
  have "read_packet L C (Inr (Inr None) # ?rest) output cap = read_packet L C ?rest output (cap\<lparr>queue := []\<rparr>)"
    using assms(1) by (simp add: read_packet.simps [of _ _ "Inr (Inr None) # ?rest"])
  with Cons show ?case unfolding same by simp
qed
section \<open>Opening the first free device\<close>

definition busy :: "bpf_abi \<Rightarrow> 'p bpf_kernel \<Rightarrow> nat \<Rightarrow> bool" where
  "busy B K i \<longleftrightarrow> sys_check (sys_open K (''/dev/bpf'' @ show_nat i)) = Inl (Os (EBUSY B))"

lemma sys_check_Inl: "sys_check r = Inl e \<Longrightarrow> e = Os (snd r)"
  by (auto simp: sys_check_def split: if_splits)

lemma open_bpf_loop_eq:
  "open_bpf_loop B K is last_error =
     (case dropWhile (busy B K) is of
        [] \<Rightarrow> Inl (if is = [] then case last_error of Some e \<Rightarrow> e
                | None \<Rightarrow> Custom NotFound ''no macOS BPF capture device is available'' else Os (EBUSY B))
      | i # _ \<Rightarrow> sys_check (sys_open K (''/dev/bpf'' @ show_nat i)))"
  by (induction "is" arbitrary: last_error)
    (auto simp: busy_def split: sum.splits dest: sys_check_Inl)

section \<open>A kernel that grants every call\<close>

definition darwin_bpf :: bpf_abi where
  "darwin_bpf = \<lparr>EBUSY = 16, IFNAMSIZ = 16, POLLIN = 1, POLLERR = 8, POLLHUP = 16, POLLNVAL = 32\<rparr>"

definition sample_bpf_kernel :: "string bpf_kernel" where
  "sample_bpf_kernel = \<lparr>sys_open = (\<lambda>path. if path = ''/dev/bpf0'' then (- 1, 16) else (5, 0)),
     bioc_sblen = (\<lambda>fd n. (0, 0)), bioc_setif = (\<lambda>fd n. (0, 0)), bioc_immediate = (\<lambda>fd v. (0, 0)),
     bioc_sseesent = (\<lambda>fd v. (0, 0)), bioc_gdlt = (\<lambda>fd. ((0, 0), 1)),
     pcap_compile = (\<lambda>n d e o_flag mask. (0, e)), bioc_setf = (\<lambda>fd p. (0, 0)),
     bioc_gblen = (\<lambda>fd. ((0, 0), 4096))\<rparr>"

definition sample_capture :: BpfCapture where
  "sample_capture = \<lparr>cap_fd = 5, buffer_len = 4096, link_type = Raw,
     cap_remote = V4 (SocketAddrV4 3405803796 65009), queue = []\<rparr>"

section \<open>Properties\<close>

text \<open>
  What the capture hands to the stack. Reading never panics, whatever the kernel returned; it keeps
  the queue filled only with complete TCP packets of the configured server; and a successful read
  stores such a packet in the caller's buffer, whose length it respects.
\<close>

theorem capture_read_sound:
  assumes "bpf_decoder L C" and "capture_ok L C cap" and "read_packet L C rounds output cap = Some res"
  shows "\<exists>r out cap'. res = Ret (r, out, cap') \<and> capture_ok L C cap' \<and> cap_remote cap' = cap_remote cap
    \<and> length out = length output
    \<and> (\<forall>n. r = Inr n \<longrightarrow> n \<le> length output \<and> from_server L C (cap_remote cap) (take n out))"
proof -
  from bpf_decoder.read_packet_ok [OF assms(1,3,2)] obtain r out cap' where
    "res = Ret (r, out, cap')" "cap' = cap\<lparr>queue := queue cap'\<rparr>" "capture_ok L C cap'"
    "length out = length output"
    "\<forall>n. r = Inr n \<longrightarrow> n \<le> length output \<and> from_server L C (cap_remote cap) (take n out)"
    unfolding read_result_def by blast
  moreover from this(2) have "cap_remote cap' = cap_remote cap" by (metis BpfCapture.simps(4) BpfCapture.surjective BpfCapture.update_convs(5))
  ultimately show ?thesis by blast
qed

theorem capture_read_sound_witness:
  "\<exists>r out cap'. read_packet wire_lib darwin_libc [Inr (Inr (Some [1, 2, 3]))] (replicate 1500 0) sample_capture
      = Some (Ret (r, out, cap')) \<and> capture_ok wire_lib darwin_libc cap'"
proof -
  have "capture_ok wire_lib darwin_libc sample_capture" by (simp add: capture_ok_def sample_capture_def)
  moreover have "\<exists>res. read_packet wire_lib darwin_libc [Inr (Inr (Some [1, 2, 3]))] (replicate 1500 0) sample_capture
      = Some res"
    by (simp add: read_packet.simps [of _ _ "[_]"] sample_capture_def decode_records_def mac.header_min
        decode_loop.simps [of _ _ _ _ _ 0])
  ultimately show ?thesis using capture_read_sound [OF bpf_decoder_mac] by blast
qed

text \<open>
  The capture delivers packets in arrival order. After any number of reads that timed out, the
  first buffer of records from which at least one packet is decoded yields its first packet that
  fits the caller's buffer; longer ones in front of it are dropped, later ones stay queued in order.
\<close>

theorem capture_reads_in_order:
  assumes "queue cap = []" and "list_all (\<lambda>r. r = Inr (Inr None)) waits"
    and "decode_records L C records (link_type cap) (cap_remote cap) = Ret (Inr packets)"
    and "dropWhile (\<lambda>p. length p > length output) packets = p # ps"
  shows "read_packet L C (waits @ Inr (Inr (Some records)) # later) output cap
    = Some (Ret (Inr (length p), p @ drop (length p) output, cap\<lparr>queue := ps\<rparr>))"
  using read_packet_first [OF assms] by (simp add: write_at_def)

theorem capture_reads_in_order_witness:
  "\<exists>b records. read_packet wire_lib darwin_libc [Inr (Inr None), Inr (Inr (Some records))] (replicate 1500 0) sample_capture
     = Some (Ret (Inr 44, b @ replicate 1456 0, sample_capture))"
proof -
  obtain b where b: "build_tcp_packet wire_lib (V4 (SocketAddrV4 3405803796 65009)) (V4 (SocketAddrV4 3325256714 40000))
      0 1 18 None = Ret b" "length b = 44" by (rule sample_built)
  have "framed darwin_libc Raw b b" by (simp add: framed_def)
  from server_record_decoded [OF bpf_decoder_mac b(1) _ this] b(2)
  have "decode_records wire_lib darwin_libc (stream [record_of b] None) (link_type sample_capture)
      (cap_remote sample_capture) = Ret (Inr [b])" by (simp add: sample_capture_def)
  from capture_reads_in_order [OF _ _ this, of "[Inr (Inr None)]" "replicate 1500 0" b "[]" "[]"] b(2)
  show ?thesis by (auto simp: sample_capture_def)
qed

text \<open>
  From the server's stack to the client's. A packet that the server's \<open>build_tcp_packet\<close> emits,
  framed by the link and captured in a BPF record, is what the client's device returns from its next
  read, byte for byte, however many reads timed out before.
\<close>

theorem server_packet_read:
  assumes "bpf_decoder L C" and "build_tcp_packet L (cap_remote cap) l sq ak flags payload = Ret b"
    and "unscoped (cap_remote cap)" and "framed C (link_type cap) b frame" and "length frame < 65536"
    and "length b \<le> length output" and "queue cap = []" and "list_all (\<lambda>r. r = Inr (Inr None)) waits"
  shows "read_packet L C (waits @ Inr (Inr (Some (stream [record_of frame] None))) # later) output cap
    = Some (Ret (Inr (length b), b @ drop (length b) output, cap))"
proof -
  have "cap\<lparr>queue := []\<rparr> = cap" using assms(7) by (cases cap) simp
  with read_packet_first [OF assms(7,8) server_record_decoded [OF assms(1-5)], of "output" b "[]" later] assms(6)
  show ?thesis by (auto simp: write_at_def)
qed

theorem server_packet_read_witness:
  "\<exists>b records. read_packet wire_lib darwin_libc [Inr (Inr (Some records))] (replicate 1500 0) sample_capture
     = Some (Ret (Inr 44, b @ replicate 1456 0, sample_capture))"
proof -
  obtain b where b: "build_tcp_packet wire_lib (V4 (SocketAddrV4 3405803796 65009)) (V4 (SocketAddrV4 3325256714 40000))
      0 1 18 None = Ret b" "length b = 44" by (rule sample_built)
  have "framed darwin_libc (link_type sample_capture) b b" by (simp add: framed_def sample_capture_def)
  from server_packet_read [OF bpf_decoder_mac, of sample_capture _ 0 1 18 None b b "replicate 1500 0" "[]" "[]"] b this
  show ?thesis by (auto simp: sample_capture_def)
qed

text \<open>
  The device search. \<open>open_bpf_device\<close> opens the first of the 256 capture devices that is not busy,
  fails with that device's error when it is not \<open>EBUSY\<close>, and with \<open>EBUSY\<close> when all are busy.
\<close>

theorem open_bpf_first_free:
  "open_bpf_device B K =
     (case dropWhile (busy B K) [0..<256] of
        [] \<Rightarrow> Inl (Os (EBUSY B))
      | i # _ \<Rightarrow> sys_check (sys_open K (''/dev/bpf'' @ show_nat i)))"
proof -
  have "[0..<256::nat] \<noteq> []" by (simp add: upt_eq_Nil_conv)
  then show ?thesis unfolding open_bpf_device_def by (subst open_bpf_loop_eq) (simp split: list.splits)
qed

text \<open>
  An opened capture is configured for the server. When \<open>BpfCapture::open\<close> succeeds, every \<open>ioctl\<close>
  succeeded, the installed filter was compiled from the expression that names the server's address
  and port and for the device's link type, the buffer is not empty and nothing is queued.
\<close>

theorem capture_open_configured:
  assumes "capture_open show B K interface_name remote = Inr cap"
  shows "open_bpf_device B K = Inr (cap_fd cap) \<and> length interface_name < IFNAMSIZ B
    \<and> from_dlt (sint (snd (bioc_gdlt K (cap_fd cap)))) = Inr (link_type cap)
    \<and> (\<exists>program. pcap_compile K 65535 (dlt (link_type cap)) (filter_expression remote) 1 0xffffffff = (0, program)
         \<and> fst (bioc_setf K (cap_fd cap) program) \<ge> 0)
    \<and> fst (bioc_setif K (cap_fd cap) interface_name) \<ge> 0 \<and> fst (bioc_immediate K (cap_fd cap) 1) \<ge> 0
    \<and> buffer_len cap > 0 \<and> cap_remote cap = remote \<and> queue cap = [] \<and> capture_ok L C cap"
proof -
  have ok: "in_context show c m = Inr x \<longleftrightarrow> m = Inr x" for c and m :: "'x io" and x
    by (cases m) (simp_all add: in_context_def)
  have sys: "sys_check r = Inr x \<longleftrightarrow> fst r \<ge> 0 \<and> x = fst r" for r x
    by (auto simp: sys_check_def)
  have compiled: "compile_bpf_filter K lt remote = Inr p
      \<longleftrightarrow> pcap_compile K 65535 (dlt lt) (filter_expression remote) 1 0xffffffff = (0, p)" for lt p
    by (cases "pcap_compile K 65535 (dlt lt) (filter_expression remote) 1 0xffffffff")
      (auto simp: compile_bpf_filter_def PCAP_NETMASK_UNKNOWN_def)
  show ?thesis
    using assms
    by (auto simp: capture_open_def configure_bpf_def install_bpf_filter_def compiled
        io_bind_eq_Inr_iff ok sys Let_def capture_ok_def unat_gt_0 split: if_splits)
qed

theorem capture_open_configured_witness:
  "\<exists>cap. capture_open (\<lambda>e. []) darwin_bpf sample_bpf_kernel ''en0'' (V4 (SocketAddrV4 1 2)) = Inr cap
     \<and> cap_fd cap = 5 \<and> link_type cap = Ethernet"
proof -
  have "[0..<256] = 0 # 1 # [2..<256]" by (simp only: upt_conv_Cons) (simp add: upt_conv_Cons)
  then have "open_bpf_device darwin_bpf sample_bpf_kernel = Inr 5"
    by (simp add: open_bpf_device_def sample_bpf_kernel_def darwin_bpf_def sys_check_def show_nat.simps)
  then obtain cap where cap: "capture_open (\<lambda>e. []) darwin_bpf sample_bpf_kernel ''en0'' (V4 (SocketAddrV4 1 2)) = Inr cap"
    by (simp add: capture_open_def configure_bpf_def in_context_def install_bpf_filter_def compile_bpf_filter_def
        sample_bpf_kernel_def darwin_bpf_def sys_check_def from_dlt_def BPF_DLT_NULL_def BPF_DLT_EN10MB_def)
  from capture_open_configured [OF cap, of wire_lib darwin_libc] cap \<open>open_bpf_device _ _ = Inr 5\<close> show ?thesis
    by (auto simp: sample_bpf_kernel_def from_dlt_def BPF_DLT_NULL_def BPF_DLT_EN10MB_def)
qed

end
