(* ===== verification/Text.thy ===== *)
theory Text
  imports Prelude
begin

text \<open>
  The operations of \<open>str\<close> the program uses to read command output and environment values: \<open>lines\<close>,
  \<open>split_once\<close>, \<open>trim\<close>, \<open>contains\<close> and \<open>parse\<close> of signed 32-bit numbers. Texts are ASCII.
\<close>

definition NL :: char where "NL = CHR 0x0A"
definition CR :: char where "CR = CHR 0x0D"

definition strip_cr :: "string \<Rightarrow> string" where
  "strip_cr l = (if l \<noteq> [] \<and> last l = CR then butlast l else l)"

function lines :: "string \<Rightarrow> string list" where
  "lines s =
     (if s = [] then []
      else case dropWhile (\<lambda>c. c \<noteq> NL) s of
        [] \<Rightarrow> [s]
      | _ # rest \<Rightarrow> strip_cr (takeWhile (\<lambda>c. c \<noteq> NL) s) # lines rest)"
  by pat_completeness auto
termination
proof (relation "measure length", goal_cases)
  case (2 s c rest)
  then have "length (c # rest) \<le> length s" by (metis length_dropWhile_le)
  then show ?case by simp
qed simp

declare lines.simps [simp del]

definition is_space :: "char \<Rightarrow> bool" where
  "is_space c \<longleftrightarrow> c \<in> {CHR '' '', CHR 0x09, CHR 0x0A, CHR 0x0B, CHR 0x0C, CHR 0x0D}"

definition trim :: "string \<Rightarrow> string" where
  "trim s = rev (dropWhile is_space (rev (dropWhile is_space s)))"

definition split_once :: "char \<Rightarrow> string \<Rightarrow> (string \<times> string) option" where
  "split_once d s =
     (case dropWhile (\<lambda>c. c \<noteq> d) s of [] \<Rightarrow> None | _ # rest \<Rightarrow> Some (takeWhile (\<lambda>c. c \<noteq> d) s, rest))"

fun contains :: "string \<Rightarrow> string \<Rightarrow> bool" where
  "contains p [] = (p = [])"
| "contains p (c # s) = (take (length p) (c # s) = p \<or> contains p s)"

fun find_map :: "('a \<Rightarrow> 'b option) \<Rightarrow> 'a list \<Rightarrow> 'b option" where
  "find_map f [] = None"
| "find_map f (x # xs) = (case f x of None \<Rightarrow> find_map f xs | Some y \<Rightarrow> Some y)"

text \<open>\<open>parse::<i32>\<close>: an optional sign and at least one digit, within range.\<close>

fun parse_digits :: "string \<Rightarrow> nat \<Rightarrow> nat option" where
  "parse_digits [] n = Some n"
| "parse_digits (c # s) n =
     (if 48 \<le> (of_char c :: nat) \<and> (of_char c :: nat) \<le> 57
      then parse_digits s (n * 10 + (of_char c - 48)) else None)"

definition parse_i32 :: "string \<Rightarrow> int option" where
  "parse_i32 s =
     (let (sign, digits) = (case s of c # r \<Rightarrow> if c = CHR ''-'' then (- 1, r) else if c = CHR ''+'' then (1, r) else (1, s)
                            | [] \<Rightarrow> (1 :: int, s))
      in if digits = [] then None
         else case parse_digits digits 0 of
           None \<Rightarrow> None
         | Some n \<Rightarrow> if - (2 ^ 31) \<le> sign * int n \<and> sign * int n < 2 ^ 31 then Some (sign * int n) else None)"

section \<open>Laws\<close>

lemma trim_trimmed:
  assumes "\<forall>c \<in> set a. is_space c" "\<forall>c \<in> set b. is_space c" "s \<noteq> [] \<Longrightarrow> \<not> is_space (hd s) \<and> \<not> is_space (last s)"
  shows "trim (a @ s @ b) = s"
proof (cases "s = []")
  case True
  with assms(1,2) have "dropWhile is_space (a @ s @ b) = []" by (auto simp only: dropWhile_eq_Nil_conv set_append list.set)
  then show ?thesis using True by (simp only: trim_def) simp
next
  case False
  have "dropWhile is_space (a @ s @ b) = s @ b"
    using assms(1,3) False by (cases s) (simp_all add: dropWhile_append1 dropWhile_append)
  moreover have "dropWhile is_space (rev b @ rev s) = rev s"
    using assms(2,3) False by (cases s rule: rev_cases) (simp_all add: dropWhile_append)
  ultimately show ?thesis by (simp add: trim_def)
qed

lemma split_once_append: "d \<notin> set a \<Longrightarrow> split_once d (a @ d # b) = Some (a, b)"
  by (simp add: split_once_def dropWhile_append takeWhile_append)

lemma lines_step: "NL \<notin> set l \<Longrightarrow> (l = [] \<or> last l \<noteq> CR) \<Longrightarrow> lines (l @ NL # rest) = l # lines rest"
  by (subst lines.simps) (auto simp: dropWhile_append takeWhile_append strip_cr_def)

lemma lines_concat:
  "\<forall>l \<in> set ls. NL \<notin> set l \<and> (l = [] \<or> last l \<noteq> CR) \<Longrightarrow> lines (concat (map (\<lambda>l. l @ [NL]) ls)) = ls"
  by (induction ls) (simp_all add: lines.simps [of "[]"] lines_step)

lemma find_map_skip: "\<forall>x \<in> set xs. f x = None \<Longrightarrow> find_map f (xs @ y # ys) = (case f y of None \<Rightarrow> find_map f ys | Some z \<Rightarrow> Some z)"
  by (induction xs) auto

lemma parse_digits_append: "parse_digits (a @ b) n = (case parse_digits a n of None \<Rightarrow> None | Some m \<Rightarrow> parse_digits b m)"
  by (induction a arbitrary: n) auto

lemma parse_digits_show: "parse_digits (show_nat n) 0 = Some n"
proof (induction n rule: show_nat.induct)
  case (1 n)
  have digit: "parse_digits [char_of (48 + k)] m = Some (m * 10 + k)" if "k < 10" for k m :: nat
    using that by simp
  show ?case
  proof (cases "n < 10")
    case True
    then show ?thesis using digit [of n 0] by (subst show_nat.simps) simp
  next
    case False
    with 1 digit [of "n mod 10" "n div 10"] show ?thesis
      by (subst show_nat.simps) (simp only: parse_digits_append if_False option.case, simp)
  qed
qed

lemma show_nat_digit: "c \<in> set (show_nat n) \<Longrightarrow> 48 \<le> (of_char c :: nat) \<and> (of_char c :: nat) \<le> 57"
  by (induction n rule: show_nat.induct) (subst (asm) (2) show_nat.simps, auto split: if_splits)

lemma show_nat_not_Nil [simp]: "show_nat n \<noteq> []"
  by (subst show_nat.simps) simp

lemma parse_i32_show: "n < 2 ^ 31 \<Longrightarrow> parse_i32 (show_nat n) = Some (int n)"
proof -
  assume n: "n < 2 ^ 31"
  obtain c r where c: "show_nat n = c # r" by (cases "show_nat n") simp_all
  then have "c \<noteq> CHR ''-''" "c \<noteq> CHR ''+''" using show_nat_digit [of c n] by auto
  then show ?thesis using c n parse_digits_show [of n] by (simp add: parse_i32_def)
qed

end
