(* ===== verification/Firewall.thy ===== *)
theory Firewall
  imports Capture Text
begin

text \<open>
  The packet-filter guard of \<open>phantun-client-mac/src/macos_packet.rs\<close>: the temporary rule that keeps
  the server's packets away from the system's TCP stack, its removal, the watchdog process that
  removes it when the client is killed, and the lookup of the outbound interface. Commands and
  processes are the parameter \<open>fw_system\<close>, on an explicit world, and nothing is assumed about what
  they answer or do: the theorems are about the commands that the code runs in answer, which the locale
  \<open>fw_log\<close> lets a world record.
\<close>

section \<open>Environment\<close>

record pf_output =
  out_success :: bool
  out_stdout :: string
  out_stderr :: string

text \<open>
  \<open>pfctl S arguments\<close> runs \<open>/sbin/pfctl\<close> to its end. \<open>spawn_pfctl\<close> starts it with a pipe as its standard input,
  \<open>write_child\<close> writes to the pipe (\<open>None\<close> if the child has none) and \<open>wait_output\<close> waits for its end.
  \<open>spawn_helper\<close> starts the given executable with the given additional
  environment and returns its process; \<open>kill_wait\<close> kills and reaps it.
\<close>

record 'w fw_system =
  pfctl :: "string list \<Rightarrow> 'w \<Rightarrow> pf_output io \<times> 'w"
  spawn_pfctl :: "string list \<Rightarrow> 'w \<Rightarrow> nat io \<times> 'w"
  write_child :: "nat \<Rightarrow> string \<Rightarrow> 'w \<Rightarrow> unit io option \<times> 'w"
  wait_output :: "nat \<Rightarrow> 'w \<Rightarrow> pf_output io \<times> 'w"
  current_exe :: "string io"
  spawn_helper :: "string \<Rightarrow> (string \<times> string) list \<Rightarrow> 'w \<Rightarrow> nat io \<times> 'w"
  kill_wait :: "nat \<Rightarrow> 'w \<Rightarrow> 'w"
  process_id :: nat
  nonce :: nat

definition CLEANUP_MODE_ENV :: string where "CLEANUP_MODE_ENV = ''PHANTUN_CLIENT_MAC_CLEANUP_MODE''"
definition CLEANUP_ANCHOR_ENV :: string where "CLEANUP_ANCHOR_ENV = ''PHANTUN_CLIENT_MAC_CLEANUP_ANCHOR''"
definition CLEANUP_TOKEN_ENV :: string where "CLEANUP_TOKEN_ENV = ''PHANTUN_CLIENT_MAC_CLEANUP_TOKEN''"
definition CLEANUP_PARENT_PID_ENV :: string where
  "CLEANUP_PARENT_PID_ENV = ''PHANTUN_CLIENT_MAC_CLEANUP_PARENT_PID''"

lemmas cleanup_env = CLEANUP_MODE_ENV_def CLEANUP_ANCHOR_ENV_def CLEANUP_TOKEN_ENV_def CLEANUP_PARENT_PID_ENV_def

section \<open>Commands\<close>

definition checked_pfctl_output :: "pf_output \<Rightarrow> pf_output io" where
  "checked_pfctl_output out =
     (if out_success out then Inr out
      else
        let diagnostic = trim (out_stderr out)
        in Inl (Custom PermissionDenied
             (if diagnostic = [] then ''pfctl failed; run the client with administrator privileges''
              else ''pfctl failed: '' @ diagnostic)))"

definition run_pfctl :: "'w fw_system \<Rightarrow> string list \<Rightarrow> 'w \<Rightarrow> pf_output io \<times> 'w" where
  "run_pfctl S arguments w =
     (let (r, w) = pfctl S arguments w in (io_bind r checked_pfctl_output, w))"

text \<open>\<open>name: value\<close> lines.\<close>

definition line_field :: "string \<Rightarrow> string \<Rightarrow> string option" where
  "line_field key line =
     (case split_once CHR '':'' line of
        None \<Rightarrow> None
      | Some (name, value) \<Rightarrow> if trim name = key then Some (trim value) else None)"

definition token_of :: "string \<Rightarrow> string option" where
  "token_of text =
     (case find_map (line_field ''Token'') (lines text) of
        Some token \<Rightarrow> if token = [] then None else Some token
      | None \<Rightarrow> None)"

definition enable_packet_filter :: "'w fw_system \<Rightarrow> 'w \<Rightarrow> string io \<times> 'w" where
  "enable_packet_filter S w =
     (let (r, w) = run_pfctl S [''-E''] w in
      (io_bind r (\<lambda>out.
         case token_of (out_stdout out @ out_stderr out) of
           Some token \<Rightarrow> Inr token
         | None \<Rightarrow> Inl (Custom Other ''pfctl enabled packet filtering but returned no reference token'')), w))"

definition macos_anchor_available :: "string \<Rightarrow> bool" where
  "macos_anchor_available rules =
     list_ex (\<lambda>line. let line = trim line in contains ''anchor'' line \<and> contains ''com.apple/*'' line) (lines rules)"

definition ensure_macos_anchor :: "'w fw_system \<Rightarrow> 'w \<Rightarrow> unit io \<times> 'w" where
  "ensure_macos_anchor S w =
     (let (r, w) = run_pfctl S [''-s'', ''rules''] w in
      (io_bind r (\<lambda>out.
         if macos_anchor_available (out_stdout out) then Inr ()
         else Inl (Custom Unsupported
           ''the active PF ruleset has no macOS com.apple anchor; refusing to start without reliable packet interception'')), w))"

definition packet_filter_rule :: "socket_addr \<Rightarrow> string" where
  "packet_filter_rule remote =
     ''block drop in quick '' @ (if is_ipv4 remote then ''inet'' else ''inet6'') @ '' proto tcp from ''
       @ show_ip (addr_ip remote) @ '' port '' @ show_nat (unat (addr_port remote)) @ '' to any'' @ [NL]"

definition load_packet_filter_rule :: "'w fw_system \<Rightarrow> string \<Rightarrow> socket_addr \<Rightarrow> 'w \<Rightarrow> unit io \<times> 'w" where
  "load_packet_filter_rule S anchor_name remote w =
     (case spawn_pfctl S [''-a'', anchor_name, ''-f'', ''-''] w of
        (Inl e, w) \<Rightarrow> (Inl e, w)
      | (Inr child, w) \<Rightarrow>
          (case write_child S child (packet_filter_rule remote) w of
             (None, w) \<Rightarrow> (Inl (Custom Other ''pfctl stdin is unavailable''), w)
           | (Some (Inl e), w) \<Rightarrow> (Inl e, w)
           | (Some (Inr _), w) \<Rightarrow>
               let (r, w) = wait_output S child w in
               (io_bind (io_bind r checked_pfctl_output) (\<lambda>_. Inr ()), w)))"

definition clear_packet_filter_rule :: "'w fw_system \<Rightarrow> string \<Rightarrow> 'w \<Rightarrow> unit io \<times> 'w" where
  "clear_packet_filter_rule S anchor_name w =
     (let (r, w) = run_pfctl S [''-a'', anchor_name, ''-F'', ''rules''] w in (io_bind r (\<lambda>_. Inr ()), w))"

definition release_packet_filter :: "'w fw_system \<Rightarrow> string \<Rightarrow> 'w \<Rightarrow> unit io \<times> 'w" where
  "release_packet_filter S tok w =
     (let (r, w) = run_pfctl S [''-X'', tok] w in (io_bind r (\<lambda>_. Inr ()), w))"

definition helper_env :: "'w fw_system \<Rightarrow> string \<Rightarrow> string \<Rightarrow> (string \<times> string) list" where
  "helper_env S anchor_name tok =
     [(CLEANUP_MODE_ENV, ''1''), (CLEANUP_ANCHOR_ENV, anchor_name), (CLEANUP_TOKEN_ENV, tok),
      (CLEANUP_PARENT_PID_ENV, show_nat (process_id S))]"

definition spawn_cleanup_helper :: "'w fw_system \<Rightarrow> string \<Rightarrow> string \<Rightarrow> 'w \<Rightarrow> nat io \<times> 'w" where
  "spawn_cleanup_helper S anchor_name tok w =
     (case current_exe S of
        Inl e \<Rightarrow> (Inl e, w)
      | Inr exe \<Rightarrow> spawn_helper S exe (helper_env S anchor_name tok) w)"

section \<open>The guard\<close>

record FirewallGuard =
  anchor :: string
  token :: string
  cleanup_helper :: "nat option"

definition anchor_name_of :: "'w fw_system \<Rightarrow> string" where
  "anchor_name_of S = ''com.apple/phantun-client-'' @ show_nat (process_id S) @ ''-'' @ show_nat (nonce S)"

definition firewall_install :: "'w fw_system \<Rightarrow> socket_addr \<Rightarrow> 'w \<Rightarrow> FirewallGuard io \<times> 'w" where
  "firewall_install S remote w =
     (case enable_packet_filter S w of
        (Inl e, w) \<Rightarrow> (Inl e, w)
      | (Inr tok, w) \<Rightarrow>
          (case ensure_macos_anchor S w of
             (Inl e, w) \<Rightarrow> (Inl e, snd (release_packet_filter S tok w))
           | (Inr _, w) \<Rightarrow>
               let name = anchor_name_of S in
               (case load_packet_filter_rule S name remote w of
                  (Inl e, w) \<Rightarrow> (Inl e, snd (release_packet_filter S tok w))
                | (Inr _, w) \<Rightarrow>
                    (case spawn_cleanup_helper S name tok w of
                       (Inl e, w) \<Rightarrow>
                         (Inl e, snd (release_packet_filter S tok (snd (clear_packet_filter_rule S name w))))
                     | (Inr helper, w) \<Rightarrow>
                         (Inr \<lparr>anchor = name, token = tok, cleanup_helper = Some helper\<rparr>, w)))))"

definition firewall_drop :: "'w fw_system \<Rightarrow> FirewallGuard \<Rightarrow> 'w \<Rightarrow> 'w" where
  "firewall_drop S guard w =
     (let w = (case cleanup_helper guard of None \<Rightarrow> w | Some helper \<Rightarrow> kill_wait S helper w)
      in snd (release_packet_filter S (token guard) (snd (clear_packet_filter_rule S (anchor guard) w))))"

section \<open>The watchdog\<close>

definition EPERM :: nat where "EPERM = 1"

definition process_is_alive :: "sys_result \<Rightarrow> bool" where
  "process_is_alive r \<longleftrightarrow> fst r = 0 \<or> snd r = EPERM"

definition required_cleanup_environment :: "(string \<Rightarrow> string option) \<Rightarrow> string \<Rightarrow> string io" where
  "required_cleanup_environment env name =
     (case env name of
        None \<Rightarrow> Inl (Custom InvalidInput (''missing internal Phantun cleanup value '' @ name))
      | Some v \<Rightarrow> Inr v)"

text \<open>\<open>probes\<close> are the answers of \<open>kill(parent, 0)\<close> so far; \<open>None\<close> while the parent lives.\<close>

fun parent_gone :: "sys_result list \<Rightarrow> bool" where
  "parent_gone [] = False"
| "parent_gone (r # probes) = (if process_is_alive r then parent_gone probes else True)"

definition cleanup_parameters :: "(string \<Rightarrow> string option) \<Rightarrow> (string \<times> string \<times> int) io" where
  "cleanup_parameters env =
     (let invalid = Inl (Custom InvalidInput ''invalid Phantun cleanup parent process identifier'') in
      io_bind (required_cleanup_environment env CLEANUP_ANCHOR_ENV) (\<lambda>anchor_name.
      io_bind (required_cleanup_environment env CLEANUP_TOKEN_ENV) (\<lambda>tok.
      io_bind (required_cleanup_environment env CLEANUP_PARENT_PID_ENV) (\<lambda>pid.
        case parse_i32 pid of
          None \<Rightarrow> invalid
        | Some parent_pid \<Rightarrow> if parent_pid \<le> 0 then invalid else Inr (anchor_name, tok, parent_pid)))))"

definition run_cleanup_helper_if_requested ::
  "'w fw_system \<Rightarrow> (string \<Rightarrow> string option) \<Rightarrow> (int \<Rightarrow> sys_result list) \<Rightarrow> 'w \<Rightarrow> (bool io \<times> 'w) option" where
  "run_cleanup_helper_if_requested S env probes w =
     (if env CLEANUP_MODE_ENV = None then Some (Inr False, w)
      else case cleanup_parameters env of
        Inl e \<Rightarrow> Some (Inl e, w)
      | Inr (anchor_name, tok, parent_pid) \<Rightarrow>
          if parent_gone (probes parent_pid)
          then Some (Inr True, snd (release_packet_filter S tok (snd (clear_packet_filter_rule S anchor_name w))))
          else None)"

section \<open>The outbound interface\<close>

definition parse_route_interface :: "string \<Rightarrow> string option" where
  "parse_route_interface text = find_map (line_field ''interface'') (lines text)"

definition route_interface :: "(string list \<Rightarrow> pf_output io) \<Rightarrow> ip_addr \<Rightarrow> string io" where
  "route_interface route remote_ip =
     io_bind (route [''-n'', ''get'', show_ip remote_ip]) (\<lambda>out.
       if \<not> out_success out
       then Inl (Custom Other (''unable to resolve outbound interface for '' @ show_ip remote_ip @ '': ''
              @ trim (out_stderr out)))
       else case parse_route_interface (out_stdout out) of
         Some name \<Rightarrow> Inr name
       | None \<Rightarrow> Inl (Custom Other (''route lookup did not report an interface for '' @ show_ip remote_ip)))"
section \<open>Fields of line-oriented output\<close>

text \<open>A printed line: no line break inside and no carriage return at its end.\<close>

definition plain_line :: "string \<Rightarrow> bool" where
  "plain_line l \<longleftrightarrow> NL \<notin> set l \<and> (l = [] \<or> last l \<noteq> CR)"

definition printed :: "string list \<Rightarrow> string" where
  "printed ls = concat (map (\<lambda>l. l @ [NL]) ls)"

text \<open>A word: not empty, no white space and no colon.\<close>

definition word_text :: "string \<Rightarrow> bool" where
  "word_text s \<longleftrightarrow> s \<noteq> [] \<and> (\<forall>c \<in> set s. \<not> is_space c \<and> c \<noteq> CHR '':'')"

lemma colon_no_space: "\<not> is_space CHR '':''"
  by (simp add: is_space_def)

lemma spaces_no_colon: "\<forall>c \<in> set a. is_space c \<Longrightarrow> CHR '':'' \<notin> set a"
  using colon_no_space by blast

lemma trim_word: "word_text s \<Longrightarrow> \<forall>c \<in> set a. is_space c \<Longrightarrow> \<forall>c \<in> set b. is_space c \<Longrightarrow> trim (a @ s @ b) = s"
  by (rule trim_trimmed) (auto simp: word_text_def)

lemma line_field_word:
  assumes "word_text key" "word_text v" "\<forall>c \<in> set (a @ b @ c @ d). is_space c"
  shows "line_field key (a @ key @ b @ '':'' @ c @ v @ d) = Some v"
proof -
  have "CHR '':'' \<notin> set (a @ key @ b)"
    using assms spaces_no_colon [of a] spaces_no_colon [of b] by (auto simp: word_text_def)
  from split_once_append [OF this, of "c @ v @ d"] trim_word [OF assms(1), of a b] trim_word [OF assms(2), of c d] assms(3)
  show ?thesis by (simp add: line_field_def)
qed

lemma find_field_printed:
  assumes "\<forall>l \<in> set (pre @ line # post). plain_line l" "\<forall>l \<in> set pre. line_field key l = None"
    and "line_field key line = Some v"
  shows "find_map (line_field key) (lines (printed (pre @ line # post))) = Some v"
proof -
  have "lines (printed (pre @ line # post)) = pre @ line # post"
    using assms(1) unfolding printed_def plain_line_def by (rule lines_concat)
  with find_map_skip [OF assms(2), of line post] assms(3) show ?thesis by simp
qed

section \<open>What the code has asked for\<close>

text \<open>The calls of the system, with their answers.\<close>

datatype fw_call =
    Ran "string list" "pf_output io"
  | Spawned "string list" "nat io"
  | Wrote nat string "unit io option"
  | Waited nat "pf_output io"
  | Helper string "(string \<times> string) list" "nat io"
  | Killed nat

text \<open>
  The account of a sequence of calls: the references whose token \<open>pfctl -E\<close> printed and whose release was not
  requested, the children that are loading a rule, and the rules whose load \<open>pfctl\<close> reported as
  successful and whose removal was not requested.
\<close>

record pf_view =
  held :: "string set"
  loading :: "nat \<rightharpoonup> string \<times> string"
  placed :: "string \<rightharpoonup> string"

fun succeeded :: "pf_output io \<Rightarrow> bool" where
  "succeeded (Inr out) = out_success out"
| "succeeded (Inl e) = False"

definition printed_token :: "pf_output io \<Rightarrow> string option" where
  "printed_token r = (case r of Inr out \<Rightarrow> if out_success out then token_of (out_stdout out @ out_stderr out) else None | Inl e \<Rightarrow> None)"

fun note_call :: "fw_call \<Rightarrow> pf_view \<Rightarrow> pf_view" where
  "note_call (Ran args r) v =
     (if args = [''-E'']
      then (case printed_token r of None \<Rightarrow> v | Some tok \<Rightarrow> v\<lparr>held := insert tok (held v)\<rparr>)
      else case args of
        [x, tok] \<Rightarrow> if x = ''-X'' then v\<lparr>held := held v - {tok}\<rparr> else v
      | [x, a, f, d] \<Rightarrow> if x = ''-a'' \<and> f = ''-F'' \<and> d = ''rules'' then v\<lparr>placed := (placed v)(a := None)\<rparr> else v
      | _ \<Rightarrow> v)"
| "note_call (Spawned args r) v =
     (case args of
        [x, a, f, d] \<Rightarrow>
          (case r of
             Inr child \<Rightarrow> if x = ''-a'' \<and> f = ''-f'' \<and> d = ''-'' then v\<lparr>loading := (loading v)(child \<mapsto> (a, []))\<rparr> else v
           | Inl e \<Rightarrow> v)
      | _ \<Rightarrow> v)"
| "note_call (Wrote child txt r) v =
     (case loading v child of
        None \<Rightarrow> v
      | Some (a, _) \<Rightarrow> (case r of Some (Inr _) \<Rightarrow> v\<lparr>loading := (loading v)(child \<mapsto> (a, txt))\<rparr> | _ \<Rightarrow> v))"
| "note_call (Waited child r) v =
     (case loading v child of
        None \<Rightarrow> v
      | Some (a, txt) \<Rightarrow> if succeeded r then v\<lparr>placed := (placed v)(a \<mapsto> txt)\<rparr> else v)"
| "note_call (Helper exe env r) v = v"
| "note_call (Killed h) v = v"

definition account :: "fw_call list \<Rightarrow> pf_view" where
  "account calls = fold note_call calls \<lparr>held = {}, loading = Map.empty, placed = Map.empty\<rparr>"

lemma account_append: "account (cs @ ds) = fold note_call ds (account cs)"
  by (simp add: account_def)

lemma account_snoc: "account (cs @ [c]) = note_call c (account cs)"
  by (simp add: account_def)

text \<open>Nothing is left that the calls have put in place and not asked to remove; and exactly one rule with its reference is.\<close>

definition settled :: "fw_call list \<Rightarrow> bool" where
  "settled calls \<longleftrightarrow> held (account calls) = {} \<and> placed (account calls) = Map.empty"

definition blocking :: "FirewallGuard \<Rightarrow> socket_addr \<Rightarrow> fw_call list \<Rightarrow> bool" where
  "blocking guard remote calls \<longleftrightarrow>
     held (account calls) = {token guard} \<and> placed (account calls) = [anchor guard \<mapsto> packet_filter_rule remote]"

lemmas account_simps = settled_def blocking_def account_append account_snoc

text \<open>What the guard asks for to undo an installation, whatever the answers.\<close>

definition undo_calls :: "string \<Rightarrow> string \<Rightarrow> pf_output io \<Rightarrow> pf_output io \<Rightarrow> fw_call list" where
  "undo_calls a tok r r' = [Ran [''-a'', a, ''-F'', ''rules''] r, Ran [''-X'', tok] r']"

text \<open>
  A world that records the calls made on it. Every system can be made to record them (\<open>logged\<close> below), so the
  law is not about \<open>pfctl\<close>: what the calls answer and do is arbitrary.
\<close>

locale fw_log =
  fixes S :: "'w fw_system"
    and log :: "'w \<Rightarrow> fw_call list"
  assumes log_pfctl: "pfctl S args w = (r, w') \<Longrightarrow> log w' = log w @ [Ran args r]"
    and log_spawn: "spawn_pfctl S args w = (c, w') \<Longrightarrow> log w' = log w @ [Spawned args c]"
    and log_write: "write_child S child txt w = (u, w') \<Longrightarrow> log w' = log w @ [Wrote child txt u]"
    and log_wait: "wait_output S child w = (r, w') \<Longrightarrow> log w' = log w @ [Waited child r]"
    and log_helper: "spawn_helper S exe env w = (c, w') \<Longrightarrow> log w' = log w @ [Helper exe env c]"
    and log_kill: "log (kill_wait S h w) = log w @ [Killed h]"
begin

lemma run_pfctl_log:
  assumes "run_pfctl S args w = (r, w')"
  shows "\<exists>out. log w' = log w @ [Ran args out] \<and> r = io_bind out checked_pfctl_output"
  using assms log_pfctl by (auto simp: run_pfctl_def split: prod.splits)

lemma enabled:
  assumes "enable_packet_filter S w = (r, w')"
  shows "\<exists>out. log w' = log w @ [Ran [''-E''] out]
    \<and> (case r of Inl e \<Rightarrow> printed_token out = None | Inr tok \<Rightarrow> printed_token out = Some tok)"
proof -
  obtain r0 where "run_pfctl S [''-E''] w = (r0, w')"
    and r: "r = io_bind r0 (\<lambda>out. case token_of (out_stdout out @ out_stderr out) of Some tk \<Rightarrow> Inr tk
      | None \<Rightarrow> Inl (Custom Other ''pfctl enabled packet filtering but returned no reference token''))"
    using assms by (auto simp: enable_packet_filter_def split: prod.splits)
  then obtain out where out: "log w' = log w @ [Ran [''-E''] out]" "r0 = io_bind out checked_pfctl_output"
    using run_pfctl_log by blast
  have "case r of Inl e \<Rightarrow> printed_token out = None | Inr tok \<Rightarrow> printed_token out = Some tok"
    using r out(2)
    by (cases out) (auto simp: printed_token_def checked_pfctl_output_def Let_def split: option.splits)
  with out(1) show ?thesis by blast
qed

lemma ensured: "ensure_macos_anchor S w = (r, w') \<Longrightarrow> \<exists>out. log w' = log w @ [Ran [''-s'', ''rules''] out]"
  using run_pfctl_log [of "[''-s'', ''rules'']" w] by (auto simp: ensure_macos_anchor_def split: prod.splits)

lemma cleared: "\<exists>out. log (snd (clear_packet_filter_rule S a w)) = log w @ [Ran [''-a'', a, ''-F'', ''rules''] out]"
  using run_pfctl_log [of "[''-a'', a, ''-F'', ''rules'']" w] by (auto simp: clear_packet_filter_rule_def split: prod.splits)

lemma released: "\<exists>out. log (snd (release_packet_filter S tok w)) = log w @ [Ran [''-X'', tok] out]"
  using run_pfctl_log [of "[''-X'', tok]" w] by (auto simp: release_packet_filter_def split: prod.splits)

lemma undone:
  "\<exists>out out'. log (snd (release_packet_filter S tok (snd (clear_packet_filter_rule S a w)))) = log w @ undo_calls a tok out out'"
proof -
  obtain out where "log (snd (clear_packet_filter_rule S a w)) = log w @ [Ran [''-a'', a, ''-F'', ''rules''] out]"
    using cleared by blast
  moreover obtain out' where "log (snd (release_packet_filter S tok (snd (clear_packet_filter_rule S a w))))
      = log (snd (clear_packet_filter_rule S a w)) @ [Ran [''-X'', tok] out']"
    using released by blast
  ultimately show ?thesis by (auto simp: undo_calls_def)
qed

text \<open>The calls of a load keep the account of the rest, and a load that succeeds is in the account.\<close>

lemma loaded:
  assumes "load_packet_filter_rule S a remote w = (r, w')"
  shows "\<exists>calls. log w' = log w @ calls \<and> (\<forall>v. held (fold note_call calls v) = held v
    \<and> placed (fold note_call calls v) = (if is_ok r then (placed v)(a \<mapsto> packet_filter_rule remote) else placed v))"
proof -
  obtain c w1 where spawn: "spawn_pfctl S [''-a'', a, ''-f'', ''-''] w = (c, w1)" by fastforce
  note l1 = log_spawn [OF spawn]
  show ?thesis
  proof (cases c)
    case (Inl e)
    with assms spawn l1 show ?thesis
      by (auto simp: load_packet_filter_rule_def intro!: exI [of _ "[Spawned [''-a'', a, ''-f'', ''-''] c]"])
  next
    case (Inr child)
    obtain u w2 where wrote: "write_child S child (packet_filter_rule remote) w1 = (u, w2)" by fastforce
    note l2 = log_write [OF wrote]
    obtain out w3 where waited: "wait_output S child w2 = (out, w3)" by fastforce
    note l3 = log_wait [OF waited]
    note start = assms [unfolded load_packet_filter_rule_def spawn Inr prod.case sum.case wrote]
    let ?calls = "[Spawned [''-a'', a, ''-f'', ''-''] c, Wrote child (packet_filter_rule remote) u]"
    show ?thesis
    proof (cases "u = Some (Inr ())")
      case True
      then have r: "r = io_bind (io_bind out checked_pfctl_output) (\<lambda>_. Inr ())" and w: "w' = w3" using start waited by simp_all
      have "is_ok r = succeeded out" unfolding r by (cases out) (simp_all add: checked_pfctl_output_def Let_def)
      with w l1 l2 l3 Inr True show ?thesis by (intro exI [of _ "?calls @ [Waited child out]"]) simp
    next
      case False
      then have "\<not> is_ok r" and w: "w' = w2" using start by (auto split: option.splits sum.splits)
      moreover have "fold note_call ?calls v = v\<lparr>loading := (loading v)(child \<mapsto> (a, []))\<rparr>" for v
        using Inr False by (auto split: option.splits sum.splits)
      ultimately show ?thesis using l1 l2 by (intro exI [of _ ?calls]) (simp del: fold_simps)
    qed
  qed
qed

lemma spawned:
  assumes "spawn_cleanup_helper S a tok w = (r, w')"
  shows "(\<exists>e. r = Inl e) \<and> w' = w \<or> (\<exists>exe. log w' = log w @ [Helper exe (helper_env S a tok) r])"
  using assms log_helper by (cases "current_exe S") (auto simp: spawn_cleanup_helper_def)

lemma dropped_guard:
  "\<exists>r r'. log (firewall_drop S g w)
     = log w @ (case cleanup_helper g of None \<Rightarrow> [] | Some h \<Rightarrow> [Killed h]) @ undo_calls (anchor g) (token g) r r'"
proof (cases "cleanup_helper g")
  case None
  with undone [of "token g" "anchor g" w] show ?thesis by (auto simp: firewall_drop_def Let_def)
next
  case (Some h)
  with undone [of "token g" "anchor g" "kill_wait S h w"] log_kill [of h w] show ?thesis
    by (auto simp: firewall_drop_def Let_def)
qed

lemma dropped_settles:
  assumes "log w = l @ calls" and "blocking g remote calls"
  shows "\<exists>calls'. log (firewall_drop S g w) = l @ calls' \<and> settled calls'"
proof -
  let ?kills = "case cleanup_helper g of None \<Rightarrow> [] | Some h \<Rightarrow> [Killed h]"
  obtain r r' where "log (firewall_drop S g w) = log w @ ?kills @ undo_calls (anchor g) (token g) r r'"
    using dropped_guard by blast
  with assms show ?thesis
    by (intro exI [of _ "calls @ ?kills @ undo_calls (anchor g) (token g) r r'"])
      (simp add: account_simps undo_calls_def split: option.split)
qed

lemma installed:
  assumes "firewall_install S remote w = (r, w')"
  shows "\<exists>calls. log w' = log w @ calls \<and>
    (case r of
       Inl e \<Rightarrow> settled calls
     | Inr g \<Rightarrow> blocking g remote calls \<and> anchor g = anchor_name_of S
         \<and> (\<exists>exe h. cleanup_helper g = Some h \<and> last calls = Helper exe (helper_env S (anchor g) (token g)) (Inr h)))"
proof -
  let ?a = "anchor_name_of S"
  obtain r1 w1 where enable: "enable_packet_filter S w = (r1, w1)" by fastforce
  obtain o1 where o1: "log w1 = log w @ [Ran [''-E''] o1]"
    "case r1 of Inl e \<Rightarrow> printed_token o1 = None | Inr tok \<Rightarrow> printed_token o1 = Some tok" using enabled [OF enable] by blast
  note start = assms [unfolded firewall_install_def enable prod.case]
  show ?thesis
  proof (cases r1)
    case (Inl e)
    with start have "r = Inl e" "w' = w1" by simp_all
    with o1 Inl show ?thesis by (intro exI [of _ "[Ran [''-E''] o1]"]) (simp add: settled_def account_def)
  next
    case (Inr tok)
    obtain r2 w2 where ensure: "ensure_macos_anchor S w1 = (r2, w2)" by fastforce
    obtain o2 where o2: "log w2 = log w1 @ [Ran [''-s'', ''rules''] o2]" using ensured [OF ensure] by blast
    define c2 where "c2 = [Ran [''-E''] o1, Ran [''-s'', ''rules''] o2]"
    have v2: "log w2 = log w @ c2" "held (account c2) = {tok}" "placed (account c2) = Map.empty"
      using o1 o2 Inr by (simp_all add: account_def c2_def)
    obtain r3 w3 where load: "load_packet_filter_rule S ?a remote w2 = (r3, w3)" by fastforce
    obtain c3 where c3: "log w3 = log w @ c3" "held (account c3) = {tok}"
      "placed (account c3) = (if is_ok r3 then [?a \<mapsto> packet_filter_rule remote] else Map.empty)"
      using loaded [OF load] v2 by (metis account_append append_assoc)
    obtain r4 w4 where helper: "spawn_cleanup_helper S ?a tok w3 = (r4, w4)" by fastforce
    note rest = start [unfolded Inr sum.case ensure prod.case Let_def load helper]
    consider (unanchored) e where "r2 = Inl e" | (unloaded) e where "r2 = Inr ()" "r3 = Inl e"
      | (unwatched) e where "r2 = Inr ()" "r3 = Inr ()" "r4 = Inl e" | (complete) h where "r2 = Inr ()" "r3 = Inr ()" "r4 = Inr h"
      by (metis (full_types) old.unit.exhaust sum.exhaust)
    then show ?thesis
    proof cases
      case unanchored
      then have r: "r = Inl e" and w: "w' = snd (release_packet_filter S tok w2)" using rest by simp_all
      obtain out where "log w' = log w2 @ [Ran [''-X'', tok] out]" using released w by blast
      with r v2 show ?thesis by (intro exI [of _ "c2 @ [Ran [''-X'', tok] out]"]) (simp add: account_simps)
    next
      case unloaded
      then have r: "r = Inl e" and w: "w' = snd (release_packet_filter S tok w3)" using rest by simp_all
      obtain out where "log w' = log w3 @ [Ran [''-X'', tok] out]" using released w by blast
      with r c3 unloaded show ?thesis by (intro exI [of _ "c3 @ [Ran [''-X'', tok] out]"]) (simp add: account_simps)
    next
      case unwatched
      then have r: "r = Inl e"
        and w: "w' = snd (release_packet_filter S tok (snd (clear_packet_filter_rule S ?a w4)))" using rest by simp_all
      obtain hs where hs: "log w4 = log w3 @ hs" "\<And>v. fold note_call hs v = v"
        using spawned [OF helper] by (metis append_Nil2 fold_simps note_call.simps(5) id_apply)
      obtain out out' where "log w' = log w4 @ undo_calls ?a tok out out'" using undone w by blast
      with r c3 hs unwatched show ?thesis
        by (intro exI [of _ "c3 @ hs @ undo_calls ?a tok out out'"]) (simp add: account_simps undo_calls_def)
    next
      case complete
      then obtain exe where "log w4 = log w3 @ [Helper exe (helper_env S ?a tok) (Inr h)]"
        using spawned [OF helper] by auto
      moreover have "r = Inr \<lparr>anchor = ?a, token = tok, cleanup_helper = Some h\<rparr>" "w' = w4" using rest complete by simp_all
      ultimately show ?thesis using c3 complete
        by (intro exI [of _ "c3 @ [Helper exe (helper_env S ?a tok) (Inr h)]"]) (simp add: account_simps)
    qed
  qed
qed

end

text \<open>Any system records its calls when they are paired with its world.\<close>

definition logged :: "'w fw_system \<Rightarrow> ('w \<times> fw_call list) fw_system" where
  "logged S =
     \<lparr>pfctl = \<lambda>args (w, l). let (r, w) = pfctl S args w in (r, w, l @ [Ran args r]),
      spawn_pfctl = \<lambda>args (w, l). let (r, w) = spawn_pfctl S args w in (r, w, l @ [Spawned args r]),
      write_child = \<lambda>child txt (w, l). let (r, w) = write_child S child txt w in (r, w, l @ [Wrote child txt r]),
      wait_output = \<lambda>child (w, l). let (r, w) = wait_output S child w in (r, w, l @ [Waited child r]),
      current_exe = current_exe S,
      spawn_helper = \<lambda>exe env (w, l). let (r, w) = spawn_helper S exe env w in (r, w, l @ [Helper exe env r]),
      kill_wait = \<lambda>h (w, l). (kill_wait S h w, l @ [Killed h]),
      process_id = process_id S, nonce = nonce S\<rparr>"

interpretation logged: fw_log "logged S" snd for S :: "'w fw_system"
  by unfold_locales (auto simp: logged_def split: prod.splits)

text \<open>
  A system that accepts every command, and the system that refuses the load of a rule.
\<close>

definition sim_base :: "unit io option \<Rightarrow> unit fw_system" where
  "sim_base written =
     \<lparr>pfctl = \<lambda>args _.
        (Inr \<lparr>out_success = True,
              out_stdout = (if args = [''-s'', ''rules''] then ''anchor com.apple/* all'' else []),
              out_stderr = (if args = [''-E''] then ''Token : 7'' else [])\<rparr>, ()),
      spawn_pfctl = \<lambda>_ _. (Inr 3, ()),
      write_child = \<lambda>_ _ _. (written, ()),
      wait_output = \<lambda>_ _. (Inr \<lparr>out_success = True, out_stdout = [], out_stderr = []\<rparr>, ()),
      current_exe = Inr ''client'',
      spawn_helper = \<lambda>_ _ _. (Inr 9, ()),
      kill_wait = \<lambda>_ _. (),
      process_id = 42, nonce = 5\<rparr>"

definition sim_system :: "(unit \<times> fw_call list) fw_system" where
  "sim_system = logged (sim_base (Some (Inr ())))"

lemma sim_log: "fw_log sim_system snd"
  unfolding sim_system_def by (rule logged.fw_log_axioms)

lemma sim_token: "token_of ''Token : 7'' = Some ''7''"
  by code_simp

lemma sim_anchor: "macos_anchor_available ''anchor com.apple/* all''"
  by code_simp

lemmas sim_simps = firewall_install_def enable_packet_filter_def ensure_macos_anchor_def load_packet_filter_rule_def
  spawn_cleanup_helper_def clear_packet_filter_rule_def release_packet_filter_def run_pfctl_def checked_pfctl_output_def
  logged_def sim_base_def sim_token sim_anchor

lemma sim_installs:
  "\<exists>guard w'. firewall_install sim_system remote ((), []) = (Inr guard, w') \<and> token guard = ''7''
     \<and> anchor guard = anchor_name_of sim_system \<and> cleanup_helper guard = Some 9"
  by (simp add: sim_system_def sim_simps Let_def)

section \<open>Properties\<close>

text \<open>
  C28: The installation of the packet-filter rule is a transaction in what it asks of the system, whatever
  \<open>pfctl\<close> and the process calls answer. When \<open>FirewallGuard::install\<close> fails, every reference whose token \<open>pfctl -E\<close> printed
  has been given back by a request \<open>pfctl -X\<close>, and every rule that \<open>pfctl\<close> reported as loaded
  has been the subject of a later \<open>pfctl -F rules\<close>. When it succeeds, exactly the reference of the guard is held, exactly
  the rule that blocks the server is in place under the guard's anchor, and the last call started the watchdog with
  this anchor and token. Whether a requested removal succeeds is the system's answer, and a load that failed after
  the child was started counts as not loaded.
\<close>

theorem firewall_install_transaction:
  assumes "fw_log S log" and "firewall_install S remote w = (r, w')"
  shows "\<exists>calls. log w' = log w @ calls \<and>
    (case r of
       Inl e \<Rightarrow> settled calls
     | Inr guard \<Rightarrow> blocking guard remote calls \<and> anchor guard = anchor_name_of S
         \<and> (\<exists>exe h. cleanup_helper guard = Some h
              \<and> last calls = Helper exe (helper_env S (anchor guard) (token guard)) (Inr h)))"
  using fw_log.installed [OF assms] .

theorem firewall_install_transaction_witness:
  "\<exists>guard w' exe. firewall_install sim_system (V4 (SocketAddrV4 0x01020304 4567)) ((), []) = (Inr guard, w')
     \<and> blocking guard (V4 (SocketAddrV4 0x01020304 4567)) (snd w')
     \<and> last (snd w') = Helper exe (helper_env sim_system (anchor guard) (token guard)) (Inr 9)"
proof -
  obtain guard w' where *: "firewall_install sim_system (V4 (SocketAddrV4 0x01020304 4567)) ((), []) = (Inr guard, w')"
    "cleanup_helper guard = Some 9" using sim_installs by blast
  from firewall_install_transaction [OF sim_log *(1)] * show ?thesis by auto
qed

text \<open>
  Dropping the guard asks for the removal of everything that its installation has put in place,
  whatever the calls answer.
\<close>

theorem firewall_drop_restores:
  assumes "fw_log S log" and "firewall_install S remote w = (Inr guard, w')"
  shows "\<exists>calls. log (firewall_drop S guard w') = log w @ calls \<and> settled calls"
  using fw_log.installed [OF assms] fw_log.dropped_settles [OF assms(1)] by auto



text \<open>
  A load that fails after the child was started is not followed by a request to remove the rule: only the reference is given back.
\<close>

lemma failed_load_not_cleared:
  "\<exists>w'. firewall_install (logged (sim_base (Some (Inl e0)))) remote ((), []) = (Inl e0, w')
    \<and> list_all (\<lambda>c. case c of Ran args r \<Rightarrow> ''-F'' \<notin> set args | _ \<Rightarrow> True) (snd w')
    \<and> (\<exists>args child. Spawned args (Inr child) \<in> set (snd w'))"
  by (simp add: sim_simps Let_def)

text \<open>
  The outbound interface. From output of \<open>route\<close> with an \<open>interface\<close> line, with any white space
  around the name, \<open>parse_route_interface\<close> returns the name on the first such line.
\<close>

theorem route_interface_found:
  assumes "list_all plain_line (pre @ (a @ ''interface'' @ b @ '':'' @ c @ name @ d) # post)"
    and "list_all (\<lambda>l. line_field ''interface'' l = None) pre" and "word_text name"
    and "list_all is_space (a @ b @ c @ d)"
  shows "parse_route_interface (printed (pre @ (a @ ''interface'' @ b @ '':'' @ c @ name @ d) # post)) = Some name"
proof -
  have "word_text ''interface''" by (simp add: word_text_def is_space_def)
  from line_field_word [OF this assms(3)] assms(4)
  have "line_field ''interface'' (a @ ''interface'' @ b @ '':'' @ c @ name @ d) = Some name"
    by (simp only: list_all_iff)
  with find_field_printed [of pre _ post "''interface''" name] assms(1,2) show ?thesis
    unfolding parse_route_interface_def list_all_iff by blast
qed

theorem route_interface_found_witness:
  "parse_route_interface (printed [''destination: 1.2.3.4'', ''  interface: en0'', ''recvpipe'']) = Some ''en0''"
proof -
  have "list_all plain_line ([''destination: 1.2.3.4''] @ (''  '' @ ''interface'' @ [] @ '':'' @ '' '' @ ''en0'' @ []) # [''recvpipe''])"
    by (simp add: plain_line_def NL_def CR_def)
  moreover have "list_all (\<lambda>l. line_field ''interface'' l = None) [''destination: 1.2.3.4'']"
    by (simp add: line_field_def split_once_def trim_def is_space_def)
  ultimately show ?thesis
    using route_interface_found [of "[''destination: 1.2.3.4'']" "''  ''" "[]" "'' ''" "''en0''" "[]" "[''recvpipe'']"]
    by (simp add: word_text_def is_space_def)
qed

end
