(* ===== verification/Socket.thy ===== *)
theory Socket
  imports Packet_Layout
begin

text \<open>
  \<open>Socket\<close> of \<open>fake-tcp/src/lib.rs\<close>: one fake TCP connection. Each method is a function on the
  socket record that also returns the packets it hands to the device. The device's answers and the
  packets that arrive are arguments, so that every theorem quantifies over all of them.
\<close>

section \<open>Constants and state\<close>

definition RETRIES :: nat where "RETRIES = 6"
definition MPMC_BUFFER_LEN :: nat where "MPMC_BUFFER_LEN = 512"
definition MPSC_BUFFER_LEN :: nat where "MPSC_BUFFER_LEN = 128"
definition MAX_UNACKED_LEN :: u32 where "MAX_UNACKED_LEN = 128 * 1024 * 1024"

datatype AddrTuple = AddrTuple (tuple_local: socket_addr) (tuple_remote: socket_addr)

datatype State = Idle | SynSent | SynReceived | Established

text \<open>\<open>incoming\<close> and \<open>tun\<close> are handles: the channel and the device the socket uses.\<close>

record Socket =
  tun :: nat
  incoming :: nat
  local_addr :: socket_addr
  remote_addr :: socket_addr
  seq :: u32
  ack :: u32
  last_ack :: u32
  state :: State

definition socket_new ::
  "nat \<Rightarrow> nat \<Rightarrow> socket_addr \<Rightarrow> socket_addr \<Rightarrow> u32 option \<Rightarrow> State \<Rightarrow> Socket" where
  "socket_new tun_id chan_id local remote ack_opt st =
     \<lparr>tun = tun_id, incoming = chan_id, local_addr = local, remote_addr = remote, seq = 0,
      ack = (case ack_opt of None \<Rightarrow> 0 | Some a \<Rightarrow> a),
      last_ack = (case ack_opt of None \<Rightarrow> 0 | Some a \<Rightarrow> a), state = st\<rparr>"

definition socket_tuple :: "Socket \<Rightarrow> AddrTuple" where
  "socket_tuple s = AddrTuple (local_addr s) (remote_addr s)"

section \<open>Sending and receiving datagrams\<close>

definition socket_build ::
  "packet_lib \<Rightarrow> Socket \<Rightarrow> u8 \<Rightarrow> bytes option \<Rightarrow> (bytes \<times> Socket) outcome" where
  "socket_build L s flags payload =
     (let a = ack s; s' = s\<lparr>last_ack := a\<rparr> in
      obind (build_tcp_packet L (local_addr s') (remote_addr s') (seq s') a flags payload)
        (\<lambda>b. Ret (b, s')))"

text \<open>Result: the return value, the socket, the packet handed to \<open>tun.send\<close>.\<close>

definition socket_send ::
  "packet_lib \<Rightarrow> nat io \<Rightarrow> bytes \<Rightarrow> Socket \<Rightarrow> (unit option \<times> Socket \<times> bytes) outcome" where
  "socket_send L tun_result payload s =
     (case state s of
        Established \<Rightarrow>
          obind (socket_build L s (ACK L) (Some payload)) (\<lambda>(buf, s).
            let s = s\<lparr>seq := seq s + word_of_nat (length payload)\<rparr>
            in Ret (case tun_result of Inr _ \<Rightarrow> Some () | Inl _ \<Rightarrow> None, s, buf))
      | _ \<Rightarrow> Panic Unreachable_code)"

text \<open>\<open>parse_ip_packet(&buf).unwrap()\<close>\<close>

definition parse_unwrap :: "packet_lib \<Rightarrow> bytes \<Rightarrow> (IPPacket \<times> bytes) outcome" where
  "parse_unwrap L buf = obind (parse_ip_packet L buf)
     (\<lambda>r. case r of None \<Rightarrow> Panic Unwrap_failed | Some x \<Rightarrow> Ret x)"

text \<open>
  \<open>raw\<close> is what \<open>incoming.recv_async()\<close> yields (\<open>None\<close>: the channel is disconnected). Result: the
  return value, the socket, the caller's buffer, and the packets handed to \<open>tun.try_send\<close>.
\<close>

definition socket_recv ::
  "packet_lib \<Rightarrow> bytes option \<Rightarrow> bytes \<Rightarrow> Socket
     \<Rightarrow> (nat option \<times> Socket \<times> bytes \<times> bytes list) outcome" where
  "socket_recv L raw buf s =
     (case state s of
        Established \<Rightarrow>
          (case raw of
             None \<Rightarrow> Ret (None, s, buf, [])
           | Some raw_buf \<Rightarrow>
             obind (parse_unwrap L raw_buf) (\<lambda>(_, t).
             if tcp_get_flags (tcp L) t AND RST L \<noteq> 0 then Ret (None, s, buf, [])
             else
               let payload = tcp_payload (tcp L) t;
                   new_ack = tcp_get_sequence (tcp L) t + word_of_nat (length payload);
                   last_ask = last_ack s;
                   s = s\<lparr>ack := new_ack\<rparr>
               in obind (if new_ack - last_ask > MAX_UNACKED_LEN
                         then obind (socket_build L s (ACK L) None) (\<lambda>(b, s). Ret (s, [b]))
                         else Ret (s, []))
                  (\<lambda>(s, sent).
                   if length payload \<le> length buf
                   then Ret (Some (length payload), s, write_at 0 payload buf, sent)
                   else Panic Index_out_of_bounds)))
      | _ \<Rightarrow> Panic Unreachable_code)"

section \<open>The handshake\<close>

text \<open>
  What one wait for a packet with the one-second timeout yields. A closed channel makes the
  \<open>unwrap\<close> of the received value panic.
\<close>

datatype recv_event = Timeout | Received bytes | Disconnected

text \<open>
  One iteration of the loop of \<open>connect\<close>. Result: \<open>Some r\<close> when the function returns \<open>r\<close>, \<open>None\<close>
  when the loop goes on; the socket; the packets handed to \<open>tun.send\<close>.
\<close>

definition connect_step ::
  "packet_lib \<Rightarrow> bool \<Rightarrow> nat io \<Rightarrow> recv_event \<Rightarrow> Socket
     \<Rightarrow> (unit option option \<times> Socket \<times> bytes list) outcome" where
  "connect_step L checks tun_result event s =
     (case state s of
        Idle \<Rightarrow>
          obind (socket_build L s (SYN L) None) (\<lambda>(buf, s).
            case tun_result of
              Inl _ \<Rightarrow> Ret (Some None, s, [buf])
            | Inr _ \<Rightarrow> Ret (None, s\<lparr>state := SynSent\<rparr>, [buf]))
      | SynSent \<Rightarrow>
          (case event of
             Timeout \<Rightarrow> Ret (None, s\<lparr>state := Idle\<rparr>, [])
           | Disconnected \<Rightarrow> Panic Unwrap_failed
           | Received buf \<Rightarrow>
             obind (parse_unwrap L buf) (\<lambda>(_, t).
             let flags = tcp_get_flags (tcp L) t in
             if flags AND RST L \<noteq> 0 then Ret (Some None, s, [])
             else obind (add_u32 checks (seq s) 1) (\<lambda>expected_ack.
               if flags = SYN L OR ACK L \<and> tcp_get_acknowledgement (tcp L) t = expected_ack then
                 let s = s\<lparr>seq := seq s + 1\<rparr> in
                 obind (add_u32 checks (tcp_get_sequence (tcp L) t) 1) (\<lambda>a.
                 let s = s\<lparr>ack := a\<rparr> in
                 obind (socket_build L s (ACK L) None) (\<lambda>(buf, s).
                   case tun_result of
                     Inl _ \<Rightarrow> Ret (Some None, s, [buf])
                   | Inr _ \<Rightarrow> Ret (Some (Some ()), s\<lparr>state := Established\<rparr>, [buf])))
               else Ret (None, s, []))))
      | _ \<Rightarrow> Panic Unreachable_code)"

text \<open>
  \<open>for retry in 0..RETRIES\<close>: iteration \<open>i\<close> sees the device answer \<open>tun_result i\<close> and the event
  \<open>events i\<close>.
\<close>

fun connect_loop ::
  "packet_lib \<Rightarrow> bool \<Rightarrow> (nat \<Rightarrow> nat io) \<Rightarrow> (nat \<Rightarrow> recv_event) \<Rightarrow> nat list \<Rightarrow> Socket
     \<Rightarrow> (unit option \<times> Socket \<times> bytes list) outcome" where
  "connect_loop L checks tun_result events [] s = Ret (None, s, [])"
| "connect_loop L checks tun_result events (i # is) s =
     obind (connect_step L checks (tun_result i) (events i) s) (\<lambda>(r, s, sent).
       case r of
         Some v \<Rightarrow> Ret (v, s, sent)
       | None \<Rightarrow> obind (connect_loop L checks tun_result events is s)
                   (\<lambda>(v, s, sent'). Ret (v, s, sent @ sent')))"

definition socket_connect ::
  "packet_lib \<Rightarrow> bool \<Rightarrow> (nat \<Rightarrow> nat io) \<Rightarrow> (nat \<Rightarrow> recv_event) \<Rightarrow> Socket
     \<Rightarrow> (unit option \<times> Socket \<times> bytes list) outcome" where
  "socket_connect L checks tun_result events s =
     connect_loop L checks tun_result events [0..<RETRIES] s"

text \<open>
  One iteration of the loop of \<open>accept\<close>, which consumes the socket: it ends in the ready queue
  (\<open>Some True\<close>) or is dropped (\<open>Some False\<close>); \<open>None\<close> when the loop goes on. \<open>ready_ok\<close> is whether
  the ready queue still has a receiver.
\<close>

definition accept_step ::
  "packet_lib \<Rightarrow> bool \<Rightarrow> nat io \<Rightarrow> recv_event \<Rightarrow> bool \<Rightarrow> Socket
     \<Rightarrow> (bool option \<times> Socket \<times> bytes list) outcome" where
  "accept_step L checks tun_result event ready_ok s =
     (case state s of
        Idle \<Rightarrow>
          obind (socket_build L s (SYN L OR ACK L) None) (\<lambda>(buf, s).
            case tun_result of
              Inl _ \<Rightarrow> Panic Unwrap_failed
            | Inr _ \<Rightarrow> Ret (None, s\<lparr>state := SynReceived\<rparr>, [buf]))
      | SynReceived \<Rightarrow>
          (case event of
             Timeout \<Rightarrow> Ret (None, s\<lparr>state := Idle\<rparr>, [])
           | Disconnected \<Rightarrow> Panic Unwrap_failed
           | Received buf \<Rightarrow>
             obind (parse_unwrap L buf) (\<lambda>(_, t).
             if tcp_get_flags (tcp L) t AND RST L \<noteq> 0 then Ret (Some False, s, [])
             else if tcp_get_flags (tcp L) t = ACK L then
               obind (add_u32 checks (seq s) 1) (\<lambda>expected.
               if tcp_get_acknowledgement (tcp L) t = expected then
                 Ret (Some ready_ok, s\<lparr>seq := seq s + 1, state := Established\<rparr>, [])
               else Ret (None, s, []))
             else Ret (None, s, [])))
      | _ \<Rightarrow> Panic Unreachable_code)"

fun accept_loop ::
  "packet_lib \<Rightarrow> bool \<Rightarrow> (nat \<Rightarrow> nat io) \<Rightarrow> (nat \<Rightarrow> recv_event) \<Rightarrow> bool \<Rightarrow> nat list \<Rightarrow> Socket
     \<Rightarrow> (bool \<times> Socket \<times> bytes list) outcome" where
  "accept_loop L checks tun_result events ready_ok [] s = Ret (False, s, [])"
| "accept_loop L checks tun_result events ready_ok (i # is) s =
     obind (accept_step L checks (tun_result i) (events i) ready_ok s) (\<lambda>(r, s, sent).
       case r of
         Some v \<Rightarrow> Ret (v, s, sent)
       | None \<Rightarrow> obind (accept_loop L checks tun_result events ready_ok is s)
                   (\<lambda>(v, s, sent'). Ret (v, s, sent @ sent')))"

definition socket_accept ::
  "packet_lib \<Rightarrow> bool \<Rightarrow> (nat \<Rightarrow> nat io) \<Rightarrow> (nat \<Rightarrow> recv_event) \<Rightarrow> bool \<Rightarrow> Socket
     \<Rightarrow> (bool \<times> Socket \<times> bytes list) outcome" where
  "socket_accept L checks tun_result events ready_ok s =
     accept_loop L checks tun_result events ready_ok [0..<RETRIES] s"

end
