(* ===== verification/Handshake.thy ===== *)
theory Handshake
  imports Socket
begin

text \<open>
  Correctness of \<open>Socket\<close>: the segments it puts on the wire, datagram delivery between two ends,
  the acknowledgement window, and the client side of the handshake as a state machine that
  \<open>connect_step\<close> refines, lifted to the retry loop by induction.
\<close>

section \<open>Library lemmas\<close>

definition wf_socket :: "Socket \<Rightarrow> bool" where
  "wf_socket s \<longleftrightarrow> same_family (local_addr s) (remote_addr s)"

text \<open>The segment a socket puts on the wire for given flags and payload.\<close>

definition out_segment :: "Socket \<Rightarrow> u8 \<Rightarrow> bytes option \<Rightarrow> segment" where
  "out_segment s flags payload =
     \<lparr>seg_src = strip_scope (local_addr s), seg_dst = strip_scope (remote_addr s),
      seg_seq = seq s, seg_ack = ack s, seg_flags = flags, seg_data = payload_bytes payload\<rparr>"

lemma out_segment_sel [simp]:
  "seg_src (out_segment s f p) = strip_scope (local_addr s)"
  "seg_dst (out_segment s f p) = strip_scope (remote_addr s)"
  "seg_seq (out_segment s f p) = seq s" "seg_ack (out_segment s f p) = ack s"
  "seg_flags (out_segment s f p) = f" "seg_data (out_segment s f p) = payload_bytes p"
  by (simp_all add: out_segment_def)

lemma out_segment_update [simp]:
  "out_segment (s\<lparr>last_ack := a\<rparr>) f p = out_segment s f p"
  "out_segment (s\<lparr>state := st\<rparr>) f p = out_segment s f p"
  by (simp_all add: out_segment_def)

lemma carries_parse:
  assumes "carries L b S"
  obtains ip t where "parse_ip_packet L b = Ret (Some (ip, t))" "parse_unwrap L b = Ret (ip, t)"
    "segment_of L ip t = S"
  using assms by (auto simp: carries_def parse_unwrap_def split: outcome.splits option.splits)

lemma parse_unwrap_carries: "parse_unwrap L b = Ret (ip, t) \<Longrightarrow> carries L b (segment_of L ip t)"
  by (auto simp: parse_unwrap_def carries_def obind_eq_Ret_iff split: option.splits)

context packet_layout
begin

lemma socket_build_ok:
  assumes "wf_socket s" and "fits (local_addr s) flags payload"
  shows "\<exists>b. socket_build L s flags payload = Ret (b, s\<lparr>last_ack := ack s\<rparr>)
    \<and> carries L b (out_segment s flags payload)
    \<and> length b = packet_len (local_addr s) flags payload"
  using build_carries [of "local_addr s" "remote_addr s" flags payload "seq s" "ack s"] assms
  by (auto simp: socket_build_def wf_socket_def out_segment_def)

lemma socket_build_wf:
  assumes "socket_build L s flags payload = Ret (b, s')"
  shows "wf_socket s \<and> s' = s\<lparr>last_ack := ack s\<rparr> \<and> carries L b (out_segment s flags payload)"
proof -
  from assms obtain b' where
    "build_tcp_packet L (local_addr s) (remote_addr s) (seq s) (ack s) flags payload = Ret b'"
    by (auto simp: socket_build_def Let_def obind_eq_Ret_iff)
  then have "wf_socket s" "fits (local_addr s) flags payload"
    using build_panics_iff [of "local_addr s" "remote_addr s" "seq s" "ack s" flags payload]
    by (auto simp: wf_socket_def)
  with socket_build_ok [OF this] assms show ?thesis by auto
qed

lemma recv_data:
  assumes "state s = Established" "wf_socket s" "carries L raw S" "seg_flags S AND 4 = 0"
    and "length (seg_data S) \<le> length buf"
    and a: "a = seg_seq S + word_of_nat (length (seg_data S))"
  shows "\<exists>sent. socket_recv L (Some raw) buf s
    = Ret (Some (length (seg_data S)),
           s\<lparr>ack := a, last_ack := (if a - last_ack s > MAX_UNACKED_LEN then a else last_ack s)\<rparr>,
           write_at 0 (seg_data S) buf, sent) \<and> (sent = [] \<longleftrightarrow> \<not> a - last_ack s > MAX_UNACKED_LEN)"
proof -
  from assms(3) obtain ip t where t: "parse_unwrap L raw = Ret (ip, t)" "segment_of L ip t = S"
    by (rule carries_parse)
  obtain b where "socket_build L (s\<lparr>ack := a\<rparr>) (ACK L) None = Ret (b, s\<lparr>ack := a, last_ack := a\<rparr>)"
    using socket_build_ok [of "s\<lparr>ack := a\<rparr>" "ACK L" None] assms(2) by (auto simp: wf_socket_def)
  then show ?thesis
    using assms t by (auto simp: socket_recv_def Let_def RST)
qed

lemma recv_reset:
  assumes "state s = Established" "carries L raw S" "seg_flags S AND 4 \<noteq> 0"
  shows "socket_recv L (Some raw) buf s = Ret (None, s, buf, [])"
  using assms by (auto simp: socket_recv_def RST elim!: carries_parse)

lemma send_ok:
  assumes "state s = Established" "wf_socket s" "fits (local_addr s) 16 (Some p)"
  shows "\<exists>b. socket_send L r p s = Ret (if is_ok r then Some () else None,
            s\<lparr>last_ack := ack s, seq := seq s + word_of_nat (length p)\<rparr>, b)
    \<and> carries L b (out_segment s 16 (Some p)) \<and> length b = packet_len (local_addr s) 16 (Some p)"
  using socket_build_ok [OF assms(2,3)] assms(1)
  by (cases r) (auto simp: socket_send_def ACK)

end

section \<open>The handshake as a state machine\<close>

text \<open>
  The client side of the handshake on abstract segments: whether the device takes the packet, the segment
  that arrives (\<open>None\<close> for a timeout), the state before, the verdict of the step, the state after and the
  segments sent. It is the contract \<open>connect_step\<close> implements (\<open>connect_step_refines\<close>).
\<close>

definition synchronised :: "Socket \<Rightarrow> segment \<Rightarrow> Socket" where
  "synchronised s S = s\<lparr>seq := seq s + 1, ack := seg_seq S + 1, last_ack := seg_seq S + 1\<rparr>"

inductive client_step ::
  "bool \<Rightarrow> segment option \<Rightarrow> Socket \<Rightarrow> unit option option \<Rightarrow> Socket \<Rightarrow> segment list \<Rightarrow> bool" where
  syn_sent: "state s = Idle \<Longrightarrow>
     client_step True e s None (s\<lparr>last_ack := ack s, state := SynSent\<rparr>) [out_segment s 2 None]"
| syn_failed: "state s = Idle \<Longrightarrow>
     client_step False e s (Some None) (s\<lparr>last_ack := ack s\<rparr>) [out_segment s 2 None]"
| timed_out: "state s = SynSent \<Longrightarrow> client_step taken None s None (s\<lparr>state := Idle\<rparr>) []"
| reset: "state s = SynSent \<Longrightarrow> seg_flags S AND 4 \<noteq> 0 \<Longrightarrow>
     client_step taken (Some S) s (Some None) s []"
| stray: "state s = SynSent \<Longrightarrow> seg_flags S AND 4 = 0 \<Longrightarrow>
     \<not> (seg_flags S = 18 \<and> seg_ack S = seq s + 1) \<Longrightarrow> client_step taken (Some S) s None s []"
| established: "state s = SynSent \<Longrightarrow> seg_flags S = 18 \<Longrightarrow> seg_ack S = seq s + 1 \<Longrightarrow>
     client_step True (Some S) s (Some (Some ())) (synchronised s S\<lparr>state := Established\<rparr>)
       [out_segment (synchronised s S) 16 None]"
| ack_failed: "state s = SynSent \<Longrightarrow> seg_flags S = 18 \<Longrightarrow> seg_ack S = seq s + 1 \<Longrightarrow>
     client_step False (Some S) s (Some None) (synchronised s S) [out_segment (synchronised s S) 16 None]"

inductive_cases client_goes_on: "client_step taken e s None s' segs"
inductive_cases client_connects: "client_step taken e s (Some (Some ())) s' segs"

definition in_handshake :: "Socket \<Rightarrow> bool" where
  "in_handshake s \<longleftrightarrow> state s = Idle \<or> state s = SynSent"

definition event_is :: "packet_lib \<Rightarrow> recv_event \<Rightarrow> segment option \<Rightarrow> bool" where
  "event_is L e E \<longleftrightarrow>
     (case e of Timeout \<Rightarrow> E = None
      | Received b \<Rightarrow> (case E of None \<Rightarrow> False | Some S \<Rightarrow> carries L b S)
      | Disconnected \<Rightarrow> False)"

text \<open>The segment in what a wait yields, as the parser reads it.\<close>

definition event_segment :: "packet_lib \<Rightarrow> recv_event \<Rightarrow> segment option" where
  "event_segment L e =
     (case e of
        Received b \<Rightarrow> (case parse_ip_packet L b of Ret (Some (ip, t)) \<Rightarrow> Some (segment_of L ip t) | _ \<Rightarrow> None)
      | _ \<Rightarrow> None)"

lemma event_segment_Received: "event_segment L e = Some S \<longleftrightarrow> (\<exists>b. e = Received b \<and> carries L b S)"
  by (auto simp: event_segment_def carries_def split: recv_event.splits outcome.splits option.splits)

lemma client_goes_on_frame:
  assumes "client_step taken e s None s' segs" "in_handshake s"
  shows "in_handshake s' \<and> seq s' = seq s \<and> local_addr s' = local_addr s \<and> remote_addr s' = remote_addr s
    \<and> incoming s' = incoming s \<and> tun s' = tun s"
  using assms by (auto elim!: client_goes_on simp: in_handshake_def)

context packet_layout
begin

lemma add_u32_Ret: "add_u32 m a b = Ret c \<Longrightarrow> c = a + b"
  by (simp add: add_u32_def split: if_splits)

lemma connect_step_refines:
  assumes "connect_step L m r e s = Ret (v, s', sent)"
  shows "\<exists>segs. client_step (is_ok r) (event_segment L e) s v s' segs \<and> list_all2 (carries L) sent segs"
proof (cases "state s")
  case Idle
  with assms show ?thesis
    by (cases r)
      (auto simp: connect_step_def obind_eq_Ret_iff SYN dest!: socket_build_wf
        intro: client_step.syn_sent client_step.syn_failed)
next
  case SynSent
  show ?thesis
  proof (cases e)
    case Timeout
    with assms SynSent show ?thesis
      by (auto simp: connect_step_def event_segment_def intro!: exI [of _ "[]"] client_step.timed_out)
  next
    case (Received b)
    from assms SynSent Received obtain ip t where t: "parse_unwrap L b = Ret (ip, t)"
      by (auto simp: connect_step_def obind_eq_Ret_iff)
    let ?S = "segment_of L ip t"
    have ev: "event_segment L e = Some ?S"
      using t Received by (simp add: event_segment_Received parse_unwrap_carries)
    have "\<exists>segs. client_step (is_ok r) (Some ?S) s v s' segs \<and> list_all2 (carries L) sent segs"
    proof (cases "seg_flags ?S AND 4 \<noteq> 0")
      case True
      with assms SynSent Received t show ?thesis
        by (auto simp: connect_step_def RST Let_def intro!: exI [of _ "[]"] client_step.reset)
    next
      case False
      show ?thesis
      proof (cases "seg_flags ?S = 18 \<and> seg_ack ?S = seq s + 1")
        case True
        let ?s = "synchronised s ?S"
        from True False assms SynSent Received t
        have "list_all2 (carries L) sent [out_segment ?s 16 None]
          \<and> (is_ok r \<and> v = Some (Some ()) \<and> s' = ?s\<lparr>state := Established\<rparr> \<or> \<not> is_ok r \<and> v = Some None \<and> s' = ?s)"
          by (cases r)
            (auto simp: connect_step_def RST SYN ACK Let_def obind_eq_Ret_iff synchronised_def
              dest!: add_u32_Ret socket_build_wf)
        with SynSent True client_step.established [of s ?S] client_step.ack_failed [of s ?S] show ?thesis by fastforce
      next
        case False': False
        with False assms SynSent Received t show ?thesis
          by (auto simp: connect_step_def RST SYN ACK Let_def obind_eq_Ret_iff dest!: add_u32_Ret
              intro!: exI [of _ "[]"] client_step.stray split: if_splits)
      qed
    qed
    with ev show ?thesis by simp
  qed (use assms SynSent in \<open>simp add: connect_step_def\<close>)
qed (use assms in \<open>simp_all add: connect_step_def\<close>)

end

text \<open>
  A whole attempt: one step of the client per input, until it ends or there are no inputs left, and
  what it sends.
\<close>

inductive client_trace ::
  "(bool \<times> segment option) list \<Rightarrow> Socket \<Rightarrow> unit option \<Rightarrow> Socket \<Rightarrow> segment list \<Rightarrow> bool" where
  gives_up: "client_trace [] s None s []"
| ends: "client_step taken e s (Some v) s' segs \<Longrightarrow> client_trace ((taken, e) # ins) s v s' segs"
| continues: "client_step taken e s None s1 segs \<Longrightarrow> client_trace ins s1 v s' segs'
    \<Longrightarrow> client_trace ((taken, e) # ins) s v s' (segs @ segs')"

lemma client_step_unique:
  "client_step taken e s v s' segs \<Longrightarrow> client_step taken e s v2 s2 segs2 \<Longrightarrow> v2 = v \<and> s2 = s' \<and> segs2 = segs"
  by (elim client_step.cases) auto

lemma client_trace_unique:
  "client_trace ins s v s' segs \<Longrightarrow> client_trace ins s v2 s2 segs2 \<Longrightarrow> v2 = v \<and> s2 = s' \<and> segs2 = segs"
proof (induction arbitrary: v2 s2 segs2 rule: client_trace.induct)
  case (ends taken e s v s' segs ins)
  from ends(2) show ?case by cases (use client_step_unique [OF ends(1)] in auto)
next
  case (continues taken e s s1 segs ins v s' segs')
  from continues(4) show ?case
  proof cases
    case (continues s1' segs1 segs2')
    with client_step_unique [OF \<open>client_step taken e s None s1 segs\<close>] continues.IH show ?thesis by blast
  qed (use client_step_unique [OF continues(1)] in auto)
qed (auto elim: client_trace.cases)

text \<open>What the iterations of \<open>connect\<close> get from the device and from the network.\<close>

definition connect_inputs :: "packet_lib \<Rightarrow> (nat \<Rightarrow> nat io) \<Rightarrow> (nat \<Rightarrow> recv_event) \<Rightarrow> nat list \<Rightarrow> (bool \<times> segment option) list" where
  "connect_inputs L tr ev is = map (\<lambda>i. (is_ok (tr i), event_segment L (ev i))) is"

context packet_layout
begin

lemma connect_loop_refines:
  assumes "connect_loop L m tr ev is s = Ret (v, s', sent)"
  shows "\<exists>segs. client_trace (connect_inputs L tr ev is) s v s' segs \<and> list_all2 (carries L) sent segs"
  using assms
proof (induction "is" arbitrary: s sent)
  case Nil
  then show ?case by (auto simp: connect_inputs_def intro: gives_up)
next
  case (Cons i "is")
  from Cons.prems obtain w s1 sent1 where
    step: "connect_step L m (tr i) (ev i) s = Ret (w, s1, sent1)"
    and rest: "(case w of Some v \<Rightarrow> Ret (v, s1, sent1)
       | None \<Rightarrow> obind (connect_loop L m tr ev is s1) (\<lambda>(v, s, sent'). Ret (v, s, sent1 @ sent')))
       = Ret (v, s', sent)"
    by (auto simp: obind_eq_Ret_iff)
  obtain segs where cs: "client_step (is_ok (tr i)) (event_segment L (ev i)) s w s1 segs"
    and sg: "list_all2 (carries L) sent1 segs"
    using connect_step_refines [OF step] by blast
  show ?case
  proof (cases w)
    case (Some r)
    with rest cs sg show ?thesis by (auto simp: connect_inputs_def intro: ends)
  next
    case None
    with rest obtain sent' where l: "connect_loop L m tr ev is s1 = Ret (v, s', sent')" "sent = sent1 @ sent'"
      by (auto simp: obind_eq_Ret_iff)
    from Cons.IH [OF l(1)] obtain segs' where
      "client_trace (connect_inputs L tr ev is) s1 v s' segs'" "list_all2 (carries L) sent' segs'" by blast
    with cs sg None l(2) show ?thesis by (auto simp: connect_inputs_def intro: continues list_all2_appendI)
  qed
qed

end

text \<open>The number of connection requests among packets.\<close>

definition syn_count :: "packet_lib \<Rightarrow> bytes list \<Rightarrow> nat" where
  "syn_count L bs = length (filter (\<lambda>b. \<exists>S. carries L b S \<and> seg_flags S = 2) bs)"

lemma syn_count_simps [simp]:
  "syn_count L [] = 0" "syn_count L (bs @ cs) = syn_count L bs + syn_count L cs"
  by (simp_all add: syn_count_def)

lemma syn_count_segments:
  "list_all2 (carries L) bs segs \<Longrightarrow> syn_count L bs = length (filter (\<lambda>S. seg_flags S = 2) segs)"
  by (induction rule: list_all2_induct) (auto simp: syn_count_def dest: carries_unique)

text \<open>A connected socket, reached from \<open>s\<close> by accepting the peer's segment \<open>S\<close>.\<close>

definition connected_by :: "packet_lib \<Rightarrow> Socket \<Rightarrow> segment \<Rightarrow> Socket \<Rightarrow> bytes list \<Rightarrow> bool" where
  "connected_by L s S s' sent \<longleftrightarrow>
     seg_flags S = 18 \<and> seg_ack S = seq s + 1
     \<and> state s' = Established \<and> seq s' = seq s + 1 \<and> ack s' = seg_seq S + 1 \<and> last_ack s' = ack s'
     \<and> socket_tuple s' = socket_tuple s \<and> sent \<noteq> []
     \<and> carries L (last sent) (out_segment s' 16 None)"

context packet_layout
begin

lemma connect_loop_connects:
  assumes "connect_loop L m tr ev is s = Ret (Some (), s', sent)" "in_handshake s"
  shows "\<exists>i \<in> set is. \<exists>b S. ev i = Received b \<and> carries L b S \<and> connected_by L s S s' sent"
  using assms
proof (induction "is" arbitrary: s sent)
  case (Cons i "is")
  from Cons.prems(1) obtain v s1 sent1 where
    step: "connect_step L m (tr i) (ev i) s = Ret (v, s1, sent1)"
    and rest: "(case v of Some v \<Rightarrow> Ret (v, s1, sent1)
       | None \<Rightarrow> obind (connect_loop L m tr ev is s1) (\<lambda>(v, s, sent'). Ret (v, s, sent1 @ sent')))
       = Ret (Some (), s', sent)"
    by (auto simp: obind_eq_Ret_iff)
  obtain segs where cs: "client_step (is_ok (tr i)) (event_segment L (ev i)) s v s1 segs"
    and sg: "list_all2 (carries L) sent1 segs"
    using connect_step_refines [OF step] by blast
  show ?case
  proof (cases v)
    case (Some w)
    with rest have eqs: "v = Some (Some ())" "s1 = s'" "sent1 = sent" by auto
    from cs eqs obtain S where S: "event_segment L (ev i) = Some S" "state s = SynSent" "seg_flags S = 18"
      "seg_ack S = seq s + 1" "s' = synchronised s S\<lparr>state := Established\<rparr>"
      "segs = [out_segment (synchronised s S) 16 None]"
      by (auto elim: client_connects)
    then obtain b where b: "ev i = Received b" "carries L b S" by (auto simp: event_segment_Received)
    from S sg eqs obtain a where "sent = [a]" "carries L a (out_segment s' 16 None)"
      by (auto simp: list_all2_Cons2)
    with S b show ?thesis
      by (auto simp: connected_by_def synchronised_def socket_tuple_def)
  next
    case None
    with rest obtain sent2 where
      r: "connect_loop L m tr ev is s1 = Ret (Some (), s', sent2)" and "sent = sent1 @ sent2"
      by (auto simp: obind_eq_Ret_iff)
    moreover have "in_handshake s1" and "seq s1 = seq s" and "socket_tuple s1 = socket_tuple s"
      using client_goes_on_frame [OF cs [unfolded None] Cons.prems(2)]
      by (auto simp: socket_tuple_def)
    ultimately have "connected_by L s S s' sent" if "connected_by L s1 S s' sent2" for S
      using that by (simp add: connected_by_def)
    with Cons.IH [OF r \<open>in_handshake s1\<close>] show ?thesis by force
  qed
qed simp

lemma connect_loop_first:
  assumes "connect_loop L m tr ev (i # is) s = Ret (Some (), s', sent)" "state s = Idle"
  shows "\<exists>b s1 sent'. carries L b (out_segment s 2 None) \<and> in_handshake s1 \<and> seq s1 = seq s \<and> socket_tuple s1 = socket_tuple s
    \<and> connect_loop L m tr ev is s1 = Ret (Some (), s', sent') \<and> sent = b # sent'"
proof -
  from assms obtain b s1 where "socket_build L s (SYN L) None = Ret (b, s1)"
    "obind (connect_loop L m tr ev is (s1\<lparr>state := SynSent\<rparr>)) (\<lambda>(v, s, sent'). Ret (v, s, b # sent')) = Ret (Some (), s', sent)"
    by (cases "tr i") (auto simp: connect_step_def obind_eq_Ret_iff)
  with socket_build_wf [of s "SYN L" None b s1] show ?thesis
    by (intro exI [of _ b] exI [of _ "s1\<lparr>state := SynSent\<rparr>"])
      (auto simp: obind_eq_Ret_iff SYN in_handshake_def socket_tuple_def)
qed

lemma connect_loop_syns:
  assumes "connect_loop L m tr ev is s = Ret (v, s', sent)" "in_handshake s"
  shows "2 * syn_count L sent \<le> length is + (if state s = Idle then 1 else 0)"
  using assms
proof (induction "is" arbitrary: s sent)
  case (Cons i "is")
  from Cons.prems(1) obtain u s1 sent1 where
    step: "connect_step L m (tr i) (ev i) s = Ret (u, s1, sent1)"
    and rest: "(case u of Some v \<Rightarrow> Ret (v, s1, sent1)
       | None \<Rightarrow> obind (connect_loop L m tr ev is s1) (\<lambda>(v, s, sent'). Ret (v, s, sent1 @ sent')))
       = Ret (v, s', sent)"
    by (auto simp: obind_eq_Ret_iff)
  obtain segs where cs: "client_step (is_ok (tr i)) (event_segment L (ev i)) s u s1 segs" and sg: "list_all2 (carries L) sent1 segs"
    using connect_step_refines [OF step] by blast
  have n1: "syn_count L sent1 = (if state s = Idle then 1 else 0)"
    using cs by (cases rule: client_step.cases) (auto simp: syn_count_segments [OF sg])
  show ?case
  proof (cases u)
    case (Some w)
    with rest n1 show ?thesis by auto
  next
    case None
    with rest obtain sent2 where
      r: "connect_loop L m tr ev is s1 = Ret (v, s', sent2)" and s: "sent = sent1 @ sent2"
      by (auto simp: obind_eq_Ret_iff)
    have "in_handshake s1"
      using client_goes_on_frame [OF cs [unfolded None] Cons.prems(2)] by simp
    from Cons.IH [OF r this] cs None n1 show ?thesis
      by (auto simp: s elim!: client_goes_on)
  qed
qed simp

lemma connect_step_total:
  assumes "wf_socket s" "in_handshake s" "event_is L e E"
  shows "\<exists>x. connect_step L False r e s = Ret x"
proof -
  have b: "\<exists>b. socket_build L s' f None = Ret (b, s'\<lparr>last_ack := ack s'\<rparr>)" if "wf_socket s'" for s' f
    using socket_build_ok [OF that, of f None] by auto
  show ?thesis
  proof (cases "state s")
    case Idle
    with b [OF assms(1), of "SYN L"] show ?thesis
      by (cases r) (auto simp: connect_step_def)
  next
    case SynSent
    show ?thesis
    proof (cases e)
      case (Received raw)
      with assms(3) obtain S where "carries L raw S"
        by (auto simp: event_is_def split: option.splits)
      then obtain ip t where t: "parse_unwrap L raw = Ret (ip, t)"
        by (rule carries_parse)
      let ?s = "s\<lparr>seq := seq s + 1, ack := tcp_get_sequence (tcp L) t + 1\<rparr>"
      obtain c where "socket_build L ?s (ACK L) None = Ret (c, ?s\<lparr>last_ack := ack ?s\<rparr>)"
        using b [of ?s "ACK L"] assms(1) by (auto simp: wf_socket_def)
      with SynSent Received t show ?thesis
        by (cases r) (simp_all add: connect_step_def Let_def)
    qed (use assms(3) SynSent in \<open>auto simp: connect_step_def event_is_def\<close>)
  qed (use assms(2) in \<open>auto simp: in_handshake_def\<close>)
qed

lemma connect_loop_total:
  assumes "wf_socket s" "in_handshake s" "\<And>i. i \<in> set is \<Longrightarrow> \<exists>E. event_is L (ev i) E"
  shows "\<exists>x. connect_loop L False tr ev is s = Ret x"
  using assms
proof (induction "is" arbitrary: s)
  case (Cons i "is")
  obtain E where "event_is L (ev i) E" using Cons.prems(3) by auto
  from connect_step_total [OF Cons.prems(1,2) this] obtain v s1 sent1 where
    step: "connect_step L False (tr i) (ev i) s = Ret (v, s1, sent1)" by (metis prod_cases3)
  show ?case
  proof (cases v)
    case None
    obtain segs where "client_step (is_ok (tr i)) (event_segment L (ev i)) s None s1 segs"
      using connect_step_refines [OF step] None by blast
    from client_goes_on_frame [OF this Cons.prems(2)] Cons.prems(1)
    have "wf_socket s1" "in_handshake s1" by (auto simp: wf_socket_def)
    from Cons.IH [OF this] Cons.prems(3) step None show ?thesis by auto
  qed (use step in auto)
qed simp

end

section \<open>One step of each end of the handshake\<close>

lemma retries_list: "[0..<RETRIES] = [0, 1, 2, 3, 4, 5]"
  by (simp add: RETRIES_def upt_conv_Cons)

lemma add_u32_zero [simp]: "add_u32 m 0 b = Ret b"
proof -
  have "unat b < 2 ^ 32" using unsigned_less [of b] by simp
  then show ?thesis by (simp add: add_u32_def)
qed

context packet_layout
begin

lemma connect_step_syn:
  assumes "state s = Idle" "wf_socket s"
  shows "\<exists>b. connect_step L m (Inr n) e s = Ret (None, s\<lparr>last_ack := ack s, state := SynSent\<rparr>, [b])
    \<and> carries L b (out_segment s 2 None)"
  using socket_build_ok [OF assms(2), of 2 None] assms(1)
  by (auto simp: connect_step_def SYN)

lemma connect_step_established:
  assumes "state s = SynSent" "wf_socket s" "carries L raw S" "seg_flags S = 18"
    and "seg_ack S = seq s + 1"
    and "add_u32 m (seq s) 1 = Ret (seq s + 1)" "add_u32 m (seg_seq S) 1 = Ret (seg_seq S + 1)"
  shows "\<exists>b. connect_step L m (Inr n) (Received raw) s
      = Ret (Some (Some ()), synchronised s S\<lparr>state := Established\<rparr>, [b])
    \<and> carries L b (out_segment (synchronised s S) 16 None)"
proof -
  from assms(3) obtain ip t where t: "parse_unwrap L raw = Ret (ip, t)" "segment_of L ip t = S"
    by (rule carries_parse)
  let ?s = "s\<lparr>seq := seq s + 1, ack := seg_seq S + 1\<rparr>"
  obtain b where "socket_build L ?s 16 None = Ret (b, ?s\<lparr>last_ack := ack ?s\<rparr>)"
    and "carries L b (out_segment ?s 16 None)"
    using socket_build_ok [of ?s 16 None] assms(2) by (auto simp: wf_socket_def)
  then show ?thesis
    using assms t
    by (auto simp: connect_step_def Let_def RST SYN ACK synchronised_def)
qed

lemma connect_step_timeout:
  "state s = SynSent \<Longrightarrow> connect_step L m r Timeout s = Ret (None, s\<lparr>state := Idle\<rparr>, [])"
  by (simp add: connect_step_def)

lemma connect_step_overflow:
  assumes "state s = SynSent" "seq s = 0" "carries L raw S" "seg_flags S = 18" "seg_ack S = 1"
    and "seg_seq S = 4294967295"
  shows "connect_step L True r (Received raw) s = Panic Arithmetic_overflow"
proof -
  from assms(3) obtain ip t where t: "parse_unwrap L raw = Ret (ip, t)" "segment_of L ip t = S"
    by (rule carries_parse)
  have "add_u32 True 4294967295 1 = Panic Arithmetic_overflow"
    by (simp add: add_u32_def)
  with assms t show ?thesis
    by (auto simp: connect_step_def Let_def RST SYN ACK)
qed

lemma accept_step_syn_ack:
  assumes "state s = Idle" "wf_socket s"
  shows "\<exists>b. accept_step L m (Inr n) e rdy s
      = Ret (None, s\<lparr>last_ack := ack s, state := SynReceived\<rparr>, [b])
    \<and> carries L b (out_segment s 18 None)"
  using socket_build_ok [OF assms(2), of 18 None] assms(1)
  by (auto simp: accept_step_def SYN ACK)

lemma accept_step_ack:
  assumes "state s = SynReceived" "carries L raw S" "seg_flags S = 16" "seg_ack S = seq s + 1"
    and "add_u32 m (seq s) 1 = Ret (seq s + 1)"
  shows "accept_step L m r (Received raw) rdy s
    = Ret (Some rdy, s\<lparr>seq := seq s + 1, state := Established\<rparr>, [])"
  using assms
  by (auto simp: accept_step_def RST ACK elim!: carries_parse)

lemma handshake:
  fixes m :: bool
  assumes "same_family c d"
  shows "\<exists>b1 b2 b3 C D.
      socket_connect L m (\<lambda>_. Inr n) (\<lambda>i. if i = 1 then Received b2 else Timeout)
        (socket_new k1 ch1 c d None Idle) = Ret (Some (), C, [b1, b3])
    \<and> socket_accept L m (\<lambda>_. Inr n) (\<lambda>i. if i = 1 then Received b3 else Timeout) True
        (socket_new k2 ch2 d c (Some 1) Idle) = Ret (True, D, [b2])
    \<and> carries L b1 (out_segment (socket_new k1 ch1 c d None Idle) 2 None)
    \<and> state C = Established \<and> state D = Established \<and> seq C = ack D \<and> seq D = ack C"
proof -
  let ?c = "socket_new k1 ch1 c d None Idle" and ?d = "socket_new k2 ch2 d c (Some 1) Idle"
  have wf: "wf_socket ?c" "wf_socket ?d" "state ?c = Idle" "state ?d = Idle"
    using assms by (simp_all add: wf_socket_def socket_new_def same_family_def)
  obtain b1 where b1: "\<And>e. connect_step L m (Inr n) e ?c = Ret (None, ?c\<lparr>last_ack := 0, state := SynSent\<rparr>, [b1])"
    "carries L b1 (out_segment ?c 2 None)"
    using connect_step_syn [OF wf(3,1)] by (auto simp: connect_step_def socket_new_def)
  obtain b2 where b2: "\<And>e. accept_step L m (Inr n) e True ?d = Ret (None, ?d\<lparr>last_ack := 1, state := SynReceived\<rparr>, [b2])"
    "carries L b2 (out_segment ?d 18 None)"
    using accept_step_syn_ack [OF wf(4,2)] by (auto simp: accept_step_def socket_new_def)
  let ?c1 = "?c\<lparr>last_ack := 0, state := SynSent\<rparr>" and ?S2 = "out_segment ?d 18 None"
  obtain b3 where b3: "connect_step L m (Inr n) (Received b2) ?c1
      = Ret (Some (Some ()), synchronised ?c1 ?S2\<lparr>state := Established\<rparr>, [b3])"
    "carries L b3 (out_segment (synchronised ?c1 ?S2) 16 None)"
    using connect_step_established [of ?c1 b2 ?S2 m n] b2(2) wf(1)
    by (auto simp: wf_socket_def socket_new_def)
  have b4: "accept_step L m (Inr n) (Received b3) True (?d\<lparr>last_ack := 1, state := SynReceived\<rparr>)
      = Ret (Some True, ?d\<lparr>last_ack := 1, seq := 1, state := Established\<rparr>, [])"
    using accept_step_ack [OF _ b3(2), of "?d\<lparr>last_ack := 1, state := SynReceived\<rparr>" m "Inr n" True]
    by (simp add: socket_new_def synchronised_def)
  have "socket_connect L m (\<lambda>_. Inr n) (\<lambda>i. if i = 1 then Received b2 else Timeout) ?c
      = Ret (Some (), synchronised ?c1 ?S2\<lparr>state := Established\<rparr>, [b1, b3])"
    using b1 b3 by (simp add: socket_connect_def retries_list)
  moreover have "socket_accept L m (\<lambda>_. Inr n) (\<lambda>i. if i = 1 then Received b3 else Timeout) True ?d
      = Ret (True, ?d\<lparr>last_ack := 1, seq := 1, state := Established\<rparr>, [b2])"
    using b2 b4 by (simp add: socket_accept_def retries_list)
  ultimately show ?thesis
    using b1(2) by (fastforce simp: synchronised_def socket_new_def)
qed

end

section \<open>Properties of the socket\<close>

text \<open>Concrete addresses and sockets for evaluated instances.\<close>

definition sample_local :: socket_addr where "sample_local = V4 (SocketAddrV4 3221225994 40000)"
definition sample_remote :: socket_addr where "sample_remote = V4 (SocketAddrV4 3405803796 65009)"

lemma sample_family: "same_family sample_local sample_remote"
  by (simp add: same_family_def sample_local_def sample_remote_def)

definition sample_client :: Socket where
  "sample_client = (socket_new 0 0 sample_local sample_remote None Idle)\<lparr>state := Established, seq := 1, ack := 1\<rparr>"

definition sample_server :: Socket where
  "sample_server = (socket_new 0 1 sample_remote sample_local (Some 1) Idle)\<lparr>state := Established, seq := 1\<rparr>"

lemma sample_established:
  "state sample_client = Established" "wf_socket sample_client"
  "state sample_server = Established" "wf_socket sample_server"
  by (simp_all add: sample_client_def sample_server_def sample_local_def sample_remote_def
      socket_new_def wf_socket_def same_family_def)

lemma sample_fits: "fits (local_addr sample_client) 16 (Some [104, 105])"
  by (simp add: fits_def tcp_wire_len_def has_syn_def sample_client_def sample_local_def socket_new_def)

text \<open>
  C23: datagram delivery. What one established socket sends, the other end receives unchanged: for a
  datagram that fits an IP packet and the receiver's buffer, \<open>send\<close> succeeds when the device
  accepts the packet, and \<open>recv\<close> of that packet returns the datagram's length, leaves exactly the
  datagram at the front of the buffer, and acknowledges up to the sender's next sequence number.
\<close>

theorem datagram_delivery:
  assumes "packet_layout L" and "state s = Established" and "wf_socket s"
    and "fits (local_addr s) 16 (Some p)"
    and "state r = Established" and "wf_socket r" and "length p \<le> length buf"
  shows "\<exists>b s' r' sent. socket_send L (Inr n) p s = Ret (Some (), s', b)
    \<and> socket_recv L (Some b) buf r = Ret (Some (length p), r', write_at 0 p buf, sent)
    \<and> ack r' = seq s' \<and> seq s' = seq s + word_of_nat (length p)"
proof -
  obtain b where "socket_send L (Inr n) p s
      = Ret (Some (), s\<lparr>last_ack := ack s, seq := seq s + word_of_nat (length p)\<rparr>, b)"
    and "carries L b (out_segment s 16 (Some p))"
    using packet_layout.send_ok [OF assms(1-4), of "Inr n"] by auto
  moreover from packet_layout.recv_data [OF assms(1,5,6) this(2), of buf] assms(7) obtain r' sent where
    "socket_recv L (Some b) buf r = Ret (Some (length p), r', write_at 0 p buf, sent)"
    and "ack r' = seq s + word_of_nat (length p)"
    by auto
  ultimately show ?thesis by auto
qed

theorem datagram_delivery_witness:
  "\<exists>b s' r' sent. socket_send wire_lib (Inr 42) [104, 105] sample_client = Ret (Some (), s', b)
    \<and> socket_recv wire_lib (Some b) [0, 0, 0, 0] sample_server
        = Ret (Some 2, r', [104, 105, 0, 0], sent)
    \<and> ack r' = 3"
  using datagram_delivery [OF packet_layout_wire_lib sample_established(1,2) sample_fits
      sample_established(3,4), of "[0, 0, 0, 0]" 42]
  by (fastforce simp: write_at_def sample_client_def)

text \<open>
  C36: bounded unacknowledged data. A successful receive takes over the acknowledgement number of the
  packet it received and leaves at most 128 MiB unacknowledged: either nothing was sent and the last
  acknowledged number is as before, or exactly one packet was handed to the device, an ACK without data that
  carries the new acknowledgement number. The distance is taken modulo \<open>2 ^ 32\<close>, as sequence numbers wrap.
\<close>

theorem recv_keeps_ack_window:
  assumes "packet_layout L" and "socket_recv L raw buf s = Ret (Some n, s', buf', sent)"
  shows "(\<exists>b S. raw = Some b \<and> carries L b S \<and> n = length (seg_data S) \<and> ack s' = seg_seq S + word_of_nat n)
    \<and> ack s' - last_ack s' \<le> MAX_UNACKED_LEN
    \<and> (sent = [] \<and> last_ack s' = last_ack s
       \<or> last_ack s' = ack s' \<and> (\<exists>b. sent = [b] \<and> carries L b (out_segment s' 16 None)))"
proof -
  from assms(2) obtain b ip t where t: "raw = Some b" "state s = Established" "parse_unwrap L b = Ret (ip, t)"
    by (auto simp: socket_recv_def obind_eq_Ret_iff split: State.splits option.splits)
  let ?S = "segment_of L ip t"
  have S: "carries L b ?S" by (rule parse_unwrap_carries [OF t(3)])
  from assms(2) t obtain s1 where
    eqs: "n = length (seg_data ?S)" "(if seg_seq ?S + word_of_nat n - last_ack s > MAX_UNACKED_LEN
       then obind (socket_build L (s\<lparr>ack := seg_seq ?S + word_of_nat n\<rparr>) (ACK L) None) (\<lambda>(b, s). Ret (s, [b]))
       else Ret (s\<lparr>ack := seg_seq ?S + word_of_nat n\<rparr>, [])) = Ret (s', sent)"
    by (auto simp: socket_recv_def obind_eq_Ret_iff Let_def split: if_splits)
  then have "ack s' = seg_seq ?S + word_of_nat n \<and> ack s' - last_ack s' \<le> MAX_UNACKED_LEN
    \<and> (sent = [] \<and> last_ack s' = last_ack s
       \<or> last_ack s' = ack s' \<and> (\<exists>b. sent = [b] \<and> carries L b (out_segment s' 16 None)))"
    by (auto simp: obind_eq_Ret_iff not_less packet_layout.ACK [OF assms(1)] split: if_splits
        dest!: packet_layout.socket_build_wf [OF assms(1)])
  with t(1) S eqs(1) show ?thesis by blast
qed

theorem recv_keeps_ack_window_witness:
  "\<exists>raw s' buf' b. socket_recv wire_lib (Some raw) [0, 0, 0, 0] (sample_server\<lparr>last_ack := 3000000000\<rparr>)
      = Ret (Some 2, s', buf', [b]) \<and> carries wire_lib b (out_segment s' 16 None) \<and> last_ack s' = 3"
proof -
  let ?r = "sample_server\<lparr>last_ack := 3000000000\<rparr>" and ?S = "out_segment sample_client 16 (Some [104, 105])"
  obtain b where b: "carries wire_lib b ?S"
    using wire.send_ok [OF sample_established(1,2) sample_fits, of "Inr 0"] by blast
  have r: "state ?r = Established" "wf_socket ?r" using sample_established(3,4) by (simp_all add: wf_socket_def)
  have a: "seg_seq ?S + word_of_nat (length (seg_data ?S)) = 3" by (simp add: sample_client_def)
  from wire.recv_data [OF r b _ _ refl, of "[0, 0, 0, 0]", unfolded a] obtain s' buf' sent where
    recv: "socket_recv wire_lib (Some b) [0, 0, 0, 0] ?r = Ret (Some 2, s', buf', sent)" and s': "ack s' = 3" "sent \<noteq> []"
    by (auto simp: MAX_UNACKED_LEN_def)
  from recv_keeps_ack_window [OF packet_layout_wire_lib recv] recv s' show ?thesis by auto
qed

section \<open>Properties of the handshake\<close>

text \<open>
  C9: a connection is reported only after a valid exchange. When \<open>connect\<close> returns \<open>Some\<close>, its first packet
  was the SYN with sequence number 0; one of its later waits received a segment with exactly SYN and ACK
  set that acknowledges sequence number 1; the socket is established with \<open>seq = 1\<close> and acknowledges the
  peer's number plus one; and the last packet sent is the ACK with those numbers.
\<close>

theorem connect_sound:
  assumes "packet_layout L"
    and "socket_connect L checks tr ev (socket_new k ch l r None Idle) = Ret (Some (), s', sent)"
  shows "carries L (hd sent) (out_segment (socket_new k ch l r None Idle) 2 None) \<and> 2 \<le> length sent
    \<and> (\<exists>i b S. 0 < i \<and> i < RETRIES \<and> ev i = Received b \<and> carries L b S \<and> seg_flags S = 18 \<and> seg_ack S = 1
      \<and> state s' = Established \<and> seq s' = 1 \<and> ack s' = seg_seq S + 1
      \<and> socket_tuple s' = AddrTuple l r \<and> carries L (last sent) (out_segment s' 16 None))"
proof -
  let ?s = "socket_new k ch l r None Idle"
  have idle: "state ?s = Idle" by (simp add: socket_new_def)
  have "[0..<RETRIES] = 0 # [1..<RETRIES]" by (simp add: RETRIES_def upt_conv_Cons)
  from packet_layout.connect_loop_first [OF assms(1) assms(2) [unfolded socket_connect_def this] idle]
  obtain b s1 sent' where first: "carries L b (out_segment ?s 2 None)" "in_handshake s1" "seq s1 = seq ?s"
    "socket_tuple s1 = socket_tuple ?s" "connect_loop L checks tr ev [1..<RETRIES] s1 = Ret (Some (), s', sent')" "sent = b # sent'"
    by blast
  from packet_layout.connect_loop_connects [OF assms(1) first(5,2)] obtain i b' S where
    "i \<in> {1..<RETRIES}" "ev i = Received b'" "carries L b' S" "connected_by L s1 S s' sent'" by auto
  moreover from this(4) have "sent' \<noteq> []" by (simp add: connected_by_def)
  moreover have "seq ?s = 0" "socket_tuple ?s = AddrTuple l r" by (simp_all add: socket_new_def socket_tuple_def)
  ultimately show ?thesis
    using first by (cases sent') (auto simp: connected_by_def intro!: exI [of _ i] exI [of _ b'] exI [of _ S])
qed

theorem connect_sound_witness:
  "\<exists>ev s' sent. socket_connect wire_lib True (\<lambda>_. Inr 0) ev (socket_new 0 0 sample_local sample_remote None Idle)
      = Ret (Some (), s', sent) \<and> state s' = Established \<and> seq s' = 1"
proof -
  obtain ev s' sent where "socket_connect wire_lib True (\<lambda>_. Inr 0) ev
      (socket_new 0 0 sample_local sample_remote None Idle) = Ret (Some (), s', sent)"
    using wire.handshake [OF sample_family] by blast
  with connect_sound [OF packet_layout_wire_lib this] show ?thesis by blast
qed


text \<open>
  The handshake completes. When the two ends exchange their packets without loss, the client's
  \<open>connect\<close> and the server's \<open>accept\<close> both succeed, after one SYN, one SYN+ACK and one ACK, in either
  build mode, and agree on both sequence numbers.
\<close>

theorem handshake_completes:
  assumes "packet_layout L" and "same_family c d"
  shows "\<exists>b1 b2 b3 C D.
      socket_connect L checks (\<lambda>_. Inr n) (\<lambda>i. if i = 1 then Received b2 else Timeout)
        (socket_new k1 ch1 c d None Idle) = Ret (Some (), C, [b1, b3])
    \<and> socket_accept L checks (\<lambda>_. Inr n) (\<lambda>i. if i = 1 then Received b3 else Timeout) True
        (socket_new k2 ch2 d c (Some 1) Idle) = Ret (True, D, [b2])
    \<and> carries L b1 (out_segment (socket_new k1 ch1 c d None Idle) 2 None)
    \<and> state C = Established \<and> state D = Established \<and> seq C = ack D \<and> seq D = ack C"
  by (rule packet_layout.handshake [OF assms])

theorem handshake_completes_witness:
  "\<exists>b1 b2 b3 C D.
      socket_connect wire_lib True (\<lambda>_. Inr 0) (\<lambda>i. if i = 1 then Received b2 else Timeout)
        (socket_new 0 0 sample_local sample_remote None Idle) = Ret (Some (), C, [b1, b3])
    \<and> socket_accept wire_lib True (\<lambda>_. Inr 0) (\<lambda>i. if i = 1 then Received b3 else Timeout) True
        (socket_new 0 1 sample_remote sample_local (Some 1) Idle) = Ret (True, D, [b2])"
  using handshake_completes [OF packet_layout_wire_lib sample_family] by blast


text \<open>
  C37: at most three connection requests. Each of the six iterations of the loop is either a send
  or a wait, so \<open>connect\<close> never sends more than three SYN packets, whatever the network does.
\<close>

theorem connect_syn_bound:
  assumes "packet_layout L"
    and "socket_connect L checks tr ev (socket_new k ch l r None Idle) = Ret (v, s', sent)"
  shows "syn_count L sent \<le> 3"
proof -
  have "in_handshake (socket_new k ch l r None Idle)"
    by (simp add: in_handshake_def socket_new_def)
  from packet_layout.connect_loop_syns [OF assms(1) assms(2)[unfolded socket_connect_def] this]
  show ?thesis by (simp add: RETRIES_def socket_new_def)
qed

theorem connect_syn_bound_witness:
  "\<exists>s' sent. socket_connect wire_lib True (\<lambda>_. Inl (Os 55)) (\<lambda>_. Timeout)
      (socket_new 0 0 sample_local sample_remote None Idle) = Ret (None, s', sent)
    \<and> syn_count wire_lib sent \<le> 3"
proof -
  have "wf_socket (socket_new 0 0 sample_local sample_remote None Idle)"
    using sample_family by (simp add: wf_socket_def socket_new_def)
  from wire.socket_build_ok [OF this fits_None, of 2] obtain b s' where
    "socket_build wire_lib (socket_new 0 0 sample_local sample_remote None Idle) 2 None = Ret (b, s')"
    by blast
  moreover have "state (socket_new 0 0 sample_local sample_remote None Idle) = Idle"
    by (simp add: socket_new_def)
  ultimately have "connect_step wire_lib True (Inl (Os 55)) Timeout
      (socket_new 0 0 sample_local sample_remote None Idle) = Ret (Some None, s', [b])"
    by (simp add: connect_step_def wire.SYN)
  then have "socket_connect wire_lib True (\<lambda>_. Inl (Os 55)) (\<lambda>_. Timeout)
      (socket_new 0 0 sample_local sample_remote None Idle) = Ret (None, s', [b])"
    by (simp add: socket_connect_def retries_list)
  with connect_syn_bound [OF packet_layout_wire_lib this] show ?thesis by blast
qed


text \<open>
  A silent peer. If nothing ever arrives and the device accepts every packet, \<open>connect\<close> sends
  exactly three SYN packets and returns \<open>None\<close>.
\<close>

theorem connect_silent_peer:
  assumes "packet_layout L" and "same_family l r"
  shows "\<exists>s' sent. socket_connect L checks (\<lambda>_. Inr n) (\<lambda>_. Timeout) (socket_new k ch l r None Idle)
      = Ret (None, s', sent) \<and> length sent = 3 \<and> syn_count L sent = 3"
proof -
  let ?s = "socket_new k ch l r None Idle"
  have wf: "wf_socket ?s" "state ?s = Idle"
    using assms(2) by (simp_all add: wf_socket_def socket_new_def)
  obtain b where b: "connect_step L checks (Inr n) Timeout ?s
      = Ret (None, ?s\<lparr>last_ack := 0, state := SynSent\<rparr>, [b])" "carries L b (out_segment ?s 2 None)"
    using packet_layout.connect_step_syn [OF assms(1) wf(2,1), of checks n Timeout]
    by (auto simp: socket_new_def)
  have idle: "?s\<lparr>last_ack := 0, state := Idle\<rparr> = ?s" by (simp add: socket_new_def)
  have "socket_connect L checks (\<lambda>_. Inr n) (\<lambda>_. Timeout) ?s = Ret (None, ?s, [b, b, b])"
    using b(1) idle
    by (simp add: socket_connect_def retries_list packet_layout.connect_step_timeout [OF assms(1)])
  moreover have "syn_count L [b, b, b] = 3"
    using syn_count_segments [of L "[b, b, b]" "replicate 3 (out_segment ?s 2 None)"] b(2)
    by (simp add: numeral_3_eq_3)
  ultimately show ?thesis by (intro exI [of _ ?s] exI [of _ "[b, b, b]"]) simp
qed

theorem connect_silent_peer_witness:
  "\<exists>s' sent. socket_connect wire_lib True (\<lambda>_. Inr 44) (\<lambda>_. Timeout)
      (socket_new 0 0 sample_local sample_remote None Idle) = Ret (None, s', sent)
    \<and> syn_count wire_lib sent = 3"
  using connect_silent_peer [OF packet_layout_wire_lib sample_family] by blast


text \<open>
  \<open>connect\<close> terminates without panicking in a build without overflow checks, whatever the device
  answers and whichever TCP packets arrive, as long as the channel stays open and carries packets
  the parser accepts.
\<close>

theorem connect_never_panics:
  assumes "packet_layout L" and "same_family l r"
    and "\<And>i. i < RETRIES \<Longrightarrow> \<exists>E. event_is L (ev i) E"
  shows "\<not> panics (socket_connect L False tr ev (socket_new k ch l r None Idle))"
proof -
  have "wf_socket (socket_new k ch l r None Idle)" "in_handshake (socket_new k ch l r None Idle)"
    using assms(2) by (simp_all add: wf_socket_def in_handshake_def socket_new_def)
  from packet_layout.connect_loop_total [OF assms(1) this, of "[0..<RETRIES]"] assms(3)
  show ?thesis by (auto simp: not_panics_iff socket_connect_def)
qed

theorem connect_never_panics_witness:
  "\<not> panics (socket_connect wire_lib False (\<lambda>_. Inr 44) (\<lambda>_. Timeout)
      (socket_new 0 0 sample_local sample_remote None Idle))"
  by (rule connect_never_panics [OF packet_layout_wire_lib sample_family]) (simp add: event_is_def)


text \<open>
  With overflow checks (a debug build), a peer that answers the SYN with a valid SYN+ACK whose
  sequence number is \<open>2 ^ 32 - 1\<close> makes \<open>connect\<close> panic: \<open>get_sequence() + 1\<close> is not a wrapping
  addition, unlike the one in \<open>recv\<close>.
\<close>

theorem connect_overflow_panics:
  assumes "packet_layout L" and "same_family l r" and "tr 0 = Inr n"
    and "ev 1 = Received b" and "carries L b S" and "seg_flags S = 18" and "seg_ack S = 1"
    and "seg_seq S = 4294967295"
  shows "socket_connect L True tr ev (socket_new k ch l r None Idle) = Panic Arithmetic_overflow"
proof -
  let ?s = "socket_new k ch l r None Idle"
  have wf: "wf_socket ?s" "state ?s = Idle"
    using assms(2) by (simp_all add: wf_socket_def socket_new_def)
  obtain b1 where b1: "connect_step L True (Inr n) (ev 0) ?s
      = Ret (None, ?s\<lparr>last_ack := 0, state := SynSent\<rparr>, [b1])"
    using packet_layout.connect_step_syn [OF assms(1) wf(2,1)] by (fastforce simp: socket_new_def)
  have "connect_step L True (tr 1) (Received b) (?s\<lparr>last_ack := 0, state := SynSent\<rparr>)
      = Panic Arithmetic_overflow"
    using packet_layout.connect_step_overflow [OF assms(1) _ _ assms(5-8)] by (simp add: socket_new_def)
  with b1 assms(3,4) show ?thesis
    by (simp add: socket_connect_def retries_list)
qed

theorem connect_overflow_panics_witness:
  "\<exists>b. socket_connect wire_lib True (\<lambda>_. Inr 44) (\<lambda>_. Received b)
      (socket_new 0 0 sample_local sample_remote None Idle) = Panic Arithmetic_overflow"
proof -
  have "same_family sample_remote sample_local" using sample_family by (simp add: same_family_def)
  from wire.build_carries [OF this fits_None, where seq = 4294967295 and ack = 1 and flags = 18]
  obtain b where "carries wire_lib b \<lparr>seg_src = strip_scope sample_remote,
      seg_dst = strip_scope sample_local, seg_seq = 4294967295, seg_ack = 1, seg_flags = 18,
      seg_data = payload_bytes None\<rparr>" by blast
  then show ?thesis
    using connect_overflow_panics [OF packet_layout_wire_lib sample_family, of "\<lambda>_. Inr 44" 44
        "\<lambda>_. Received b" b]
    by (intro exI [of _ b]) simp
qed


text \<open>
  C20: the client handshake refines its state machine. For every sequence of device answers and arriving
  packets, a run of \<open>connect\<close> that returns is the run of \<open>client_step\<close> on just these answers and the segments
  of just these packets, one step per iteration, with the same result and the same final socket, and the
  packets it sends carry exactly the segments of that run. The machine leaves no choice: it has at most
  one run on its inputs.
\<close>

theorem connect_refines:
  assumes "packet_layout L" and "socket_connect L checks tr ev s = Ret (v, s', sent)"
  shows "\<exists>segs. client_trace (connect_inputs L tr ev [0..<RETRIES]) s v s' segs \<and> list_all2 (carries L) sent segs
    \<and> (\<forall>u t segs'. client_trace (connect_inputs L tr ev [0..<RETRIES]) s u t segs' \<longrightarrow> u = v \<and> t = s' \<and> segs' = segs)"
  using packet_layout.connect_loop_refines [OF assms(1) assms(2) [unfolded socket_connect_def]] client_trace_unique by blast

theorem connect_refines_witness:
  "\<exists>ev s' sent segs. socket_connect wire_lib True (\<lambda>_. Inr 0) ev (socket_new 0 0 sample_local sample_remote None Idle)
      = Ret (Some (), s', sent)
    \<and> client_trace (connect_inputs wire_lib (\<lambda>_. Inr 0) ev [0..<RETRIES]) (socket_new 0 0 sample_local sample_remote None Idle) (Some ()) s' segs
    \<and> list_all2 (carries wire_lib) sent segs"
proof -
  obtain ev s' sent where r: "socket_connect wire_lib True (\<lambda>_. Inr 0) ev
      (socket_new 0 0 sample_local sample_remote None Idle) = Ret (Some (), s', sent)"
    using wire.handshake [OF sample_family] by blast
  from connect_refines [OF packet_layout_wire_lib r] r show ?thesis by blast
qed

end
