(* ===== verification/Stack.thy ===== *)
theory Stack
  imports Handshake
begin

text \<open>
  \<open>Stack\<close> of \<open>fake-tcp/src/lib.rs\<close>: the table of connections, the reader tasks that dispatch packets,
  port allocation, and the life cycle of sockets. Tasks interleave: every function below is one atomic
  part of a task, and \<open>stack_step\<close> in \<open>Dispatch\<close> runs them in any order. The channels of the crates
  \<open>flume\<close> and \<open>tokio\<close> are the parameter \<open>chan_lib\<close>.
\<close>

section \<open>Channels\<close>

text \<open>
  \<open>flume_send\<close> and \<open>mpsc_send\<close> are \<open>None\<close> while the channel is full, \<open>flume_recv\<close> and \<open>mpsc_recv\<close> while
  it is empty. \<open>broadcast_recv\<close> is \<open>None\<close> while there is nothing to receive, \<open>Some (None, _)\<close> for the
  error that the receiver lagged behind. Messages of the ready queue are socket identities.
\<close>

record ('c, 'm, 'b) chan_lib =
  flume_bounded :: "nat \<Rightarrow> 'c"
  flume_send :: "bytes \<Rightarrow> 'c \<Rightarrow> 'c option"
  flume_recv :: "'c \<Rightarrow> (bytes \<times> 'c) option"
  mpsc_channel :: "nat \<Rightarrow> 'm"
  mpsc_send :: "nat \<Rightarrow> 'm \<Rightarrow> 'm option"
  mpsc_recv :: "'m \<Rightarrow> (nat \<times> 'm) option"
  broadcast_channel :: "nat \<Rightarrow> 'b"
  broadcast_send :: "AddrTuple \<Rightarrow> 'b \<Rightarrow> 'b"
  broadcast_recv :: "'b \<Rightarrow> (AddrTuple option \<times> 'b) option"

section \<open>State\<close>

text \<open>
  Where a reader task stands: waiting in \<open>select!\<close>; about to send to the channel found in its cache
  (\<open>Cached\<close>); holding a sender cloned from the shared table (\<open>Found\<close>); sending to it (\<open>Sending\<close>);
  with a segment for which the shared table had no entry (\<open>Missing\<close>).
\<close>

datatype reader_pc =
    Waiting
  | Cached nat bytes
  | Found AddrTuple nat bytes
  | Sending nat bytes
  | Missing AddrTuple bytes

record 'b Reader =
  cache :: "AddrTuple \<rightharpoonup> nat"
  purge :: 'b
  pc :: reader_pc

text \<open>
  Who owns a socket: the task in \<open>connect\<close> or \<open>accept\<close> (with the number of loop iterations done), the
  task that hands it to the ready queue, that queue, or the caller.
\<close>

datatype role = Connecting nat | Accepting nat | Handing | Queued | Owned

text \<open>
  A socket and its channel share one identity. A channel is present while its receiver, the socket,
  lives; a reader is present until it panics. \<open>trace\<close> lists the packets handed to the devices.
\<close>

record ('c, 'm, 'b) Stack =
  tuples :: "AddrTuple \<rightharpoonup> nat"
  listening :: "u16 set"
  devices :: "nat list"
  ready :: 'm
  local_ip :: ipv4_addr
  local_ip6 :: "ipv6_addr option"
  channels :: "nat \<rightharpoonup> 'c"
  sockets :: "nat \<rightharpoonup> Socket \<times> role"
  readers :: "nat \<rightharpoonup> 'b Reader"
  next_id :: nat
  trace :: "(nat \<times> bytes) list"

definition stack_new ::
  "('c, 'm, 'b) chan_lib \<Rightarrow> nat list \<Rightarrow> ipv4_addr \<Rightarrow> ipv6_addr option \<Rightarrow> ('c, 'm, 'b) Stack" where
  "stack_new K tun_list ip ip6_opt =
     \<lparr>tuples = Map.empty, listening = {}, devices = tun_list, ready = mpsc_channel K MPSC_BUFFER_LEN,
      local_ip = ip, local_ip6 = ip6_opt, channels = Map.empty, sockets = Map.empty,
      readers = (\<lambda>t. if t \<in> set tun_list
                     then Some \<lparr>cache = Map.empty, purge = broadcast_channel K 16, pc = Waiting\<rparr>
                     else None),
      next_id = 0, trace = []\<rparr>"

definition listen :: "u16 \<Rightarrow> ('c, 'm, 'b) Stack \<Rightarrow> ('c, 'm, 'b) Stack outcome" where
  "listen port st =
     (if port \<in> listening st then Panic Assertion_failed
      else Ret (st\<lparr>listening := insert port (listening st)\<rparr>))"

text \<open>\<open>Stack::accept\<close>: the next socket of the ready queue, when there is one.\<close>

definition stack_accept ::
  "('c, 'm, 'b) chan_lib \<Rightarrow> ('c, 'm, 'b) Stack \<Rightarrow> (nat \<times> ('c, 'm, 'b) Stack) option" where
  "stack_accept K st =
     (case mpsc_recv K (ready st) of
        None \<Rightarrow> None
      | Some (i, q) \<Rightarrow>
          Some (i, st\<lparr>ready := q,
            sockets := (sockets st)(i := map_option (\<lambda>(s, _). (s, Owned)) (sockets st i))\<rparr>))"

section \<open>Registering and dropping sockets\<close>

text \<open>\<open>Socket::new\<close> and the insertion of its sender into the shared table.\<close>

definition register ::
  "('c, 'm, 'b) chan_lib \<Rightarrow> nat \<Rightarrow> AddrTuple \<Rightarrow> u32 option \<Rightarrow> role \<Rightarrow> ('c, 'm, 'b) Stack
     \<Rightarrow> ('c, 'm, 'b) Stack" where
  "register K device tuple ack_opt ro st =
     (let i = next_id st in
      st\<lparr>channels := (channels st)(i \<mapsto> flume_bounded K MPMC_BUFFER_LEN),
         sockets := (sockets st)(i \<mapsto>
           (socket_new device i (tuple_local tuple) (tuple_remote tuple) ack_opt Idle, ro)),
         tuples := (tuples st)(tuple \<mapsto> i), next_id := i + 1\<rparr>)"

text \<open>\<open>tuples_purge.send\<close> reaches every subscribed reader and fails when there is none.\<close>

definition purge_send ::
  "('c, 'm, 'b) chan_lib \<Rightarrow> AddrTuple \<Rightarrow> ('c, 'm, 'b) Stack \<Rightarrow> ('c, 'm, 'b) Stack outcome" where
  "purge_send K tuple st =
     (if list_all (\<lambda>t. readers st t = None) (devices st) then Panic Unwrap_failed
      else Ret (st\<lparr>readers := \<lambda>r. map_option (\<lambda>R. R\<lparr>purge := broadcast_send K tuple (purge R)\<rparr>)
             (readers st r)\<rparr>))"

text \<open>\<open>drop\<close> of socket \<open>i\<close>; the result of \<open>try_send\<close> is only logged.\<close>

definition socket_drop ::
  "packet_lib \<Rightarrow> ('c, 'm, 'b) chan_lib \<Rightarrow> nat \<Rightarrow> Socket \<Rightarrow> ('c, 'm, 'b) Stack
     \<Rightarrow> ('c, 'm, 'b) Stack outcome" where
  "socket_drop L K i s st =
     (let tuple = socket_tuple s in
      if tuples st tuple = None then Panic Assertion_failed
      else obind (purge_send K tuple (st\<lparr>tuples := (tuples st)(tuple := None)\<rparr>)) (\<lambda>st.
        obind (build_tcp_packet L (local_addr s) (remote_addr s) (seq s) 0 (RST L) None) (\<lambda>buf.
          Ret (st\<lparr>trace := trace st @ [(tun s, buf)],
                  sockets := (sockets st)(i := None), channels := (channels st)(i := None)\<rparr>))))"

section \<open>Opening connections\<close>

text \<open>\<open>shared.tun.choose(&mut rng)\<close>; \<open>draw\<close> is the random draw.\<close>

definition choose_device :: "nat \<Rightarrow> 'a list \<Rightarrow> 'a option" where
  "choose_device draw xs = (if xs = [] then None else Some (xs ! (draw mod length xs)))"

definition connect_local :: "socket_addr \<Rightarrow> u16 \<Rightarrow> ('c, 'm, 'b) Stack \<Rightarrow> socket_addr outcome" where
  "connect_local addr local_port st =
     (if is_ipv4 addr then Ret (socket_addr_new (IpV4 (local_ip st)) local_port)
      else case local_ip6 st of
        None \<Rightarrow> Panic (Expect_failed ''IPv6 local address undefined'')
      | Some ip \<Rightarrow> Ret (socket_addr_new (IpV6 ip) local_port))"

text \<open>
  The port loop of \<open>Stack::connect\<close> up to the handshake: the identity of the new socket, or \<open>None\<close>
  when every port of the list is in use.
\<close>

fun connect_ports ::
  "('c, 'm, 'b) chan_lib \<Rightarrow> nat \<Rightarrow> socket_addr \<Rightarrow> u16 list \<Rightarrow> ('c, 'm, 'b) Stack
     \<Rightarrow> (nat \<times> ('c, 'm, 'b) Stack) option outcome" where
  "connect_ports K draw addr [] st = Ret None"
| "connect_ports K draw addr (local_port # ports) st =
     obind (connect_local addr local_port st) (\<lambda>local.
       let tuple = AddrTuple local addr in
       if tuples st tuple \<noteq> None then connect_ports K draw addr ports st
       else case choose_device draw (devices st) of
         None \<Rightarrow> Panic Unwrap_failed
       | Some device \<Rightarrow>
           if tuples st tuple \<noteq> None then Panic Assertion_failed
           else Ret (Some (next_id st, register K device tuple None (Connecting 0) st)))"

text \<open>\<open>start..=60999\<close>, where \<open>start\<close> was drawn from \<open>32768..=60999\<close>.\<close>

definition port_range :: "nat \<Rightarrow> u16 list" where
  "port_range start = map word_of_nat [start..<61000]"

definition connect_open ::
  "('c, 'm, 'b) chan_lib \<Rightarrow> nat \<Rightarrow> nat \<Rightarrow> socket_addr \<Rightarrow> ('c, 'm, 'b) Stack
     \<Rightarrow> (nat \<times> ('c, 'm, 'b) Stack) option outcome" where
  "connect_open K start draw addr st = connect_ports K draw addr (port_range start) st"

text \<open>
  What the socket's channel yields within the timeout: a queued packet; the disconnection error when
  the table no longer holds its sender; otherwise the timeout.
\<close>

definition poll_channel ::
  "('c, 'm, 'b) chan_lib \<Rightarrow> nat \<Rightarrow> Socket \<Rightarrow> ('c, 'm, 'b) Stack \<Rightarrow> recv_event \<times> ('c, 'm, 'b) Stack"
where
  "poll_channel K i s st =
     (case channels st i of
        None \<Rightarrow> (Disconnected, st)
      | Some q \<Rightarrow>
          (case flume_recv K q of
             Some (b, q') \<Rightarrow> (Received b, st\<lparr>channels := (channels st)(i \<mapsto> q')\<rparr>)
           | None \<Rightarrow> (if tuples st (socket_tuple s) = Some i then Timeout else Disconnected, st)))"

definition poll_when ::
  "bool \<Rightarrow> ('c, 'm, 'b) chan_lib \<Rightarrow> nat \<Rightarrow> Socket \<Rightarrow> ('c, 'm, 'b) Stack
     \<Rightarrow> recv_event \<times> ('c, 'm, 'b) Stack" where
  "poll_when waits K i s st = (if waits then poll_channel K i s st else (Timeout, st))"

definition put_socket ::
  "nat \<Rightarrow> Socket \<Rightarrow> role \<Rightarrow> bytes list \<Rightarrow> ('c, 'm, 'b) Stack \<Rightarrow> ('c, 'm, 'b) Stack" where
  "put_socket i s ro out st =
     st\<lparr>sockets := (sockets st)(i \<mapsto> (s, ro)), trace := trace st @ map (Pair (tun s)) out\<rparr>"

text \<open>
  One iteration of the handshake of a socket in \<open>connect\<close>. When \<open>sock.connect()\<close> fails or its loop
  ends, \<open>Stack::connect\<close> drops the socket.
\<close>

definition connect_poll ::
  "packet_lib \<Rightarrow> ('c, 'm, 'b) chan_lib \<Rightarrow> bool \<Rightarrow> nat io \<Rightarrow> nat \<Rightarrow> Socket \<Rightarrow> nat \<Rightarrow> ('c, 'm, 'b) Stack
     \<Rightarrow> ('c, 'm, 'b) Stack outcome" where
  "connect_poll L K checks tun_result i s n st =
     (if n = RETRIES then socket_drop L K i s st
      else
        let (event, st) = poll_when (state s = SynSent) K i s st in
        obind (connect_step L checks tun_result event s) (\<lambda>(r, s, out).
          case r of
            None \<Rightarrow> Ret (put_socket i s (Connecting (n + 1)) out st)
          | Some (Some _) \<Rightarrow> Ret (put_socket i s Owned out st)
          | Some None \<Rightarrow> socket_drop L K i s (put_socket i s (Connecting n) out st)))"

text \<open>One iteration of \<open>Socket::accept\<close>; a socket that is not accepted is dropped.\<close>

definition accept_poll ::
  "packet_lib \<Rightarrow> ('c, 'm, 'b) chan_lib \<Rightarrow> bool \<Rightarrow> nat io \<Rightarrow> nat \<Rightarrow> Socket \<Rightarrow> nat \<Rightarrow> ('c, 'm, 'b) Stack
     \<Rightarrow> ('c, 'm, 'b) Stack outcome" where
  "accept_poll L K checks tun_result i s n st =
     (if n = RETRIES then socket_drop L K i s st
      else
        let (event, st) = poll_when (state s = SynReceived) K i s st in
        obind (accept_step L checks tun_result event True s) (\<lambda>(r, s, out).
          case r of
            None \<Rightarrow> Ret (put_socket i s (Accepting (n + 1)) out st)
          | Some True \<Rightarrow> Ret (put_socket i s Handing out st)
          | Some False \<Rightarrow> socket_drop L K i s (put_socket i s (Accepting n) out st)))"

text \<open>\<open>ready.send(self)\<close>: waits while the queue is full.\<close>

definition hand_over ::
  "('c, 'm, 'b) chan_lib \<Rightarrow> nat \<Rightarrow> Socket \<Rightarrow> ('c, 'm, 'b) Stack \<Rightarrow> ('c, 'm, 'b) Stack option" where
  "hand_over K i s st =
     (case mpsc_send K i (ready st) of
        None \<Rightarrow> None
      | Some q \<Rightarrow> Some (put_socket i s Queued [] (st\<lparr>ready := q\<rparr>)))"

section \<open>Reader tasks\<close>

definition packet_tuple :: "packet_lib \<Rightarrow> IPPacket \<Rightarrow> bytes \<Rightarrow> AddrTuple" where
  "packet_tuple L ip t =
     AddrTuple (socket_addr_new (get_destination L ip) (tcp_get_destination (tcp L) t))
               (socket_addr_new (get_source L ip) (tcp_get_source (tcp L) t))"

definition set_reader :: "nat \<Rightarrow> 'b Reader \<Rightarrow> ('c, 'm, 'b) Stack \<Rightarrow> ('c, 'm, 'b) Stack" where
  "set_reader r R st = st\<lparr>readers := (readers st)(r \<mapsto> R)\<rparr>"

text \<open>The device of reader \<open>r\<close> delivered \<open>received\<close>.\<close>

definition reader_recv ::
  "packet_lib \<Rightarrow> bytes io \<Rightarrow> nat \<Rightarrow> 'b Reader \<Rightarrow> ('c, 'm, 'b) Stack \<Rightarrow> ('c, 'm, 'b) Stack outcome"
where
  "reader_recv L received r R st =
     (case received of
        Inl e \<Rightarrow> Panic Unwrap_failed
      | Inr buf \<Rightarrow>
          obind (parse_ip_packet L buf) (\<lambda>parsed.
            case parsed of
              None \<Rightarrow> Ret st
            | Some (ip, t) \<Rightarrow>
                let tuple = packet_tuple L ip t in
                case cache R tuple of
                  Some c \<Rightarrow> Ret (set_reader r (R\<lparr>pc := Cached c buf\<rparr>) st)
                | None \<Rightarrow>
                    (case tuples st tuple of
                       Some c \<Rightarrow> Ret (set_reader r (R\<lparr>pc := Found tuple c buf\<rparr>) st)
                     | None \<Rightarrow> Ret (set_reader r (R\<lparr>pc := Missing tuple t\<rparr>) st))))"

text \<open>\<open>send_async\<close>: waits (\<open>None\<close>) while the channel is full, fails when the receiver is gone.\<close>

definition channel_send ::
  "('c, 'm, 'b) chan_lib \<Rightarrow> nat \<Rightarrow> bytes \<Rightarrow> ('c, 'm, 'b) Stack \<Rightarrow> ('c, 'm, 'b) Stack option option" where
  "channel_send K c buf st =
     (case channels st c of
        None \<Rightarrow> Some None
      | Some q \<Rightarrow>
          (case flume_send K buf q of
             None \<Rightarrow> None
           | Some q' \<Rightarrow> Some (Some (st\<lparr>channels := (channels st)(c \<mapsto> q')\<rparr>))))"

text \<open>A segment without a socket: a SYN for a listening port opens one, others are reset.\<close>

definition reply_rst ::
  "packet_lib \<Rightarrow> unit io \<Rightarrow> AddrTuple \<Rightarrow> u32 \<Rightarrow> u32 \<Rightarrow> ('c, 'm, 'b) Stack
     \<Rightarrow> ('c, 'm, 'b) Stack outcome" where
  "reply_rst L try_result tuple sq ak st =
     obind (build_tcp_packet L (tuple_local tuple) (tuple_remote tuple) sq ak (RST L OR ACK L) None)
       (\<lambda>buf. case devices st of
          [] \<Rightarrow> Panic Index_out_of_bounds
        | d # _ \<Rightarrow> (case try_result of
              Inl e \<Rightarrow> Panic Unwrap_failed
            | Inr _ \<Rightarrow> Ret (st\<lparr>trace := trace st @ [(d, buf)]\<rparr>)))"

definition reader_unknown ::
  "packet_lib \<Rightarrow> ('c, 'm, 'b) chan_lib \<Rightarrow> bool \<Rightarrow> unit io \<Rightarrow> nat \<Rightarrow> AddrTuple \<Rightarrow> bytes
     \<Rightarrow> ('c, 'm, 'b) Stack \<Rightarrow> ('c, 'm, 'b) Stack outcome" where
  "reader_unknown L K checks try_result r tuple t st =
     (let sequence = tcp_get_sequence (tcp L) t;
          payload_len = word_of_nat (length (tcp_payload (tcp L) t)) in
      if tcp_get_flags (tcp L) t = SYN L \<and> tcp_get_destination (tcp L) t \<in> listening st then
        if sequence = 0 then
          obind (add_u32 checks sequence 1) (\<lambda>a.
            if tuples st tuple \<noteq> None then Panic Assertion_failed
            else Ret (register K r tuple (Some a) (Accepting 0) st))
        else
          obind (add_u32 checks sequence payload_len) (\<lambda>a.
          obind (add_u32 checks a 1) (\<lambda>a. reply_rst L try_result tuple 0 a st))
      else if tcp_get_flags (tcp L) t AND RST L = 0 then
        obind (add_u32 checks sequence payload_len) (\<lambda>a.
          reply_rst L try_result tuple (tcp_get_acknowledgement (tcp L) t) a st)
      else Ret st)"

text \<open>What reader \<open>r\<close> does after a packet has been read; \<open>None\<close> while it has to wait.\<close>

definition reader_act ::
  "packet_lib \<Rightarrow> ('c, 'm, 'b) chan_lib \<Rightarrow> bool \<Rightarrow> unit io \<Rightarrow> nat \<Rightarrow> 'b Reader \<Rightarrow> ('c, 'm, 'b) Stack
     \<Rightarrow> ('c, 'm, 'b) Stack outcome option" where
  "reader_act L K checks try_result r R st =
     (let idle = set_reader r (R\<lparr>pc := Waiting\<rparr>) in
      case pc R of
        Waiting \<Rightarrow> None
      | Cached c buf \<Rightarrow>
          (case channel_send K c buf st of
             None \<Rightarrow> None
           | Some None \<Rightarrow> Some (Ret (idle st))
           | Some (Some st) \<Rightarrow> Some (Ret (idle st)))
      | Found tuple c buf \<Rightarrow>
          Some (Ret (set_reader r (R\<lparr>cache := (cache R)(tuple \<mapsto> c), pc := Sending c buf\<rparr>) st))
      | Sending c buf \<Rightarrow>
          (case channel_send K c buf st of
             None \<Rightarrow> None
           | Some None \<Rightarrow> Some (Panic Unwrap_failed)
           | Some (Some st) \<Rightarrow> Some (Ret (idle st)))
      | Missing tuple t \<Rightarrow>
          Some (obind (reader_unknown L K checks try_result r tuple t st) (\<lambda>st. Ret (idle st))))"

text \<open>The other branch of \<open>select!\<close>: the next purge message.\<close>

definition reader_purge ::
  "('c, 'm, 'b) chan_lib \<Rightarrow> nat \<Rightarrow> 'b Reader \<Rightarrow> ('c, 'm, 'b) Stack
     \<Rightarrow> ('c, 'm, 'b) Stack outcome option" where
  "reader_purge K r R st =
     (case broadcast_recv K (purge R) of
        None \<Rightarrow> None
      | Some (None, b) \<Rightarrow> Some (Panic Unwrap_failed)
      | Some (Some tuple, b) \<Rightarrow>
          Some (Ret (set_reader r (R\<lparr>cache := (cache R)(tuple := None), purge := b\<rparr>) st)))"

text \<open>A reader task that panics ends; its cached senders and its purge receiver are dropped.\<close>

definition reader_dies :: "nat \<Rightarrow> ('c, 'm, 'b) Stack \<Rightarrow> ('c, 'm, 'b) Stack" where
  "reader_dies r st = st\<lparr>readers := (readers st)(r := None)\<rparr>"

text \<open>
  One turn of the reader's loop with nobody in between, from the packet \<open>buf\<close> that \<open>recv\<close> returned to the next
  \<open>select!\<close>; a packet needs at most two more parts. \<open>None\<close> while the reader has to wait for a full channel.
\<close>

fun reader_finish ::
  "packet_lib \<Rightarrow> ('c, 'm, 'b) chan_lib \<Rightarrow> bool \<Rightarrow> unit io \<Rightarrow> nat \<Rightarrow> nat \<Rightarrow> ('c, 'm, 'b) Stack
     \<Rightarrow> ('c, 'm, 'b) Stack outcome option" where
  "reader_finish L K checks try_result 0 r st = Some (Ret st)"
| "reader_finish L K checks try_result (Suc n) r st =
     (case readers st r of
        None \<Rightarrow> Some (Ret st)
      | Some R \<Rightarrow>
          if pc R = Waiting then Some (Ret st)
          else case reader_act L K checks try_result r R st of
            None \<Rightarrow> None
          | Some (Panic p) \<Rightarrow> Some (Panic p)
          | Some (Ret st) \<Rightarrow> reader_finish L K checks try_result n r st)"

definition reader_turn ::
  "packet_lib \<Rightarrow> ('c, 'm, 'b) chan_lib \<Rightarrow> bool \<Rightarrow> unit io \<Rightarrow> nat \<Rightarrow> 'b Reader \<Rightarrow> bytes \<Rightarrow> ('c, 'm, 'b) Stack
     \<Rightarrow> ('c, 'm, 'b) Stack outcome option" where
  "reader_turn L K checks try_result r R buf st =
     (case reader_recv L (Inr buf) r R st of
        Panic p \<Rightarrow> Some (Panic p)
      | Ret st \<Rightarrow> reader_finish L K checks try_result 2 r st)"

end
