(* ===== verification/Dispatch.thy ===== *)
theory Dispatch
  imports Stack
begin

text \<open>
  Correctness of the connection table and of the reader tasks under every interleaving: the contract
  of the channels, the step relation, its invariant, and what follows for dispatch, closing, port
  allocation and resets.
\<close>

section \<open>The contract of the channels\<close>

text \<open>
  \<open>queued\<close>, \<open>backlog\<close> and \<open>pending\<close> are the undelivered messages of a \<open>flume\<close> channel, of the ready
  queue and of one broadcast receiver, oldest first; \<open>capacity\<close> is the size of the broadcast channel.
\<close>

locale channel_laws =
  fixes K :: "('c, 'm, 'b) chan_lib"
    and queued :: "'c \<Rightarrow> bytes list"
    and backlog :: "'m \<Rightarrow> nat list"
    and pending :: "'b \<Rightarrow> AddrTuple list"
    and capacity :: "'b \<Rightarrow> nat"
  assumes flume_new: "queued (flume_bounded K n) = []"
    and flume_push: "flume_send K x q = Some q' \<Longrightarrow> queued q' = queued q @ [x]"
    and flume_pop: "flume_recv K q = Some (x, q') \<Longrightarrow> queued q = x # queued q'"
    and flume_empty: "flume_recv K q = None \<longleftrightarrow> queued q = []"
    and mpsc_new: "backlog (mpsc_channel K n) = []"
    and mpsc_push: "mpsc_send K i m = Some m' \<Longrightarrow> backlog m' = backlog m @ [i]"
    and mpsc_pop: "mpsc_recv K m = Some (i, m') \<Longrightarrow> backlog m = i # backlog m'"
    and broadcast_new: "pending (broadcast_channel K n) = []" "capacity (broadcast_channel K n) = n"
    and broadcast_push: "pending (broadcast_send K t b) = pending b @ [t]"
      "capacity (broadcast_send K t b) = capacity b"
    and broadcast_pop: "broadcast_recv K b = Some (Some t, b') \<Longrightarrow> pending b = t # pending b'"
      "broadcast_recv K b = Some (Some t, b') \<Longrightarrow> capacity b' = capacity b"
    and broadcast_empty: "broadcast_recv K b = None \<longleftrightarrow> pending b = []"
    and broadcast_lag: "(\<exists>b'. broadcast_recv K b = Some (None, b')) \<longleftrightarrow> capacity b < length (pending b)"

section \<open>Steps\<close>

definition ephemeral :: "u16 \<Rightarrow> bool" where
  "ephemeral p \<longleftrightarrow> 32768 \<le> unat p \<and> unat p \<le> 60999"

fun received :: "recv_event \<Rightarrow> bytes option" where
  "received (Received b) = Some b"
| "received _ = None"

text \<open>
  One atomic part of any task. A server listens on ports outside the range \<open>connect\<close> draws from; the
  panic of a handshake unwinds the task that owns the socket and so drops it, with whatever numbers
  the socket had reached (\<open>same_ends\<close>); a panic of a reader ends that reader. A failed assertion of a
  reader has no rule: no reachable state has one, as \<open>Dispatch_Properties\<close> shows.
\<close>

definition same_ends :: "Socket \<Rightarrow> Socket \<Rightarrow> bool" where
  "same_ends s s' \<longleftrightarrow> socket_tuple s' = socket_tuple s \<and> tun s' = tun s"

inductive stack_step ::
  "packet_lib \<Rightarrow> ('c, 'm, 'b) chan_lib \<Rightarrow> bool \<Rightarrow> ('c, 'm, 'b) Stack \<Rightarrow> ('c, 'm, 'b) Stack \<Rightarrow> bool"
  for L :: packet_lib and K :: "('c, 'm, 'b) chan_lib" and checks :: bool
where
  listens: "listen port st = Ret st' \<Longrightarrow> \<not> ephemeral port \<Longrightarrow> stack_step L K checks st st'"
| accepts: "stack_accept K st = Some (i, st') \<Longrightarrow> stack_step L K checks st st'"
| opens: "connect_open K start draw addr st = Ret (Some (i, st')) \<Longrightarrow> 32768 \<le> start \<Longrightarrow> start \<le> 60999
    \<Longrightarrow> stack_step L K checks st st'"
| connects: "sockets st i = Some (s, Connecting n) \<Longrightarrow> connect_poll L K checks res i s n st = Ret st'
    \<Longrightarrow> stack_step L K checks st st'"
| connect_unwinds: "sockets st i = Some (s, Connecting n) \<Longrightarrow> n \<noteq> RETRIES
    \<Longrightarrow> poll_when (state s = SynSent) K i s st = (ev, st1) \<Longrightarrow> connect_step L checks res ev s = Panic p
    \<Longrightarrow> same_ends s s' \<Longrightarrow> socket_drop L K i s' st1 = Ret st' \<Longrightarrow> stack_step L K checks st st'"
| accept_polls: "sockets st i = Some (s, Accepting n) \<Longrightarrow> accept_poll L K checks res i s n st = Ret st'
    \<Longrightarrow> stack_step L K checks st st'"
| accept_unwinds: "sockets st i = Some (s, Accepting n) \<Longrightarrow> n \<noteq> RETRIES
    \<Longrightarrow> poll_when (state s = SynReceived) K i s st = (ev, st1)
    \<Longrightarrow> accept_step L checks res ev True s = Panic p
    \<Longrightarrow> same_ends s s' \<Longrightarrow> socket_drop L K i s' st1 = Ret st' \<Longrightarrow> stack_step L K checks st st'"
| hands: "sockets st i = Some (s, Handing) \<Longrightarrow> hand_over K i s st = Some st' \<Longrightarrow> stack_step L K checks st st'"
| sends: "sockets st i = Some (s, Owned) \<Longrightarrow> socket_send L res payload s = Ret (v, s', buf)
    \<Longrightarrow> stack_step L K checks st (put_socket i s' Owned [buf] st)"
| receives: "sockets st i = Some (s, Owned) \<Longrightarrow> poll_channel K i s st = (ev, st1) \<Longrightarrow> ev \<noteq> Timeout
    \<Longrightarrow> socket_recv L (received ev) buf s = Ret (v, s', buf', out)
    \<Longrightarrow> stack_step L K checks st (put_socket i s' Owned out st1)"
| closes: "sockets st i = Some (s, Owned) \<Longrightarrow> socket_drop L K i s st = Ret st'
    \<Longrightarrow> stack_step L K checks st st'"
| reads: "readers st r = Some R \<Longrightarrow> pc R = Waiting \<Longrightarrow> reader_recv L rcv r R st = Ret st'
    \<Longrightarrow> stack_step L K checks st st'"
| read_panics: "readers st r = Some R \<Longrightarrow> pc R = Waiting \<Longrightarrow> reader_recv L rcv r R st = Panic p
    \<Longrightarrow> stack_step L K checks st (reader_dies r st)"
| acts: "readers st r = Some R \<Longrightarrow> reader_act L K checks try_res r R st = Some (Ret st')
    \<Longrightarrow> stack_step L K checks st st'"
| act_panics: "readers st r = Some R \<Longrightarrow> reader_act L K checks try_res r R st = Some (Panic p)
    \<Longrightarrow> p \<noteq> Assertion_failed \<Longrightarrow> stack_step L K checks st (reader_dies r st)"
| purges: "readers st r = Some R \<Longrightarrow> pc R = Waiting \<Longrightarrow> reader_purge K r R st = Some (Ret st')
    \<Longrightarrow> stack_step L K checks st st'"
| purge_panics: "readers st r = Some R \<Longrightarrow> pc R = Waiting \<Longrightarrow> reader_purge K r R st = Some (Panic p)
    \<Longrightarrow> stack_step L K checks st (reader_dies r st)"

section \<open>The invariant\<close>

definition packet_for :: "packet_lib \<Rightarrow> AddrTuple \<Rightarrow> bytes \<Rightarrow> bool" where
  "packet_for L tuple b \<longleftrightarrow>
     (\<exists>ip t. parse_ip_packet L b = Ret (Some (ip, t)) \<and> tuple = packet_tuple L ip t)"

definition tuple_family :: "AddrTuple \<Rightarrow> bool" where
  "tuple_family t \<longleftrightarrow> same_family (tuple_local t) (tuple_remote t)"

text \<open>The table lists exactly the live sockets, each under its own addresses.\<close>

definition table_ok :: "('c, 'm, 'b) Stack \<Rightarrow> bool" where
  "table_ok st \<longleftrightarrow>
     (\<forall>t c. tuples st t = Some c \<longleftrightarrow> (\<exists>s ro. sockets st c = Some (s, ro) \<and> socket_tuple s = t))
     \<and> dom (channels st) = dom (sockets st) \<and> (\<forall>c \<in> dom (sockets st). c < next_id st)"

fun role_state :: "role \<Rightarrow> State set" where
  "role_state (Connecting n) = (if n \<le> RETRIES then {Idle, SynSent} else {})"
| "role_state (Accepting n) = (if n \<le> RETRIES then {Idle, SynReceived} else {})"
| "role_state _ = {Established}"

definition sockets_ok :: "('c, 'm, 'b) Stack \<Rightarrow> bool" where
  "sockets_ok st \<longleftrightarrow> (\<forall>i s ro. sockets st i = Some (s, ro) \<longrightarrow>
     state s \<in> role_state ro \<and> tuple_family (socket_tuple s))"

definition ready_ok :: "('m \<Rightarrow> nat list) \<Rightarrow> ('c, 'm, 'b) Stack \<Rightarrow> bool" where
  "ready_ok backlog st \<longleftrightarrow> distinct (backlog (ready st))
     \<and> (\<forall>i \<in> set (backlog (ready st)). \<exists>s. sockets st i = Some (s, Queued))"

definition queues_ok :: "packet_lib \<Rightarrow> ('c \<Rightarrow> bytes list) \<Rightarrow> ('c, 'm, 'b) Stack \<Rightarrow> bool" where
  "queues_ok L queued st \<longleftrightarrow> (\<forall>i s ro q. sockets st i = Some (s, ro) \<longrightarrow> channels st i = Some q \<longrightarrow>
     list_all (packet_for L (socket_tuple s)) (queued q))"

text \<open>
  A sender that a reader holds for a tuple is the one in the table, or its socket is gone and the
  purge message for the tuple is still to be read.
\<close>

definition sender_ok ::
  "('b \<Rightarrow> AddrTuple list) \<Rightarrow> ('c, 'm, 'b) Stack \<Rightarrow> 'b Reader \<Rightarrow> AddrTuple \<Rightarrow> nat \<Rightarrow> bool" where
  "sender_ok pending st R t c \<longleftrightarrow> c < next_id st
     \<and> (tuples st t = Some c \<or> sockets st c = None \<and> t \<in> set (pending (purge R)))"

definition target_ok :: "packet_lib \<Rightarrow> ('c, 'm, 'b) Stack \<Rightarrow> nat \<Rightarrow> bytes \<Rightarrow> bool" where
  "target_ok L st c b \<longleftrightarrow> c < next_id st
     \<and> (\<forall>s ro. sockets st c = Some (s, ro) \<longrightarrow> packet_for L (socket_tuple s) b)"

fun pc_ok ::
  "packet_lib \<Rightarrow> ('b \<Rightarrow> AddrTuple list) \<Rightarrow> ('c, 'm, 'b) Stack \<Rightarrow> 'b Reader \<Rightarrow> reader_pc \<Rightarrow> bool" where
  "pc_ok L pending st R Waiting = True"
| "pc_ok L pending st R (Cached c b) = target_ok L st c b"
| "pc_ok L pending st R (Sending c b) = target_ok L st c b"
| "pc_ok L pending st R (Found t c b) = (sender_ok pending st R t c \<and> packet_for L t b)"
| "pc_ok L pending st R (Missing t seg) = (tuple_family t
     \<and> addr_port (tuple_local t) = tcp_get_destination (tcp L) seg
     \<and> (tuples st t = None \<or> ephemeral (addr_port (tuple_local t))))"

definition reader_ok ::
  "packet_lib \<Rightarrow> ('b \<Rightarrow> AddrTuple list) \<Rightarrow> ('c, 'm, 'b) Stack \<Rightarrow> 'b Reader \<Rightarrow> bool" where
  "reader_ok L pending st R \<longleftrightarrow> pc_ok L pending st R (pc R)
     \<and> (\<forall>t c. cache R t = Some c \<longrightarrow> sender_ok pending st R t c)"

definition stack_inv ::
  "packet_lib \<Rightarrow> ('c \<Rightarrow> bytes list) \<Rightarrow> ('m \<Rightarrow> nat list) \<Rightarrow> ('b \<Rightarrow> AddrTuple list)
     \<Rightarrow> ('c, 'm, 'b) Stack \<Rightarrow> bool" where
  "stack_inv L queued backlog pending st \<longleftrightarrow>
     table_ok st \<and> sockets_ok st \<and> ready_ok backlog st \<and> queues_ok L queued st
     \<and> (\<exists>d. devices st = [d] \<and> dom (readers st) \<subseteq> {d})
     \<and> (\<forall>p \<in> listening st. \<not> ephemeral p)
     \<and> (\<forall>r R. readers st r = Some R \<longrightarrow> reader_ok L pending st R)"
section \<open>What the socket operations keep\<close>

lemma same_ends_refl [simp]: "same_ends s s"
  by (simp add: same_ends_def)

lemma same_ends_update [simp]:
  "same_ends s (s'\<lparr>seq := a\<rparr>) = same_ends s s'" "same_ends s (s'\<lparr>ack := a\<rparr>) = same_ends s s'"
  "same_ends s (s'\<lparr>last_ack := a\<rparr>) = same_ends s s'" "same_ends s (s'\<lparr>state := x\<rparr>) = same_ends s s'"
  by (simp_all add: same_ends_def socket_tuple_def)

lemma socket_build_ends: "socket_build L s flags payload = Ret (b, s') \<Longrightarrow> same_ends s s' \<and> state s' = state s"
  by (auto simp: socket_build_def Let_def obind_eq_Ret_iff)

lemma socket_send_ends:
  "socket_send L res payload s = Ret (v, s', buf) \<Longrightarrow> same_ends s s' \<and> state s' = state s"
  by (auto simp: socket_send_def Let_def obind_eq_Ret_iff dest!: socket_build_ends split: State.splits)

lemma same_ends_trans: "same_ends a b \<Longrightarrow> same_ends b c \<Longrightarrow> same_ends a c"
  by (simp add: same_ends_def)

lemma socket_recv_ends:
  "socket_recv L raw buf s = Ret (v, s', buf', out) \<Longrightarrow> same_ends s s' \<and> state s' = state s"
  by (auto simp: socket_recv_def Let_def obind_eq_Ret_iff same_ends_def socket_tuple_def dest!: socket_build_ends
      split: State.splits option.splits if_splits)

lemma connect_step_ends:
  assumes "connect_step L checks res ev s = Ret (r, s', out)"
  shows "same_ends s s'" "r = None \<Longrightarrow> state s' \<in> {Idle, SynSent}"
    "r = Some (Some ()) \<Longrightarrow> state s' = Established" "r = Some None \<Longrightarrow> state s' \<in> {Idle, SynSent}"
  using assms
  by (cases res; auto simp: connect_step_def Let_def obind_eq_Ret_iff same_ends_def socket_tuple_def
      dest!: socket_build_ends split: State.splits recv_event.splits if_splits)+

lemma accept_step_ends:
  assumes "accept_step L checks res ev True s = Ret (r, s', out)"
  shows "same_ends s s'" "r = None \<Longrightarrow> state s' \<in> {Idle, SynReceived}"
    "r = Some True \<Longrightarrow> state s' = Established" "r = Some False \<Longrightarrow> state s' \<in> {Idle, SynReceived}"
  using assms
  by (cases res; auto simp: accept_step_def Let_def obind_eq_Ret_iff same_ends_def socket_tuple_def
      dest!: socket_build_ends split: State.splits recv_event.splits if_splits)+

section \<open>Elementary changes keep the invariant\<close>

lemma table_okD:
  assumes "table_ok st" "sockets st c = Some (s, ro)"
  shows "tuples st (socket_tuple s) = Some c" "channels st c \<noteq> None" "c < next_id st"
  using assms unfolding table_ok_def by blast+

lemma table_ok_owner:
  "table_ok st \<Longrightarrow> tuples st t = Some c \<Longrightarrow> \<exists>s ro. sockets st c = Some (s, ro) \<and> socket_tuple s = t"
  unfolding table_ok_def by blast

lemma sender_target:
  assumes "table_ok st" "sender_ok pending st R t c" "packet_for L t b"
  shows "target_ok L st c b"
  using assms table_ok_owner [OF assms(1), of t c] unfolding sender_ok_def target_ok_def by auto

lemma put_socket_sel [simp]:
  "tuples (put_socket i s ro out st) = tuples st" "channels (put_socket i s ro out st) = channels st"
  "readers (put_socket i s ro out st) = readers st" "next_id (put_socket i s ro out st) = next_id st"
  "listening (put_socket i s ro out st) = listening st" "devices (put_socket i s ro out st) = devices st"
  "ready (put_socket i s ro out st) = ready st"
  "sockets (put_socket i s ro out st) = (sockets st)(i \<mapsto> (s, ro))"
  "trace (put_socket i s ro out st) = trace st @ map (Pair (tun s)) out"
  by (simp_all add: put_socket_def)

lemma set_reader_sel [simp]:
  "tuples (set_reader r R st) = tuples st" "channels (set_reader r R st) = channels st"
  "readers (set_reader r R st) = (readers st)(r \<mapsto> R)" "next_id (set_reader r R st) = next_id st"
  "listening (set_reader r R st) = listening st" "devices (set_reader r R st) = devices st"
  "ready (set_reader r R st) = ready st" "sockets (set_reader r R st) = sockets st"
  "trace (set_reader r R st) = trace st"
  by (simp_all add: set_reader_def)

text \<open>A socket is replaced by one with the same ends.\<close>

lemma put_socket_sender:
  "sockets st i \<noteq> None \<Longrightarrow> sender_ok pending (put_socket i s ro out st) R t c = sender_ok pending st R t c"
  by (auto simp: sender_ok_def)

lemma put_socket_target:
  "sockets st i = Some (s0, ro0) \<Longrightarrow> socket_tuple s = socket_tuple s0
    \<Longrightarrow> target_ok L (put_socket i s ro out st) c b = target_ok L st c b"
  by (auto simp: target_ok_def)

lemma put_socket_reader:
  assumes "sockets st i = Some (s0, ro0)" "socket_tuple s = socket_tuple s0" "reader_ok L pending st R"
  shows "reader_ok L pending (put_socket i s ro out st) R"
  using assms unfolding reader_ok_def
  by (cases "pc R") (auto simp: put_socket_sender put_socket_target)

lemma put_socket_inv:
  assumes inv: "stack_inv L queued backlog pending st" and i: "sockets st i = Some (s0, ro0)"
    and ends: "same_ends s0 s" "state s \<in> role_state ro" "ro0 = Queued \<longrightarrow> ro = Queued"
  shows "stack_inv L queued backlog pending (put_socket i s ro out st)"
proof -
  let ?st = "put_socket i s ro out st"
  have t: "socket_tuple s = socket_tuple s0" using ends(1) by (simp add: same_ends_def)
  have "table_ok ?st"
    using inv i t unfolding stack_inv_def table_ok_def by (auto split: if_splits)
  moreover have "sockets_ok ?st"
    using inv i t ends(2) unfolding stack_inv_def sockets_ok_def by (auto split: if_splits)
  moreover have "ready_ok backlog ?st"
    using inv i ends(3) unfolding stack_inv_def ready_ok_def by fastforce
  moreover have "queues_ok L queued ?st"
    using inv i t unfolding stack_inv_def queues_ok_def by (auto split: if_splits)
  moreover have "reader_ok L pending ?st R" if "readers st r = Some R" for r R
    using inv that put_socket_reader [OF i t, of L pending R] unfolding stack_inv_def by blast
  ultimately show ?thesis using inv unfolding stack_inv_def by simp
qed
lemma reader_ok_frame:
  "reader_ok L pending st R \<Longrightarrow> tuples st' = tuples st \<Longrightarrow> sockets st' = sockets st \<Longrightarrow> next_id st' = next_id st
    \<Longrightarrow> reader_ok L pending st' R"
  unfolding reader_ok_def by (cases "pc R") (auto simp: sender_ok_def target_ok_def)

lemma queue_update_inv:
  assumes inv: "stack_inv L queued backlog pending st" and i: "channels st i = Some q"
    and q': "\<And>s ro. sockets st i = Some (s, ro) \<Longrightarrow> list_all (packet_for L (socket_tuple s)) (queued q)
      \<Longrightarrow> list_all (packet_for L (socket_tuple s)) (queued q')"
  shows "stack_inv L queued backlog pending (st\<lparr>channels := (channels st)(i \<mapsto> q')\<rparr>)"
proof -
  let ?st = "st\<lparr>channels := (channels st)(i \<mapsto> q')\<rparr>"
  have "i \<in> dom (sockets st)" using inv i unfolding stack_inv_def table_ok_def by blast
  then have tab: "table_ok ?st" using inv unfolding stack_inv_def table_ok_def by (simp add: insert_absorb)
  have old: "list_all (packet_for L (socket_tuple s)) (queued p)"
    if "sockets st j = Some (s, ro)" "channels st j = Some p" for j s ro p
    using inv that unfolding stack_inv_def queues_ok_def by blast
  moreover have "queues_ok L queued ?st"
    by (auto simp: queues_ok_def split: if_splits intro: q' old i)
  moreover have "reader_ok L pending ?st R" if "readers st r = Some R" for r R
    using inv that reader_ok_frame [of L pending st R ?st] unfolding stack_inv_def by simp
  ultimately show ?thesis
    using inv tab unfolding stack_inv_def sockets_ok_def ready_ok_def by simp
qed

text \<open>Changes that leave sockets, channels and the table alone.\<close>

lemma stack_inv_frame:
  assumes inv: "stack_inv L queued backlog pending st"
    and same: "tuples st' = tuples st" "sockets st' = sockets st" "channels st' = channels st"
      "next_id st' = next_id st" "ready st' = ready st" "devices st' = devices st"
    and ports: "\<forall>p \<in> listening st'. \<not> ephemeral p"
    and rd: "\<And>r R. readers st' r = Some R \<Longrightarrow> readers st r \<noteq> None \<and> reader_ok L pending st R"
  shows "stack_inv L queued backlog pending st'"
proof -
  have "table_ok st'" "sockets_ok st'" "ready_ok backlog st'" "queues_ok L queued st'"
    using inv unfolding stack_inv_def table_ok_def sockets_ok_def ready_ok_def queues_ok_def same by simp_all
  moreover have "\<exists>d. devices st' = [d] \<and> dom (readers st') \<subseteq> {d}"
    using inv rd unfolding stack_inv_def same by blast
  moreover have "reader_ok L pending st' R" if "readers st' r = Some R" for r R
    using rd [OF that] reader_ok_frame [of L pending st R st'] same by blast
  ultimately show ?thesis using ports unfolding stack_inv_def by blast
qed

lemma stack_invD:
  assumes "stack_inv L queued backlog pending st"
  shows "table_ok st" "sockets_ok st" "ready_ok backlog st" "queues_ok L queued st"
    "\<forall>p \<in> listening st. \<not> ephemeral p" "readers st r = Some R \<Longrightarrow> reader_ok L pending st R"
  using assms unfolding stack_inv_def by blast+

lemma set_reader_inv:
  assumes inv: "stack_inv L queued backlog pending st" and "readers st r = Some R0"
    and "reader_ok L pending st R"
  shows "stack_inv L queued backlog pending (set_reader r R st)"
  by (rule stack_inv_frame [OF inv])
    (use assms stack_invD [OF inv] in \<open>auto split: if_splits\<close>)

lemma reader_dies_inv:
  assumes inv: "stack_inv L queued backlog pending st"
  shows "stack_inv L queued backlog pending (reader_dies r st)"
  by (rule stack_inv_frame [OF inv])
    (use stack_invD [OF inv] in \<open>auto simp: reader_dies_def split: if_splits\<close>)

lemma trace_inv:
  assumes inv: "stack_inv L queued backlog pending st"
  shows "stack_inv L queued backlog pending (st\<lparr>trace := x\<rparr>)"
  by (rule stack_inv_frame [OF inv]) (use stack_invD [OF inv] in auto)

lemma listen_inv:
  assumes inv: "stack_inv L queued backlog pending st" and "listen port st = Ret st'" "\<not> ephemeral port"
  shows "stack_inv L queued backlog pending st'"
  by (rule stack_inv_frame [OF inv])
    (use assms stack_invD [OF inv] in \<open>auto simp: listen_def split: if_splits\<close>)

locale stack_laws = packet_layout L + channel_laws K queued backlog pending capacity
  for L K queued backlog pending capacity
begin

abbreviation ok where "ok \<equiv> stack_inv L queued backlog pending"

lemma poll_channel_inv:
  assumes "ok st" "poll_channel K i s st = (ev, st')" "sockets st i = Some (s, ro)"
  shows "ok st' \<and> sockets st' = sockets st \<and> tuples st' = tuples st \<and> readers st' = readers st
    \<and> devices st' = devices st \<and> trace st' = trace st
    \<and> ev \<noteq> Disconnected \<and> (\<forall>b. ev = Received b \<longrightarrow> packet_for L (socket_tuple s) b)"
proof -
  have tab: "table_ok st" and qs: "queues_ok L queued st" using assms(1) unfolding stack_inv_def by simp_all
  note live = table_okD [OF tab assms(3)]
  then obtain q where q: "channels st i = Some q" by blast
  show ?thesis
  proof (cases "flume_recv K q")
    case None
    with assms q live show ?thesis by (auto simp: poll_channel_def)
  next
    case (Some x)
    then obtain b q' where x: "flume_recv K q = Some (b, q')" by (cases x) auto
    from qs assms(3) q have "list_all (packet_for L (socket_tuple s)) (queued q)"
      unfolding queues_ok_def by blast
    then have "packet_for L (socket_tuple s) b" by (simp add: flume_pop [OF x])
    moreover have "ok (st\<lparr>channels := (channels st)(i \<mapsto> q')\<rparr>)"
      by (rule queue_update_inv [OF assms(1) q]) (simp add: flume_pop [OF x])
    ultimately show ?thesis using assms(2) q x by (auto simp: poll_channel_def)
  qed
qed

lemma channel_send_inv:
  assumes "ok st" "channel_send K c b st = Some (Some st')" "target_ok L st c b"
  shows "ok st' \<and> sockets st' = sockets st \<and> tuples st' = tuples st \<and> readers st' = readers st
    \<and> next_id st' = next_id st"
proof -
  from assms(2) obtain q q' where q: "channels st c = Some q" "flume_send K b q = Some q'"
    and st': "st' = st\<lparr>channels := (channels st)(c \<mapsto> q')\<rparr>"
    by (auto simp: channel_send_def split: option.splits)
  have "ok st'" unfolding st'
    by (rule queue_update_inv [OF assms(1) q(1)])
      (use assms(3) in \<open>auto simp: flume_push [OF q(2)] target_ok_def\<close>)
  then show ?thesis by (simp add: st')
qed

end
lemma same_family_packet: "tuple_family (packet_tuple L ip t)"
  by (cases ip) (simp_all add: tuple_family_def packet_tuple_def same_family_def)

text \<open>Registering a socket under a free tuple.\<close>

lemma register_inv:
  assumes inv: "stack_inv L queued backlog pending st" and free: "tuples st t = None" and fam: "tuple_family t"
    and ro: "Idle \<in> role_state ro" "queued (flume_bounded K MPMC_BUFFER_LEN) = []"
    and missing: "\<And>r R seg. readers st r = Some R \<Longrightarrow> pc R = Missing t seg \<Longrightarrow> ephemeral (addr_port (tuple_local t))"
  shows "stack_inv L queued backlog pending (register K d t ack_opt ro st)"
proof -
  let ?st = "register K d t ack_opt ro st" and ?i = "next_id st"
  let ?s = "socket_new d ?i (tuple_local t) (tuple_remote t) ack_opt Idle"
  note parts = stack_invD [OF inv] and reg = register_def Let_def
  have t: "socket_tuple ?s = t" by (cases t) (simp add: socket_tuple_def socket_new_def)
  have fresh: "sockets st ?i = None" "channels st ?i = None" "tuples st u \<noteq> Some ?i" for u
    using parts(1) unfolding table_ok_def by fastforce+
  have other: "socket_tuple s \<noteq> t" if "sockets st c = Some (s, ro')" for c s ro'
    using table_okD(1) [OF parts(1) that] free by auto
  have "table_ok ?st"
    using parts(1) fresh t other unfolding table_ok_def by (auto simp: reg less_Suc_eq split: if_splits)
  moreover have "sockets_ok ?st"
    using parts(2) ro(1) fam t unfolding sockets_ok_def
    by (auto simp: reg split: if_splits) (simp add: socket_new_def)
  moreover have "ready_ok backlog ?st"
    using parts(3) fresh unfolding ready_ok_def by (auto simp: reg)
  moreover have "queues_ok L queued ?st"
    using parts(4) fresh ro(2) unfolding queues_ok_def by (auto simp: reg split: if_splits)
  moreover have "reader_ok L pending ?st R" if R: "readers st r = Some R" for r R
  proof -
    have old: "reader_ok L pending st R" by (rule parts(6) [OF R])
    have snd: "sender_ok pending st R u c \<Longrightarrow> sender_ok pending ?st R u c" for u c
      using free by (auto simp: sender_ok_def reg)
    have tgt: "target_ok L st c b \<Longrightarrow> target_ok L ?st c b" for c b
      by (auto simp: target_ok_def reg)
    have "pc_ok L pending ?st R (pc R)"
      using old snd tgt missing [OF R] unfolding reader_ok_def
      by (cases "pc R") (auto simp: reg)
    then show ?thesis using old snd unfolding reader_ok_def by blast
  qed
  ultimately show ?thesis
    using inv unfolding stack_inv_def by (simp add: reg)
qed
lemma sockets_okD:
  "sockets_ok st \<Longrightarrow> sockets st i = Some (s, ro) \<Longrightarrow> state s \<in> role_state ro"
  "sockets_ok st \<Longrightarrow> sockets st i = Some (s, ro) \<Longrightarrow> tuple_family (socket_tuple s)"
  unfolding sockets_ok_def by blast+

lemma queues_okD:
  "queues_ok L queued st \<Longrightarrow> sockets st i = Some (s, ro) \<Longrightarrow> channels st i = Some q
    \<Longrightarrow> list_all (packet_for L (socket_tuple s)) (queued q)"
  unfolding queues_ok_def by blast

text \<open>Dropping a socket: what the new state is, and that it is well-formed.\<close>

definition dropped ::
  "('c, 'm, 'b) chan_lib \<Rightarrow> nat \<Rightarrow> Socket \<Rightarrow> bytes \<Rightarrow> ('c, 'm, 'b) Stack \<Rightarrow> ('c, 'm, 'b) Stack" where
  "dropped K i s buf st =
     st\<lparr>tuples := (tuples st)(socket_tuple s := None),
        readers := \<lambda>r. map_option (\<lambda>R. R\<lparr>purge := broadcast_send K (socket_tuple s) (purge R)\<rparr>) (readers st r),
        trace := trace st @ [(tun s, buf)], sockets := (sockets st)(i := None),
        channels := (channels st)(i := None)\<rparr>"

definition some_reader :: "('c, 'm, 'b) Stack \<Rightarrow> bool" where
  "some_reader st \<longleftrightarrow> (\<exists>t \<in> set (devices st). readers st t \<noteq> None)"

lemma socket_drop_Ret:
  "socket_drop L K i s st = Ret st' \<longleftrightarrow> tuples st (socket_tuple s) \<noteq> None \<and> some_reader st
     \<and> (\<exists>buf. build_tcp_packet L (local_addr s) (remote_addr s) (seq s) 0 (RST L) None = Ret buf
            \<and> st' = dropped K i s buf st)"
  by (auto simp: socket_drop_def purge_send_def obind_eq_Ret_iff Let_def dropped_def some_reader_def list_all_iff)

context stack_laws
begin

lemma dropped_inv:
  assumes inv: "ok st" and i: "sockets st i = Some (s0, ro)" "socket_tuple s = socket_tuple s0" "ro \<noteq> Queued"
  shows "ok (dropped K i s buf st)"
proof -
  let ?st = "dropped K i s buf st"
  note parts = stack_invD [OF inv]
  have own: "tuples st (socket_tuple s) = Some i"
    using table_okD [OF parts(1) i(1)] i(2) by simp
  have uniq: "tuples st t = Some i \<longleftrightarrow> t = socket_tuple s" for t
    using own table_ok_owner [OF parts(1), of t i] i by auto
  have other: "socket_tuple s' \<noteq> socket_tuple s" if "sockets st c = Some (s', ro')" "c \<noteq> i" for c s' ro'
    using table_okD(1) [OF parts(1) that(1)] own that(2) by auto
  have tab: "table_ok ?st"
    using parts(1) uniq other unfolding table_ok_def by (auto simp: dropped_def split: if_splits)
  have sq: "sockets_ok ?st" "queues_ok L queued ?st"
    using parts(2,4) unfolding sockets_ok_def queues_ok_def by (auto simp: dropped_def split: if_splits)
  have rdy: "ready_ok backlog ?st"
    using parts(3) i(1,3) unfolding ready_ok_def by (auto simp: dropped_def)
  have "reader_ok L pending ?st (R\<lparr>purge := broadcast_send K (socket_tuple s) (purge R)\<rparr>)"
    if R: "readers st r = Some R" for r R
  proof -
    let ?R = "R\<lparr>purge := broadcast_send K (socket_tuple s) (purge R)\<rparr>"
    have old: "reader_ok L pending st R" by (rule parts(6) [OF R])
    have snd: "sender_ok pending st R u c \<Longrightarrow> sender_ok pending ?st ?R u c" for u c
      using own by (auto simp: sender_ok_def dropped_def broadcast_push)
    have tgt: "target_ok L st c b \<Longrightarrow> target_ok L ?st c b" for c b
      by (auto simp: target_ok_def dropped_def)
    have "pc_ok L pending ?st ?R (pc ?R)"
      using old snd tgt unfolding reader_ok_def by (cases "pc R") (auto simp: dropped_def)
    then show ?thesis using old snd unfolding reader_ok_def by auto
  qed
  then have rd: "\<forall>r R'. readers ?st r = Some R' \<longrightarrow> reader_ok L pending ?st R'"
    by (auto simp: dropped_def)
  have "dom (readers ?st) = dom (readers st)" "devices ?st = devices st" "listening ?st = listening st"
    by (auto simp: dropped_def)
  then show ?thesis
    using inv rd rdy sq tab unfolding stack_inv_def by simp
qed

lemma socket_drop_inv:
  "ok st \<Longrightarrow> sockets st i = Some (s0, ro) \<Longrightarrow> same_ends s0 s \<Longrightarrow> ro \<noteq> Queued
    \<Longrightarrow> socket_drop L K i s st = Ret st' \<Longrightarrow> ok st'"
  by (auto simp: socket_drop_Ret same_ends_def intro: dropped_inv)

lemma socket_drop_total:
  assumes "ok st" "sockets st i = Some (s, ro)" "some_reader st"
  shows "\<exists>buf. socket_drop L K i s st = Ret (dropped K i s buf st)
    \<and> build_tcp_packet L (local_addr s) (remote_addr s) (seq s) 0 (RST L) None = Ret buf"
proof -
  note parts = stack_invD [OF assms(1)]
  have "same_family (local_addr s) (remote_addr s)"
    using sockets_okD(2) [OF parts(2) assms(2)] by (simp add: tuple_family_def socket_tuple_def)
  then have "\<not> panics (build_tcp_packet L (local_addr s) (remote_addr s) (seq s) 0 (RST L) None)"
    by (simp add: build_panics_iff)
  then show ?thesis
    using table_okD(1) [OF parts(1) assms(2)] assms(3)
    unfolding not_panics_iff by (auto simp: socket_drop_Ret)
qed

text \<open>Handing accepted sockets over.\<close>

lemma hand_over_inv:
  assumes inv: "ok st" and i: "sockets st i = Some (s, Handing)" "hand_over K i s st = Some st'"
  shows "ok st'"
proof -
  from i(2) obtain q where q: "mpsc_send K i (ready st) = Some q" and st': "st' = put_socket i s Queued [] (st\<lparr>ready := q\<rparr>)"
    by (auto simp: hand_over_def split: option.splits)
  note parts = stack_invD [OF inv]
  have *: "ok (put_socket i s Queued [] st)"
    using sockets_okD(1) [OF parts(2) i(1)] by (intro put_socket_inv [OF inv i(1)]) simp_all
  have "i \<notin> set (backlog (ready st))"
    using parts(3) i(1) unfolding ready_ok_def by force
  with parts(3) i(1) have "ready_ok backlog st'"
    unfolding ready_ok_def st' by (auto simp: mpsc_push [OF q])
  moreover have "table_ok st'" "sockets_ok st'" "queues_ok L queued st'"
    using stack_invD [OF *] unfolding table_ok_def sockets_ok_def queues_ok_def st' by simp_all
  moreover have "reader_ok L pending st' R" if "readers st r = Some R" for r R
    using stack_invD(6) [OF *] that reader_ok_frame [of L pending "put_socket i s Queued [] st" R st']
    by (simp add: st')
  ultimately show ?thesis using inv unfolding stack_inv_def by (simp add: st')
qed

lemma stack_accept_inv:
  assumes inv: "ok st" and acc: "stack_accept K st = Some (i, st')"
  shows "ok st' \<and> (\<exists>s. sockets st' i = Some (s, Owned) \<and> state s = Established)"
proof -
  note parts = stack_invD [OF inv]
  from acc obtain q where q: "mpsc_recv K (ready st) = Some (i, q)"
    and st0: "st' = st\<lparr>ready := q, sockets := (sockets st)(i := map_option (\<lambda>(s, _). (s, Owned)) (sockets st i))\<rparr>"
    by (auto simp: stack_accept_def split: option.splits)
  from parts(3) obtain s where s: "sockets st i = Some (s, Queued)"
    unfolding ready_ok_def mpsc_pop [OF q] by auto
  with st0 have st': "st' = st\<lparr>ready := q, sockets := (sockets st)(i \<mapsto> (s, Owned))\<rparr>" by simp
  have est: "state s = Established" using sockets_okD(1) [OF parts(2) s] by simp
  have "ready_ok backlog st'"
    using parts(3) unfolding ready_ok_def mpsc_pop [OF q] st' by auto
  moreover have "table_ok st'"
    using parts(1) s unfolding table_ok_def st' by (auto split: if_splits)
  moreover have "sockets_ok st'"
    using est sockets_okD [OF parts(2)] s unfolding sockets_ok_def st' by (auto split: if_splits)
  moreover have "queues_ok L queued st'"
    using queues_okD [OF parts(4)] s unfolding queues_ok_def st' by (auto split: if_splits)
  moreover have "reader_ok L pending st' R" if R: "readers st r = Some R" for r R
    using put_socket_reader [OF s refl parts(6) [OF R], of Owned "[]"]
      reader_ok_frame [of L pending "put_socket i s Owned [] st" R st'] by (simp add: st')
  ultimately show ?thesis using inv est unfolding stack_inv_def by (simp add: st')
qed

end
section \<open>Port allocation\<close>

definition own_addr :: "socket_addr \<Rightarrow> u16 \<Rightarrow> ('c, 'm, 'b) Stack \<Rightarrow> socket_addr" where
  "own_addr addr p st = socket_addr_new (if is_ipv4 addr then IpV4 (local_ip st) else IpV6 (the (local_ip6 st))) p"

definition can_reach :: "socket_addr \<Rightarrow> ('c, 'm, 'b) Stack \<Rightarrow> bool" where
  "can_reach addr st \<longleftrightarrow> is_ipv4 addr \<or> local_ip6 st \<noteq> None"

definition port_free :: "socket_addr \<Rightarrow> ('c, 'm, 'b) Stack \<Rightarrow> u16 \<Rightarrow> bool" where
  "port_free addr st p \<longleftrightarrow> tuples st (AddrTuple (own_addr addr p st) addr) = None"

lemma connect_local_eq: "can_reach addr st \<Longrightarrow> connect_local addr p st = Ret (own_addr addr p st)"
  by (auto simp: connect_local_def can_reach_def own_addr_def)

lemma connect_ports_eq:
  assumes "can_reach addr st" "devices st \<noteq> []"
  shows "connect_ports K draw addr ps st = Ret (map_option
     (\<lambda>p. (next_id st, register K (devices st ! (draw mod length (devices st)))
             (AddrTuple (own_addr addr p st) addr) None (Connecting 0) st))
     (find (port_free addr st) ps))"
  using assms by (induction ps) (auto simp: connect_local_eq choose_device_def Let_def port_free_def)

lemma set_port_range: "start \<le> 60999 \<Longrightarrow> set (port_range start) = {p. start \<le> unat p \<and> unat p \<le> 60999}"
proof (intro set_eqI iffI)
  fix p assume "start \<le> 60999" "p \<in> set (port_range start)"
  then show "p \<in> {p. start \<le> unat p \<and> unat p \<le> 60999}"
    by (auto simp: port_range_def unat_of_nat)
next
  fix p :: u16 assume "start \<le> 60999" "p \<in> {p. start \<le> unat p \<and> unat p \<le> 60999}"
  then show "p \<in> set (port_range start)"
    by (auto simp: port_range_def intro!: image_eqI [of _ _ "unat p"])
qed

lemma connect_ports_opened:
  "connect_ports K draw addr ps st = Ret (Some (i, st')) \<Longrightarrow>
     \<exists>p local d. p \<in> set ps \<and> connect_local addr p st = Ret local \<and> tuples st (AddrTuple local addr) = None
       \<and> st' = register K d (AddrTuple local addr) None (Connecting 0) st"
proof (induction ps)
  case (Cons p ps)
  then obtain local where l: "connect_local addr p st = Ret local" by (auto simp: obind_eq_Ret_iff)
  show ?case
  proof (cases "tuples st (AddrTuple local addr)")
    case None
    with Cons.prems l show ?thesis by (auto simp: Let_def split: option.splits intro!: exI [of _ p])
  next
    case (Some c)
    with Cons l show ?thesis by auto
  qed
qed simp

lemma connect_local_ends:
  "connect_local addr p st = Ret local \<Longrightarrow> addr_port local = p \<and> tuple_family (AddrTuple local addr)"
  by (auto simp: connect_local_def tuple_family_def same_family_def split: if_splits option.splits)

section \<open>Every step keeps the invariant\<close>

context stack_laws
begin

lemma connect_open_inv:
  assumes inv: "ok st" and "connect_open K start draw addr st = Ret (Some (i, st'))" "32768 \<le> start" "start \<le> 60999"
  shows "ok st'"
proof -
  from connect_ports_opened [OF assms(2) [unfolded connect_open_def]] obtain p local d where
    p: "p \<in> set (port_range start)" "connect_local addr p st = Ret local" "tuples st (AddrTuple local addr) = None"
    and st': "st' = register K d (AddrTuple local addr) None (Connecting 0) st" by blast
  have "ephemeral p" using p(1) assms(3,4) by (simp add: set_port_range ephemeral_def)
  with connect_local_ends [OF p(2)] p(3) flume_new show ?thesis
    unfolding st' by (intro register_inv [OF inv]) simp_all
qed

lemma poll_when_inv:
  assumes "ok st" "poll_when w K i s st = (ev, st')" "sockets st i = Some (s, ro)"
  shows "ok st' \<and> sockets st' = sockets st \<and> ev \<noteq> Disconnected
    \<and> (\<forall>b. ev = Received b \<longrightarrow> packet_for L (socket_tuple s) b)"
  using assms poll_channel_inv [of st i s ev st' ro] by (auto simp: poll_when_def split: if_splits)

lemma connect_poll_inv:
  assumes inv: "ok st" and i: "sockets st i = Some (s, Connecting n)"
    and step: "connect_poll L K checks res i s n st = Ret st'"
  shows "ok st'"
proof (cases "n = RETRIES")
  case True
  with step i socket_drop_inv [OF inv i same_ends_refl] show ?thesis by (simp add: connect_poll_def)
next
  case False
  obtain ev st1 where p: "poll_when (state s = SynSent) K i s st = (ev, st1)" by fastforce
  note st1 = poll_when_inv [OF inv p i]
  from step False p obtain r s' out where c: "connect_step L checks res ev s = Ret (r, s', out)"
    and st': "(case r of None \<Rightarrow> Ret (put_socket i s' (Connecting (n + 1)) out st1)
          | Some (Some _) \<Rightarrow> Ret (put_socket i s' Owned out st1)
          | Some None \<Rightarrow> socket_drop L K i s' (put_socket i s' (Connecting n) out st1)) = Ret st'"
    by (auto simp: connect_poll_def obind_eq_Ret_iff)
  have n: "n < RETRIES"
    using False sockets_okD(1) [OF stack_invD(2) [OF inv] i] by (auto split: if_splits)
  note ends = connect_step_ends [OF c]
  have put: "state s' \<in> role_state ro \<Longrightarrow> ok (put_socket i s' ro out st1)" for ro
    using st1 i ends(1) by (intro put_socket_inv [of _ _ _ _ st1 i s "Connecting n"]) simp_all
  show ?thesis
  proof (cases r)
    case None
    with st' put [of "Connecting (n + 1)"] ends(2) n show ?thesis by auto
  next
    case (Some v)
    show ?thesis
    proof (cases v)
      case None
      have "ok (put_socket i s' (Connecting n) out st1)" using put ends(4) Some None n by auto
      from socket_drop_inv [OF this, of i s' "Connecting n" s' st'] st' Some None show ?thesis by simp
    next
      case (Some u)
      with \<open>r = Some v\<close> st' put [of Owned] ends(3) show ?thesis by auto
    qed
  qed
qed

lemma accept_poll_inv:
  assumes inv: "ok st" and i: "sockets st i = Some (s, Accepting n)"
    and step: "accept_poll L K checks res i s n st = Ret st'"
  shows "ok st'"
proof (cases "n = RETRIES")
  case True
  with step i socket_drop_inv [OF inv i same_ends_refl] show ?thesis by (simp add: accept_poll_def)
next
  case False
  obtain ev st1 where p: "poll_when (state s = SynReceived) K i s st = (ev, st1)" by fastforce
  note st1 = poll_when_inv [OF inv p i]
  from step False p obtain r s' out where c: "accept_step L checks res ev True s = Ret (r, s', out)"
    and st': "(case r of None \<Rightarrow> Ret (put_socket i s' (Accepting (n + 1)) out st1)
          | Some True \<Rightarrow> Ret (put_socket i s' Handing out st1)
          | Some False \<Rightarrow> socket_drop L K i s' (put_socket i s' (Accepting n) out st1)) = Ret st'"
    by (auto simp: accept_poll_def obind_eq_Ret_iff)
  have n: "n < RETRIES"
    using False sockets_okD(1) [OF stack_invD(2) [OF inv] i] by (auto split: if_splits)
  note ends = accept_step_ends [OF c]
  have put: "state s' \<in> role_state ro \<Longrightarrow> ok (put_socket i s' ro out st1)" for ro
    using st1 i ends(1) by (intro put_socket_inv [of _ _ _ _ st1 i s "Accepting n"]) simp_all
  consider "r = None" | "r = Some True" | "r = Some False" by (cases r) auto
  then show ?thesis
  proof cases
    case 1
    with st' put [of "Accepting (n + 1)"] ends(2) n show ?thesis by auto
  next
    case 2
    with st' put [of Handing] ends(3) show ?thesis by auto
  next
    case 3
    then have "ok (put_socket i s' (Accepting n) out st1)" using put ends(4) n by auto
    from socket_drop_inv [OF this, of i s' "Accepting n" s' st'] st' 3 show ?thesis by simp
  qed
qed

end

context stack_laws
begin

lemma reader_recv_inv:
  assumes inv: "ok st" and R: "readers st r = Some R" "reader_recv L rcv r R st = Ret st'"
  shows "ok st'"
proof (cases rcv)
  case (Inl e)
  with R(2) show ?thesis by (simp add: reader_recv_def)
next
  case (Inr buf)
  note parts = stack_invD [OF inv] and rd = stack_invD(6) [OF inv R(1)]
  from R(2) Inr obtain parsed where pr: "parse_ip_packet L buf = Ret parsed"
    by (auto simp: reader_recv_def obind_eq_Ret_iff)
  show ?thesis
  proof (cases parsed)
    case None
    with R(2) Inr pr inv show ?thesis by (simp add: reader_recv_def)
  next
    case (Some x)
    then obtain ip t where x: "parsed = Some (ip, t)" by (cases x) auto
    let ?u = "packet_tuple L ip t"
    have pk: "packet_for L ?u buf" using pr x unfolding packet_for_def by blast
    have set: "ok (set_reader r (R\<lparr>pc := p\<rparr>) st)" if "pc_ok L pending st (R\<lparr>pc := p\<rparr>) p" for p
      using rd that by (intro set_reader_inv [OF inv R(1)]) (auto simp: reader_ok_def sender_ok_def)
    show ?thesis
    proof (cases "cache R ?u")
      case (Some c)
      then have "sender_ok pending st R ?u c" using rd by (simp add: reader_ok_def)
      from sender_target [OF parts(1) this pk] set [of "Cached c buf"] R(2) Inr pr x Some show ?thesis
        by (simp add: reader_recv_def Let_def)
    next
      case None
      show ?thesis
      proof (cases "tuples st ?u")
        case (Some c)
        from table_ok_owner [OF parts(1) Some] table_okD(3) [OF parts(1)] Some
        have "sender_ok pending st (R\<lparr>pc := Found ?u c buf\<rparr>) ?u c" by (auto simp: sender_ok_def)
        with pk set [of "Found ?u c buf"] R(2) Inr pr x None Some show ?thesis
          by (simp add: reader_recv_def Let_def)
      next
        case None
        have "addr_port (tuple_local ?u) = tcp_get_destination (tcp L) t" by (simp add: packet_tuple_def)
        with set [of "Missing ?u t"] None \<open>cache R ?u = None\<close> R(2) Inr pr x same_family_packet show ?thesis
          by (simp add: reader_recv_def Let_def)
      qed
    qed
  qed
qed

lemma reader_only: "ok st \<Longrightarrow> readers st r = Some R \<Longrightarrow> readers st r' = Some R' \<Longrightarrow> r' = r \<and> R' = R"
  unfolding stack_inv_def by (metis domI option.inject singletonD subsetD)

lemma reply_rst_Ret:
  "reply_rst L res t sq ak st = Ret st' \<Longrightarrow> \<exists>x. st' = st\<lparr>trace := x\<rparr>"
  by (cases "devices st"; cases res) (auto simp: reply_rst_def obind_eq_Ret_iff)

lemma reader_unknown_inv:
  assumes inv: "ok st" and R: "readers st r = Some R" "pc R = Missing u t"
    and step: "reader_unknown L K checks res r u t st = Ret st'"
  shows "ok (set_reader r (R\<lparr>pc := Waiting\<rparr>) st')"
proof -
  note rd = stack_invD(6) [OF inv R(1)]
  have fam: "tuple_family u" using rd R(2) by (simp add: reader_ok_def)
  have idle: "ok (set_reader r (R\<lparr>pc := Waiting\<rparr>) st)"
    using rd by (intro set_reader_inv [OF inv R(1)]) (auto simp: reader_ok_def sender_ok_def)
  consider (same) "st' = st" | (sent) x where "st' = st\<lparr>trace := x\<rparr>"
    | (new) a where "st' = register K r u (Some a) (Accepting 0) st" "tuples st u = None"
    using step
    by (auto simp: reader_unknown_def Let_def obind_eq_Ret_iff dest!: reply_rst_Ret split: if_splits)
  then show ?thesis
  proof cases
    case same with idle show ?thesis by simp
  next
    case sent
    moreover have "set_reader r Q (st\<lparr>trace := x\<rparr>) = (set_reader r Q st)\<lparr>trace := x\<rparr>" for Q
      by (cases st) (simp add: set_reader_def)
    ultimately show ?thesis using trace_inv [OF idle, of x] by simp
  next
    case new
    have "ok (register K r u (Some a) (Accepting 0) (set_reader r (R\<lparr>pc := Waiting\<rparr>) st))"
      using reader_only [OF inv R(1)] new(2) fam flume_new
      by (intro register_inv [OF idle]) (auto split: if_splits)
    moreover have "register K r u (Some a) (Accepting 0) (set_reader r (R\<lparr>pc := Waiting\<rparr>) st)
        = set_reader r (R\<lparr>pc := Waiting\<rparr>) st'"
      unfolding new(1) by (simp add: register_def set_reader_def Let_def)
    ultimately show ?thesis by simp
  qed
qed

lemma reader_act_inv:
  assumes inv: "ok st" and R: "readers st r = Some R" "reader_act L K checks res r R st = Some (Ret st')"
  shows "ok st'"
proof -
  note rd = stack_invD(6) [OF inv R(1)]
  have idle: "ok (set_reader r (R\<lparr>pc := Waiting\<rparr>) st2)"
    if "ok st2" "readers st2 = readers st" "sockets st2 = sockets st" "tuples st2 = tuples st" "next_id st2 = next_id st"
    for st2
    using rd that R(1) by (intro set_reader_inv [OF that(1)]) (auto simp: reader_ok_def sender_ok_def)
  have sent: ?thesis if "target_ok L st c b" "channel_send K c b st = Some (Some st2)"
    "st' = set_reader r (R\<lparr>pc := Waiting\<rparr>) st2" for c b st2
    using channel_send_inv [OF inv that(2,1)] idle [of st2] that(3) by simp
  show ?thesis
  proof (cases "pc R")
    case (Cached c b)
    with R(2) rd idle [OF inv] sent [of c b] show ?thesis
      by (auto simp: reader_act_def Let_def reader_ok_def split: option.splits)
  next
    case (Sending c b)
    with R(2) rd sent [of c b] show ?thesis
      by (auto simp: reader_act_def Let_def reader_ok_def split: option.splits)
  next
    case (Found u c b)
    then have snd: "sender_ok pending st R u c" "packet_for L u b" using rd by (simp_all add: reader_ok_def)
    have "reader_ok L pending st (R\<lparr>cache := (cache R)(u \<mapsto> c), pc := Sending c b\<rparr>)"
      using rd snd(1) sender_target [OF stack_invD(1) [OF inv] snd]
      by (auto simp: reader_ok_def sender_ok_def)
    with set_reader_inv [OF inv R(1)] R(2) Found show ?thesis by (auto simp: reader_act_def Let_def)
  next
    case (Missing u t)
    with R(2) obtain st2 where st2: "reader_unknown L K checks res r u t st = Ret st2"
      "st' = set_reader r (R\<lparr>pc := Waiting\<rparr>) st2"
      by (auto simp: reader_act_def Let_def obind_eq_Ret_iff)
    from reader_unknown_inv [OF inv R(1) Missing st2(1)] st2(2) show ?thesis by simp
  qed (use R(2) in \<open>simp add: reader_act_def Let_def\<close>)
qed

lemma reader_purge_inv:
  assumes inv: "ok st" and R: "readers st r = Some R" "pc R = Waiting" "reader_purge K r R st = Some (Ret st')"
  shows "ok st'"
proof -
  from R(3) obtain t b where b: "broadcast_recv K (purge R) = Some (Some t, b)"
    and st': "st' = set_reader r (R\<lparr>cache := (cache R)(t := None), purge := b\<rparr>) st"
    by (auto simp: reader_purge_def split: option.splits)
  have "reader_ok L pending st (R\<lparr>cache := (cache R)(t := None), purge := b\<rparr>)"
    using stack_invD(6) [OF inv R(1)] R(2) broadcast_pop(1) [OF b]
    by (auto simp: reader_ok_def sender_ok_def split: if_splits)
  from set_reader_inv [OF inv R(1) this] show ?thesis by (simp add: st')
qed

lemma step_ok: "stack_step L K checks st st' \<Longrightarrow> ok st \<Longrightarrow> ok st'"
proof (induction rule: stack_step.induct)
  case (connect_unwinds st i s n ev st1 res p s' st')
  with poll_when_inv [OF connect_unwinds.prems connect_unwinds(3,1)] show ?case
    by (auto intro: socket_drop_inv [of st1 i s "Connecting n" s' st'])
next
  case (accept_unwinds st i s n ev st1 res p s' st')
  with poll_when_inv [OF accept_unwinds.prems accept_unwinds(3,1)] show ?case
    by (auto intro: socket_drop_inv [of st1 i s "Accepting n" s' st'])
next
  case (sends st i s res payload v s' buf)
  with socket_send_ends [OF sends(2)] sockets_okD(1) [OF stack_invD(2) [OF sends.prems] sends(1)] show ?case
    by (intro put_socket_inv [OF sends.prems sends(1)]) simp_all
next
  case (receives st i s ev st1 buf v s' buf' out)
  from poll_channel_inv [OF receives.prems receives(2,1)] receives(1)
  have "ok st1" "sockets st1 i = Some (s, Owned)" by simp_all
  with socket_recv_ends [OF receives(4)] sockets_okD(1) [OF stack_invD(2) [OF receives.prems] receives(1)]
  show ?case by (intro put_socket_inv [of _ _ _ _ st1 i s Owned]) simp_all
next
  case (closes st i s st')
  from socket_drop_inv [OF closes.prems closes(1) same_ends_refl _ closes(2)] show ?case by simp
qed (auto intro: listen_inv connect_open_inv connect_poll_inv accept_poll_inv hand_over_inv reader_recv_inv
      reader_dies_inv reader_act_inv reader_purge_inv dest: stack_accept_inv)

lemma new_ok: "ok (stack_new K [d] ip ip6_opt)"
  by (auto simp: stack_inv_def table_ok_def sockets_ok_def ready_ok_def queues_ok_def stack_new_def mpsc_new
      reader_ok_def split: if_splits)

end

end
