(* ===== verification/Dispatch_Properties.thy ===== *)
theory Dispatch_Properties
  imports Dispatch
begin

text \<open>
  What the invariant of \<open>Dispatch\<close> gives for every reachable state of the stack, channels as lists as
  an instance of their contract, and the two ways in which a reader task can be lost.
\<close>

text \<open>
  A run starts in the stack that \<open>Stack::new\<close> builds over one device, as \<open>main\<close> does.
\<close>

definition stack_started :: "('c, 'm, 'b) chan_lib \<Rightarrow> ('c, 'm, 'b) Stack \<Rightarrow> bool" where
  "stack_started K st \<longleftrightarrow> (\<exists>d ip ip6_opt. st = stack_new K [d] ip ip6_opt)"

definition stack_reachable ::
  "packet_lib \<Rightarrow> ('c, 'm, 'b) chan_lib \<Rightarrow> bool \<Rightarrow> ('c, 'm, 'b) Stack \<Rightarrow> bool" where
  "stack_reachable L K checks st \<longleftrightarrow> (\<exists>st0. stack_started K st0 \<and> (stack_step L K checks)\<^sup>*\<^sup>* st0 st)"

sublocale stack_laws \<subseteq> run: step_invariant "stack_started K" "stack_step L K checks" ok for checks
  by unfold_locales (auto simp: stack_started_def intro: new_ok step_ok)

context stack_laws
begin

lemma reachable_ok: "stack_reachable L K checks st \<Longrightarrow> ok st"
  unfolding stack_reachable_def by (blast intro: run.reachable_inv)

lemma packet_for_carries: "packet_for L u b \<Longrightarrow> \<exists>S. carries L b S \<and> seg_dst S = tuple_local u \<and> seg_src S = tuple_remote u"
  by (auto simp: packet_for_def carries_def packet_tuple_def)

lemma rst_packet:
  assumes "same_family l r"
  shows "\<exists>buf. build_tcp_packet L l r sq ak flags None = Ret buf
    \<and> carries L buf \<lparr>seg_src = strip_scope l, seg_dst = strip_scope r, seg_seq = sq, seg_ack = ak,
         seg_flags = flags, seg_data = []\<rparr>"
  using build_carries [OF assms fits_None, where seq = sq and ack = ak and flags = flags] by auto

lemma close_effect:
  assumes "ok st" "sockets st i = Some (s, ro)" "some_reader st"
  shows "\<exists>buf st'. socket_drop L K i s st = Ret st'
    \<and> tuples st' = (tuples st)(socket_tuple s := None) \<and> sockets st' = (sockets st)(i := None)
    \<and> trace st' = trace st @ [(tun s, buf)]
    \<and> carries L buf \<lparr>seg_src = strip_scope (local_addr s), seg_dst = strip_scope (remote_addr s),
         seg_seq = seq s, seg_ack = 0, seg_flags = RST L, seg_data = []\<rparr>"
proof -
  have "same_family (local_addr s) (remote_addr s)"
    using sockets_okD(2) [OF stack_invD(2) [OF assms(1)] assms(2)] by (simp add: tuple_family_def socket_tuple_def)
  from rst_packet [OF this, of "seq s" 0 "RST L"] socket_drop_total [OF assms]
  show ?thesis by (auto simp: dropped_def)
qed

lemma close_without_reader:
  assumes "ok st" "sockets st i = Some (s, ro)" "\<not> some_reader st"
  shows "socket_drop L K i s st = Panic Unwrap_failed"
proof -
  have "tuples st (socket_tuple s) \<noteq> None" using table_okD(1) [OF stack_invD(1) [OF assms(1)] assms(2)] by simp
  with assms(3) show ?thesis
    by (simp add: socket_drop_def purge_send_def some_reader_def list_all_iff Let_def)
qed

lemma reply_rst_panics:
  assumes "ok st" "tuple_family u" "reply_rst L res u sq ak st = Panic p"
  shows "\<exists>e. res = Inl e \<and> p = Unwrap_failed"
proof -
  obtain d where "devices st = [d]" using assms(1) unfolding stack_inv_def by blast
  with rst_packet [OF assms(2) [unfolded tuple_family_def], of sq ak "RST L OR ACK L"] assms(3)
  show ?thesis by (cases res) (auto simp: reply_rst_def)
qed

lemma missing_panics:
  assumes "ok st" "readers st r = Some R" "pc R = Missing u t"
    and "reader_unknown L K checks res r u t st = Panic p"
  shows "(\<exists>e. res = Inl e \<and> p = Unwrap_failed) \<or> checks \<and> p = Arithmetic_overflow"
proof -
  have m: "tuple_family u" "addr_port (tuple_local u) = tcp_get_destination (tcp L) t
    \<and> (tuples st u = None \<or> ephemeral (addr_port (tuple_local u)))"
    using stack_invD(6) [OF assms(1,2)] assms(3) unfolding reader_ok_def by auto
  then have free: "tcp_get_destination (tcp L) t \<in> listening st \<Longrightarrow> tuples st u = None"
    using stack_invD(5) [OF assms(1)] by auto
  have sum: "obind (add_u32 checks a b) f = Panic p \<Longrightarrow> checks \<and> p = Arithmetic_overflow \<or> f (a + b) = Panic p" for a b f
    by (auto simp: add_u32_def split: if_splits)
  note reply = reply_rst_panics [OF assms(1) m(1)]
  show ?thesis
    using assms(4) free unfolding reader_unknown_def Let_def
    by (auto split: if_splits dest!: sum dest: reply)
qed

lemma reader_act_panics:
  assumes "ok st" "readers st r = Some R" "reader_act L K checks res r R st = Some (Panic p)"
  shows "(\<exists>c b. pc R = Sending c b \<and> sockets st c = None \<and> p = Unwrap_failed)
    \<or> (\<exists>u t. pc R = Missing u t \<and> ((\<exists>e. res = Inl e \<and> p = Unwrap_failed) \<or> checks \<and> p = Arithmetic_overflow))"
proof (cases "pc R")
  case (Sending c b)
  have "channels st c = None \<Longrightarrow> sockets st c = None"
    using stack_invD(1) [OF assms(1)] unfolding table_ok_def by blast
  with Sending assms(3) show ?thesis
    by (auto simp: reader_act_def Let_def channel_send_def split: option.splits)
next
  case (Missing u t)
  with assms(3) have "reader_unknown L K checks res r u t st = Panic p"
    by (cases "reader_unknown L K checks res r u t st") (simp_all add: reader_act_def Let_def)
  from missing_panics [OF assms(1,2) Missing this] Missing show ?thesis by blast
qed (use assms(3) in \<open>auto simp: reader_act_def Let_def split: option.splits\<close>)

lemma reader_push:
  assumes "readers st r = Some R" "pc R = Cached i b \<or> pc R = Sending i b"
    and "channels st i = Some q" "flume_send K b q = Some q'"
  shows "stack_step L K checks st (set_reader r (R\<lparr>pc := Waiting\<rparr>) (st\<lparr>channels := (channels st)(i \<mapsto> q')\<rparr>))"
  by (rule acts [OF assms(1), where try_res = "Inr ()"])
    (use assms in \<open>auto simp: reader_act_def Let_def channel_send_def\<close>)

text \<open>The reader's turn on a packet of an open connection changes its channel and nothing else but the reader.\<close>

lemma deliver_turn:
  assumes inv: "ok st" and R: "readers st r = Some R" "pending (purge R) = []"
    and b: "packet_for L u b" "tuples st u = Some i"
    and q: "channels st i = Some q" "flume_send K b q = Some q'"
  shows "\<exists>R'. reader_turn L K checks res r R b st = Some (Ret (set_reader r R' (st\<lparr>channels := (channels st)(i \<mapsto> q')\<rparr>)))
    \<and> pc R' = Waiting \<and> purge R' = purge R"
proof -
  from b(1) obtain ip t where p: "parse_ip_packet L b = Ret (Some (ip, t))" "u = packet_tuple L ip t"
    unfolding packet_for_def by blast
  have two: "reader_finish L K checks res 2 r x = reader_finish L K checks res (Suc (Suc 0)) r x" for x
    by (simp add: numeral_2_eq_2)
  show ?thesis
  proof (cases "cache R u")
    case (Some c)
    then have "c = i"
      using stack_invD(6) [OF inv R(1)] R(2) b(2) by (auto simp: reader_ok_def sender_ok_def)
    with Some p q show ?thesis
      by (simp add: reader_turn_def two reader_recv_def reader_act_def channel_send_def set_reader_def Let_def)
        (intro exI [of _ "R\<lparr>pc := Waiting\<rparr>"], simp)
  next
    case None
    with p b(2) q show ?thesis
      by (simp add: reader_turn_def two reader_recv_def reader_act_def channel_send_def set_reader_def Let_def)
        (intro exI [of _ "R\<lparr>cache := (cache R)(u \<mapsto> i), pc := Waiting\<rparr>"], simp)
  qed
qed

lemma deliver_run:
  assumes inv: "ok st" and R: "readers st r = Some R" "pc R = Waiting" "pending (purge R) = []"
    and b: "packet_for L u b" "tuples st u = Some i"
    and q: "channels st i = Some q" "flume_send K b q = Some q'"
  shows "\<exists>st' R'. (stack_step L K checks)\<^sup>*\<^sup>* st st' \<and> channels st' i = Some q' \<and> sockets st' = sockets st
    \<and> readers st' r = Some R' \<and> pc R' = Waiting"
proof -
  from b(1) obtain ip t where p: "parse_ip_packet L b = Ret (Some (ip, t))" "u = packet_tuple L ip t"
    unfolding packet_for_def by blast
  have push: "\<exists>st' R'. (stack_step L K checks)\<^sup>*\<^sup>* st st' \<and> channels st' i = Some q' \<and> sockets st' = sockets st
      \<and> readers st' r = Some R' \<and> pc R' = Waiting"
    if run: "(stack_step L K checks)\<^sup>*\<^sup>* st st2" and st2: "channels st2 = channels st" "sockets st2 = sockets st"
      "readers st2 r = Some R2" "pc R2 = Cached i b \<or> pc R2 = Sending i b" for st2 R2
  proof -
    let ?st' = "set_reader r (R2\<lparr>pc := Waiting\<rparr>) (st2\<lparr>channels := (channels st2)(i \<mapsto> q')\<rparr>)"
    have "stack_step L K checks st2 ?st'"
      using reader_push [OF st2(3,4), of q q' checks] q st2(1) by simp
    from rtranclp.rtrancl_into_rtrancl [OF run this] st2(2) show ?thesis
      by (intro exI [of _ ?st'] exI [of _ "R2\<lparr>pc := Waiting\<rparr>"] conjI) simp_all
  qed
  show ?thesis
  proof (cases "cache R u")
    case (Some c)
    then have c: "c = i"
      using stack_invD(6) [OF inv R(1)] R(3) b(2) by (auto simp: reader_ok_def sender_ok_def)
    have "reader_recv L (Inr b) r R st = Ret (set_reader r (R\<lparr>pc := Cached i b\<rparr>) st)"
      using Some c p by (simp add: reader_recv_def Let_def)
    from push [OF r_into_rtranclp, OF reads [OF R(1,2) this]] show ?thesis by simp
  next
    case None
    let ?R = "R\<lparr>pc := Found u i b\<rparr>"
    have "reader_recv L (Inr b) r R st = Ret (set_reader r ?R st)"
      using None b(2) p by (simp add: reader_recv_def Let_def)
    then have 1: "stack_step L K checks st (set_reader r ?R st)" by (rule reads [OF R(1,2)])
    have "stack_step L K checks (set_reader r ?R st)
        (set_reader r (?R\<lparr>cache := (cache ?R)(u \<mapsto> i), pc := Sending i b\<rparr>) (set_reader r ?R st))"
      by (rule acts [where r = r and R = ?R and try_res = "Inr ()"]) (simp_all add: reader_act_def Let_def)
    with 1 have "(stack_step L K checks)\<^sup>*\<^sup>* st
        (set_reader r (?R\<lparr>cache := (cache ?R)(u \<mapsto> i), pc := Sending i b\<rparr>) (set_reader r ?R st))" by auto
    from push [OF this] show ?thesis by simp
  qed
qed

end
section \<open>Channels as lists\<close>

definition list_channels :: "(nat \<times> bytes list, nat \<times> nat list, nat \<times> AddrTuple list) chan_lib" where
  "list_channels =
     \<lparr>flume_bounded = (\<lambda>n. (n, [])),
      flume_send = (\<lambda>x (n, q). if length q < n then Some (n, q @ [x]) else None),
      flume_recv = (\<lambda>(n, q). case q of [] \<Rightarrow> None | x # q \<Rightarrow> Some (x, (n, q))),
      mpsc_channel = (\<lambda>n. (n, [])),
      mpsc_send = (\<lambda>x (n, q). if length q < n then Some (n, q @ [x]) else None),
      mpsc_recv = (\<lambda>(n, q). case q of [] \<Rightarrow> None | x # q \<Rightarrow> Some (x, (n, q))),
      broadcast_channel = (\<lambda>n. (n, [])),
      broadcast_send = (\<lambda>t (n, q). (n, q @ [t])),
      broadcast_recv = (\<lambda>(n, q). case q of [] \<Rightarrow> None
         | t # q' \<Rightarrow> if n < length q then Some (None, (n, drop (length q - n) q)) else Some (Some t, (n, q')))\<rparr>"

interpretation lists: stack_laws wire_lib list_channels snd snd snd fst
  by unfold_locales (auto simp: list_channels_def split: prod.splits list.splits if_splits)

lemma stack_laws_lists: "stack_laws wire_lib list_channels snd snd snd fst"
  by (rule lists.stack_laws_axioms)

text \<open>A client with one open connection, reached by opening it and sending its SYN.\<close>

definition sample_stack0 :: "(nat \<times> bytes list, nat \<times> nat list, nat \<times> AddrTuple list) Stack" where
  "sample_stack0 = stack_new list_channels [0] 3325256714 None"

definition sample_tuple :: AddrTuple where
  "sample_tuple = AddrTuple (V4 (SocketAddrV4 3325256714 40000)) (V4 (SocketAddrV4 3405803796 65009))"

definition sample_stack :: "(nat \<times> bytes list, nat \<times> nat list, nat \<times> AddrTuple list) Stack" where
  "sample_stack = register list_channels 0 sample_tuple None (Connecting 0) sample_stack0"

definition sample_socket :: Socket where
  "sample_socket = socket_new 0 0 (tuple_local sample_tuple) (tuple_remote sample_tuple) None Idle"

lemma port_range_Cons: "start < 61000 \<Longrightarrow> \<exists>ps. port_range start = word_of_nat start # ps"
  by (simp add: port_range_def upt_conv_Cons)

lemma sample_opens:
  "connect_open list_channels 40000 0 (tuple_remote sample_tuple) sample_stack0 = Ret (Some (0, sample_stack))"
proof -
  obtain ps where p: "port_range 40000 = word_of_nat 40000 # ps" using port_range_Cons [of 40000] by auto
  have "connect_ports list_channels 0 (tuple_remote sample_tuple) (word_of_nat 40000 # ps) sample_stack0
      = Ret (Some (0, sample_stack))"
    by (simp add: connect_local_def sample_tuple_def sample_stack0_def stack_new_def choose_device_def
        sample_stack_def)
  then show ?thesis unfolding connect_open_def p .
qed

lemma sample_reachable: "stack_reachable wire_lib list_channels checks sample_stack"
  unfolding stack_reachable_def
proof (intro exI conjI)
  show "stack_started list_channels sample_stack0"
    by (auto simp: stack_started_def sample_stack0_def)
  show "(stack_step wire_lib list_channels checks)\<^sup>*\<^sup>* sample_stack0 sample_stack"
    by (rule r_into_rtranclp, rule opens [OF sample_opens]) simp_all
qed

lemma sample_stack_sel [simp]:
  "sockets sample_stack 0 = Some (sample_socket, Connecting 0)" "channels sample_stack 0 = Some (512, [])"
  "tuples sample_stack sample_tuple = Some 0" "devices sample_stack = [0]" "listening sample_stack = {}"
  "readers sample_stack 0 = Some \<lparr>cache = Map.empty, purge = (16, []), pc = Waiting\<rparr>"
  "some_reader sample_stack"
  by (simp_all add: sample_stack_def register_def Let_def sample_stack0_def stack_new_def sample_socket_def
      list_channels_def MPMC_BUFFER_LEN_def some_reader_def)

lemma sample_socket_tuple [simp]: "socket_tuple sample_socket = sample_tuple"
  by (simp add: sample_socket_def socket_tuple_def socket_new_def)

lemma sample_socket_tun [simp]: "tun sample_socket = 0"
  by (simp add: sample_socket_def socket_new_def)

text \<open>The server's SYN+ACK for that connection.\<close>

lemma packet_tuple_segment:
  "packet_tuple L ip t = AddrTuple (seg_dst (segment_of L ip t)) (seg_src (segment_of L ip t))"
  by (simp add: packet_tuple_def segment_of_def)

lemma sample_packet:
  obtains b ip t where "parse_ip_packet wire_lib b = Ret (Some (ip, t))" "packet_tuple wire_lib ip t = sample_tuple"
    "tcp_get_flags (tcp wire_lib) t = 18"
proof -
  have "same_family (tuple_remote sample_tuple) (tuple_local sample_tuple)"
    by (simp add: sample_tuple_def same_family_def)
  from wire.build_carries [OF this fits_None, where flags = 18 and seq = 0 and ack = 1] obtain b where
    "carries wire_lib b \<lparr>seg_src = strip_scope (tuple_remote sample_tuple),
       seg_dst = strip_scope (tuple_local sample_tuple), seg_seq = 0, seg_ack = 1, seg_flags = 18, seg_data = []\<rparr>"
    by auto
  from carries_parse [OF this] obtain ip t where p: "parse_ip_packet wire_lib b = Ret (Some (ip, t))"
    and s: "segment_of wire_lib ip t = \<lparr>seg_src = strip_scope (tuple_remote sample_tuple),
       seg_dst = strip_scope (tuple_local sample_tuple), seg_seq = 0, seg_ack = 1, seg_flags = 18, seg_data = []\<rparr>"
    by blast
  have "packet_tuple wire_lib ip t = sample_tuple"
    by (simp only: packet_tuple_segment s segment.simps) (simp add: strip_scope_def sample_tuple_def)
  moreover have "tcp_get_flags (tcp wire_lib) t = 18"
    using arg_cong [OF s, of seg_flags] by (simp add: segment_of_def)
  ultimately show ?thesis using p by (intro that)
qed

lemma sample_delivered:
  obtains b ip t st where "stack_reachable wire_lib list_channels checks st" "channels st 0 = Some (512, [b])"
    "sockets st 0 = Some (sample_socket, Connecting 0)"
proof -
  obtain b ip t where p: "parse_ip_packet wire_lib b = Ret (Some (ip, t))" "packet_tuple wire_lib ip t = sample_tuple"
    by (rule sample_packet)
  then have "packet_for wire_lib sample_tuple b" unfolding packet_for_def by metis
  from lists.deliver_run [OF lists.reachable_ok [OF sample_reachable [of checks]] sample_stack_sel(6) _ _ this
      sample_stack_sel(3,2), of "(512, [b])" checks]
  obtain st where run: "(stack_step wire_lib list_channels checks)\<^sup>*\<^sup>* sample_stack st"
    and st: "channels st 0 = Some (512, [b])" "sockets st = sockets sample_stack"
    by (auto simp: list_channels_def)
  have "stack_reachable wire_lib list_channels checks st"
    using sample_reachable [of checks] run unfolding stack_reachable_def by (blast intro: rtranclp_trans)
  with st that show ?thesis by simp
qed

lemma sample_stack0_reader:
  "readers sample_stack0 0 = Some \<lparr>cache = Map.empty, purge = (16, []), pc = Waiting\<rparr>"
  unfolding sample_stack0_def stack_new_def list_channels_def
  by (simp only: Stack.simps chan_lib.simps list.set) simp

lemma sample_missing:
  obtains st R u t where "stack_reachable wire_lib list_channels False st" "readers st 0 = Some R"
    "reader_act wire_lib list_channels False (Inl (Os 55)) 0 R st = Some (Panic Unwrap_failed)"
    "sockets st = Map.empty" "pc R = Missing u t"
proof -
  obtain b ip t where p: "parse_ip_packet wire_lib b = Ret (Some (ip, t))" "packet_tuple wire_lib ip t = sample_tuple"
    "tcp_get_flags (tcp wire_lib) t = 18" by (rule sample_packet)
  let ?Q = "\<lparr>cache = Map.empty, purge = (16 :: nat, [] :: AddrTuple list), pc = Waiting\<rparr>"
  let ?R = "?Q\<lparr>pc := Missing sample_tuple t\<rparr>" and ?st = sample_stack0
  have "tuples ?st sample_tuple = None" by (simp add: sample_stack0_def stack_new_def)
  with p have "reader_recv wire_lib (Inr b) 0 ?Q ?st = Ret (set_reader 0 ?R ?st)"
    by (simp add: reader_recv_def)
  moreover note sample_stack0_reader
  ultimately have "stack_step wire_lib list_channels False ?st (set_reader 0 ?R ?st)"
    by (intro reads [where rcv = "Inr b" and r = 0 and R = ?Q]) simp_all
  then have "stack_reachable wire_lib list_channels False (set_reader 0 ?R ?st)"
    unfolding stack_reachable_def stack_started_def sample_stack0_def by blast
  moreover have "reader_unknown wire_lib list_channels False (Inl (Os 55)) 0 sample_tuple t (set_reader 0 ?R ?st)
      = Panic Unwrap_failed"
  proof -
    have fam: "same_family (tuple_local sample_tuple) (tuple_remote sample_tuple)"
      by (simp add: sample_tuple_def same_family_def)
    have "listening (set_reader 0 ?R ?st) = {}" "devices (set_reader 0 ?R ?st) = [0]"
      by (simp_all add: sample_stack0_def stack_new_def)
    moreover have "tcp_get_flags (tcp wire_lib) t AND RST wire_lib = 0" by (simp add: p(3)) (simp add: wire_defs)
    moreover obtain buf where "build_tcp_packet wire_lib (tuple_local sample_tuple) (tuple_remote sample_tuple)
        (tcp_get_acknowledgement (tcp wire_lib) t)
        (tcp_get_sequence (tcp wire_lib) t + word_of_nat (length (tcp_payload (tcp wire_lib) t)))
        (RST wire_lib OR ACK wire_lib) None = Ret buf"
      using lists.rst_packet [OF fam] by blast
    ultimately show ?thesis by (simp add: reader_unknown_def reply_rst_def Let_def)
  qed
  ultimately show ?thesis
    by (intro that [of "set_reader 0 ?R ?st" ?R sample_tuple t])
      (simp_all add: reader_act_def Let_def, simp add: sample_stack0_def stack_new_def)
qed
section \<open>Properties\<close>

text \<open>
  C8: dispatch isolation. In every reachable state of the stack, under every interleaving of readers,
  handshakes, users and drops, each packet that waits in a socket's channel is a TCP packet from that
  socket's remote address to its local address.
\<close>

theorem dispatch_isolation:
  assumes "stack_laws L K queued backlog pending capacity" and "stack_reachable L K checks st"
    and "sockets st i = Some (s, ro)" and "channels st i = Some q" and "b \<in> set (queued q)"
  shows "\<exists>S. carries L b S \<and> seg_dst S = local_addr s \<and> seg_src S = remote_addr s"
proof -
  have "packet_for L (socket_tuple s) b"
    using queues_okD [OF stack_invD(4) [OF stack_laws.reachable_ok [OF assms(1,2)]] assms(3,4)] assms(5)
    by (simp add: list_all_iff)
  from stack_laws.packet_for_carries [OF assms(1) this] show ?thesis by (simp add: socket_tuple_def)
qed

theorem dispatch_isolation_witness:
  "\<exists>st b S. stack_reachable wire_lib list_channels False st \<and> channels st 0 = Some (512, [b])
     \<and> carries wire_lib b S \<and> seg_dst S = tuple_local sample_tuple \<and> seg_src S = tuple_remote sample_tuple"
proof -
  obtain b ip t st where st: "stack_reachable wire_lib list_channels False st" "channels st 0 = Some (512, [b])"
    "sockets st 0 = Some (sample_socket, Connecting 0)" by (rule sample_delivered)
  from dispatch_isolation [OF stack_laws_lists st(1,3,2), of b] st show ?thesis
    by (auto simp: sample_socket_def socket_new_def)
qed

text \<open>
  C19: the connection table. In every reachable state it maps exactly the addresses of the live sockets
  to their channels, no two live sockets share their addresses, and a sender that a reader has cached
  is either the registered one or belongs to a dropped socket whose purge message is still unread.
\<close>

theorem table_and_caches_coherent:
  assumes "stack_laws L K queued backlog pending capacity" and "stack_reachable L K checks st"
  shows "(\<forall>t c. tuples st t = Some c \<longleftrightarrow> (\<exists>s ro. sockets st c = Some (s, ro) \<and> socket_tuple s = t))
    \<and> (\<forall>r R t c. readers st r = Some R \<longrightarrow> cache R t = Some c \<longrightarrow>
         tuples st t = Some c \<or> sockets st c = None \<and> t \<in> set (pending (purge R)))"
proof (intro conjI allI impI)
  note ok = stack_invD [OF stack_laws.reachable_ok [OF assms]]
  show "tuples st t = Some c \<longleftrightarrow> (\<exists>s ro. sockets st c = Some (s, ro) \<and> socket_tuple s = t)" for t c
    using ok(1) unfolding table_ok_def by blast
  show "tuples st t = Some c \<or> sockets st c = None \<and> t \<in> set (pending (purge R))"
    if "readers st r = Some R" "cache R t = Some c" for r R t c
    using ok(6) [OF that(1)] that(2) unfolding reader_ok_def sender_ok_def by blast
qed

theorem table_and_caches_coherent_witness:
  "tuples sample_stack sample_tuple = Some 0
   \<and> (\<exists>s ro. sockets sample_stack 0 = Some (s, ro) \<and> socket_tuple s = sample_tuple)"
proof -
  have "tuples sample_stack sample_tuple = Some 0" by simp
  with table_and_caches_coherent [OF stack_laws_lists sample_reachable [of False]] show ?thesis by blast
qed

text \<open>
  C27: every socket is in a state that its owner expects. In every reachable state both ends of a socket
  have the same address family; a socket in the handshake is in one of the two states of its side and
  has not used up its retries; a socket that was handed over, waits to be accepted or belongs to the
  user is established, so that the \<open>unreachable!\<close> branches of \<open>send\<close>, \<open>recv\<close>, \<open>connect\<close> and \<open>accept\<close> are never taken.
\<close>

theorem sockets_well_typed:
  assumes "stack_laws L K queued backlog pending capacity" and "stack_reachable L K checks st"
    and "sockets st i = Some (s, ro)"
  shows "same_family (local_addr s) (remote_addr s)
    \<and> (case ro of Connecting n \<Rightarrow> n \<le> RETRIES \<and> state s \<in> {Idle, SynSent}
        | Accepting n \<Rightarrow> n \<le> RETRIES \<and> state s \<in> {Idle, SynReceived}
        | _ \<Rightarrow> state s = Established)"
proof -
  note ok = stack_invD(2) [OF stack_laws.reachable_ok [OF assms(1,2)]]
  have "same_family (local_addr s) (remote_addr s)"
    using sockets_okD(2) [OF ok assms(3)] by (simp add: tuple_family_def socket_tuple_def)
  with sockets_okD(1) [OF ok assms(3)] show ?thesis by (cases ro) (auto split: if_splits)
qed

theorem sockets_well_typed_witness:
  "same_family (local_addr sample_socket) (remote_addr sample_socket) \<and> state sample_socket \<in> {Idle, SynSent}"
  using sockets_well_typed [OF stack_laws_lists sample_reachable [of False] sample_stack_sel(1)] by simp

text \<open>
  C32: closing a connection. In every reachable state, dropping a live socket while a reader runs does
  not panic: the assertion that the table still holds the socket succeeds, exactly its entry is
  removed, and exactly one packet is sent, a RST with the socket's sequence number. When all readers have
  died the drop panics, because nobody receives the purge message.
\<close>

theorem close_sends_one_rst:
  assumes "stack_laws L K queued backlog pending capacity" and "stack_reachable L K checks st"
    and "sockets st i = Some (s, ro)"
  shows "if some_reader st
    then \<exists>buf st'. socket_drop L K i s st = Ret st'
      \<and> tuples st' = (tuples st)(socket_tuple s := None) \<and> sockets st' = (sockets st)(i := None)
      \<and> trace st' = trace st @ [(tun s, buf)]
      \<and> carries L buf \<lparr>seg_src = strip_scope (local_addr s), seg_dst = strip_scope (remote_addr s),
           seg_seq = seq s, seg_ack = 0, seg_flags = RST L, seg_data = []\<rparr>
    else socket_drop L K i s st = Panic Unwrap_failed"
  using stack_laws.close_effect [OF assms(1) stack_laws.reachable_ok [OF assms(1,2)] assms(3)]
    stack_laws.close_without_reader [OF assms(1) stack_laws.reachable_ok [OF assms(1,2)] assms(3)] by presburger

theorem close_sends_one_rst_witness:
  "\<exists>buf st'. socket_drop wire_lib list_channels 0 sample_socket sample_stack = Ret st'
     \<and> tuples st' sample_tuple = None \<and> trace st' = trace sample_stack @ [(0, buf)]"
  using close_sends_one_rst [OF stack_laws_lists sample_reachable [of False] sample_stack_sel(1)] sample_stack_sel(7)
  by auto

text \<open>
  A packet for an open connection is delivered. When a reader has processed its purge messages and
  the socket's channel has room, a packet whose addresses are registered is appended to exactly that
  socket's channel, whether the sender was cached or not, and the reader waits for the next packet.
\<close>

theorem dispatch_delivers:
  assumes "stack_laws L K queued backlog pending capacity" and "stack_reachable L K checks st"
    and "readers st r = Some R" and "pc R = Waiting" and "pending (purge R) = []"
    and "parse_ip_packet L b = Ret (Some (ip, t))" and "tuples st (packet_tuple L ip t) = Some i"
    and "channels st i = Some q" and "flume_send K b q = Some q'"
  shows "\<exists>st' R'. (stack_step L K checks)\<^sup>*\<^sup>* st st' \<and> channels st' i = Some q' \<and> queued q' = queued q @ [b]
    \<and> sockets st' = sockets st \<and> readers st' r = Some R' \<and> pc R' = Waiting"
proof -
  have "packet_for L (packet_tuple L ip t) b" using assms(6) unfolding packet_for_def by blast
  from stack_laws.deliver_run [OF assms(1) stack_laws.reachable_ok [OF assms(1,2)] assms(3-5) this assms(7-9)]
    channel_laws.flume_push [OF stack_laws.axioms(2) [OF assms(1)] assms(9)]
  show ?thesis by blast
qed

theorem dispatch_delivers_witness:
  "\<exists>b st'. (stack_step wire_lib list_channels False)\<^sup>*\<^sup>* sample_stack st' \<and> channels st' 0 = Some (512, [b])"
proof -
  obtain b ip t where p: "parse_ip_packet wire_lib b = Ret (Some (ip, t))" "packet_tuple wire_lib ip t = sample_tuple"
    by (rule sample_packet)
  from dispatch_delivers [OF stack_laws_lists sample_reachable [of False] sample_stack_sel(6) _ _ p(1) _
      sample_stack_sel(2), of "(512, [b])"] p(2)
  show ?thesis by (auto simp: list_channels_def)
qed

text \<open>
  Why a reader can die. In a reachable state a reader that is processing a packet panics only when
  the socket was dropped between the lookup of its sender and the send, when the device refuses the
  reset it answers with, or on an overflow in a build that checks it. The assertion on a new
  connection never fails.
\<close>

theorem reader_panics_only:
  assumes "stack_laws L K queued backlog pending capacity" and "stack_reachable L K checks st"
    and "readers st r = Some R" and "reader_act L K checks res r R st = Some (Panic p)"
  shows "(\<exists>c b. pc R = Sending c b \<and> sockets st c = None \<and> p = Unwrap_failed)
    \<or> (\<exists>u t. pc R = Missing u t \<and> ((\<exists>e. res = Inl e \<and> p = Unwrap_failed) \<or> checks \<and> p = Arithmetic_overflow))"
  by (rule stack_laws.reader_act_panics [OF assms(1) stack_laws.reachable_ok [OF assms(1,2)] assms(3,4)])

theorem reader_panics_only_witness:
  "\<exists>st R u t. stack_reachable wire_lib list_channels False st \<and> readers st 0 = Some R \<and> pc R = Missing u t
     \<and> reader_act wire_lib list_channels False (Inl (Os 55)) 0 R st = Some (Panic Unwrap_failed)
     \<and> \<not> (\<exists>c b. pc R = Sending c b)"
proof -
  obtain st R u t where st: "stack_reachable wire_lib list_channels False st" "readers st 0 = Some R"
    "reader_act wire_lib list_channels False (Inl (Os 55)) 0 R st = Some (Panic Unwrap_failed)"
    "sockets st = Map.empty" "pc R = Missing u t" by (rule sample_missing)
  from reader_panics_only [OF stack_laws_lists st(1-3)] st show ?thesis by auto
qed

text \<open>
  C35: port allocation. For an address family the stack can use, \<open>connect\<close> takes the first free port
  from the drawn one up to 60999, registers a fresh idle socket under it, and reports exhaustion
  exactly when each of these ports is in use with the same remote address; it never panics.
\<close>

theorem connect_takes_first_free_port:
  assumes "can_reach addr st" and "devices st \<noteq> []" and "start \<le> 60999"
  shows "connect_open K start draw addr st = Ret (map_option
     (\<lambda>p. (next_id st, register K (devices st ! (draw mod length (devices st)))
             (AddrTuple (own_addr addr p st) addr) None (Connecting 0) st))
     (find (port_free addr st) (port_range start)))
    \<and> (connect_open K start draw addr st = Ret None \<longleftrightarrow>
      (\<forall>p. start \<le> unat p \<longrightarrow> unat p \<le> 60999 \<longrightarrow> \<not> port_free addr st p))"
proof (rule conjI)
  show eq: "connect_open K start draw addr st = Ret (map_option
     (\<lambda>p. (next_id st, register K (devices st ! (draw mod length (devices st)))
             (AddrTuple (own_addr addr p st) addr) None (Connecting 0) st))
     (find (port_free addr st) (port_range start)))"
    unfolding connect_open_def by (rule connect_ports_eq [OF assms(1,2)])
  show "connect_open K start draw addr st = Ret None \<longleftrightarrow>
      (\<forall>p. start \<le> unat p \<longrightarrow> unat p \<le> 60999 \<longrightarrow> \<not> port_free addr st p)"
    unfolding eq using set_port_range [OF assms(3)] by (auto simp: find_None_iff)
qed

theorem connect_takes_first_free_port_witness:
  "connect_open list_channels 40000 0 (tuple_remote sample_tuple) sample_stack0
     = Ret (map_option (\<lambda>p. (0, register list_channels 0
         (AddrTuple (own_addr (tuple_remote sample_tuple) p sample_stack0) (tuple_remote sample_tuple)) None (Connecting 0)
         sample_stack0)) (find (port_free (tuple_remote sample_tuple) sample_stack0) (port_range 40000)))"
proof -
  have "can_reach (tuple_remote sample_tuple) sample_stack0" "devices sample_stack0 = [0]" "next_id sample_stack0 = 0"
    by (simp_all add: can_reach_def sample_tuple_def sample_stack0_def stack_new_def)
  from connect_takes_first_free_port [OF this(1), of 40000 list_channels 0] this(2,3) show ?thesis by simp
qed

text \<open>
  Segments that belong to no connection, on a port nobody listens on. A segment with the RST flag
  is ignored, so resets are never answered; any other segment is answered by exactly one RST+ACK to
  its sender that takes its acknowledgement number and acknowledges its payload.
\<close>

theorem unknown_segment_reset:
  assumes "packet_layout L" and "parse_ip_packet L b = Ret (Some (ip, t))" and "packet_tuple L ip t = u"
    and "tcp_get_destination (tcp L) t \<notin> listening st" and "devices st = d # ds"
  shows "\<exists>out. reader_unknown L K False (Inr ()) r u t st = Ret (st\<lparr>trace := trace st @ out\<rparr>)
    \<and> (if tcp_get_flags (tcp L) t AND RST L = 0
       then \<exists>buf. out = [(d, buf)]
         \<and> carries L buf \<lparr>seg_src = tuple_local u, seg_dst = tuple_remote u,
             seg_seq = tcp_get_acknowledgement (tcp L) t,
             seg_ack = tcp_get_sequence (tcp L) t + word_of_nat (length (tcp_payload (tcp L) t)),
             seg_flags = RST L OR ACK L, seg_data = []\<rparr>
       else out = [])"
proof -
  have fam: "same_family (tuple_local u) (tuple_remote u)"
    using same_family_packet [of L ip t] assms(3) by (simp add: tuple_family_def)
  have plain: "strip_scope (tuple_local u) = tuple_local u" "strip_scope (tuple_remote u) = tuple_remote u"
    using assms(3) by (auto simp: packet_tuple_def strip_scope_def)
  from packet_layout.build_carries [OF assms(1) fam fits_None, where flags = "RST L OR ACK L"
      and seq = "tcp_get_acknowledgement (tcp L) t"
      and ack = "tcp_get_sequence (tcp L) t + word_of_nat (length (tcp_payload (tcp L) t))"]
  show ?thesis
    using assms(4,5) unfolding plain
    by (cases "tcp_get_flags (tcp L) t AND RST L = 0") (auto simp: reader_unknown_def reply_rst_def Let_def)
qed

theorem unknown_segment_reset_witness:
  "\<exists>t buf. reader_unknown wire_lib list_channels False (Inr ()) 0 sample_tuple t sample_stack0
     = Ret (sample_stack0\<lparr>trace := trace sample_stack0 @ [(0, buf)]\<rparr>)"
proof -
  obtain b ip t where p: "parse_ip_packet wire_lib b = Ret (Some (ip, t))" "packet_tuple wire_lib ip t = sample_tuple"
    "tcp_get_flags (tcp wire_lib) t = 18" by (rule sample_packet)
  have "tcp_get_destination (tcp wire_lib) t \<notin> listening sample_stack0" "devices sample_stack0 = [0]"
    by (simp_all add: sample_stack0_def stack_new_def)
  from unknown_segment_reset [OF packet_layout_wire_lib p(1,2) this, of list_channels 0] p(3)
  show ?thesis by (auto simp: wire_defs)
qed
section \<open>The handshake inside the stack\<close>

context stack_laws
begin

lemma connect_poll_total:
  assumes inv: "ok st" and i: "sockets st i = Some (s, Connecting n)" and rd: "some_reader st"
  shows "\<exists>st'. connect_poll L K False res i s n st = Ret st'"
proof (cases "n = RETRIES")
  case True
  with socket_drop_total [OF inv i rd] show ?thesis by (auto simp: connect_poll_def)
next
  case False
  note sok = sockets_okD [OF stack_invD(2) [OF inv] i]
  obtain ev st1 where p: "poll_when (state s = SynSent) K i s st = (ev, st1)" by fastforce
  note st1 = poll_when_inv [OF inv p i]
  have "\<exists>E. event_is L ev E"
  proof (cases ev)
    case (Received b)
    with st1 packet_for_carries [of "socket_tuple s" b] obtain S where "carries L b S" by blast
    with Received have "event_is L ev (Some S)" by (simp add: event_is_def)
    then show ?thesis by blast
  qed (use st1 in \<open>auto simp: event_is_def\<close>)
  moreover have "wf_socket s" "in_handshake s"
    using sok by (auto simp: wf_socket_def tuple_family_def socket_tuple_def in_handshake_def split: if_splits)
  ultimately obtain r s' out where c: "connect_step L False res ev s = Ret (r, s', out)"
    using connect_step_total by (metis prod_cases3)
  note ends = connect_step_ends [OF c]
  have same: "devices st1 = devices st" "readers st1 = readers st"
    using p poll_channel_inv [OF inv _ i, of ev st1] by (auto simp: poll_when_def split: if_splits)
  have "\<exists>st'. socket_drop L K i s' (put_socket i s' (Connecting n) out st1) = Ret st'" if "r = Some None"
  proof -
    have "ok (put_socket i s' (Connecting n) out st1)"
      using st1 i ends(1,4) sok(1) that
      by (intro put_socket_inv [of _ _ _ _ st1 i s "Connecting n"]) (auto split: if_splits)
    from socket_drop_total [OF this, of i s' "Connecting n"] rd same show ?thesis
      by (auto simp: some_reader_def)
  qed
  with False p c show ?thesis by (auto simp: connect_poll_def split: option.splits)
qed

end

text \<open>
  A connecting task never panics. In every reachable state of a build without overflow checks, each
  iteration of the handshake of a connecting socket ends normally, whatever the device answers and
  whatever packets were dispatched: the channel cannot be disconnected because the table holds its
  sender, every queued packet parses, and a failed handshake closes the socket.
\<close>

theorem connecting_never_panics:
  assumes "stack_laws L K queued backlog pending capacity" and "stack_reachable L K checks st"
    and "sockets st i = Some (s, Connecting n)" and "some_reader st"
  shows "\<exists>st'. connect_poll L K False tun_result i s n st = Ret st'"
  by (rule stack_laws.connect_poll_total [OF assms(1) stack_laws.reachable_ok [OF assms(1,2)] assms(3,4)])

theorem connecting_never_panics_witness:
  "\<exists>st'. connect_poll wire_lib list_channels False (Inl (Os 55)) 0 sample_socket 0 sample_stack = Ret st'"
  using connecting_never_panics [OF stack_laws_lists sample_reachable [of False] sample_stack_sel(1) sample_stack_sel(7)]
  by blast

section \<open>How a reader can be lost\<close>

text \<open>Dropping sockets while a reader does not run.\<close>

fun drop_all ::
  "('c, 'm, 'b) chan_lib \<Rightarrow> (nat \<times> Socket \<times> bytes) list \<Rightarrow> ('c, 'm, 'b) Stack \<Rightarrow> ('c, 'm, 'b) Stack" where
  "drop_all K [] st = st"
| "drop_all K ((i, s, buf) # xs) st = drop_all K xs (dropped K i s buf st)"

lemma drop_all_pending:
  assumes "channel_laws K queued backlog pending capacity" "readers st r = Some R"
  shows "\<exists>R'. readers (drop_all K xs st) r = Some R' \<and> length (pending (purge R')) = length (pending (purge R)) + length xs
    \<and> capacity (purge R') = capacity (purge R)"
  using assms(2)
proof (induction xs arbitrary: st R)
  case (Cons x xs)
  obtain i s buf where x: "x = (i, s, buf)" by (cases x) auto
  let ?R = "R\<lparr>purge := broadcast_send K (socket_tuple s) (purge R)\<rparr>"
  have "readers (dropped K i s buf st) r = Some ?R" using Cons.prems by (simp add: dropped_def)
  from Cons.IH [OF this] x show ?case
    by (simp add: channel_laws.broadcast_push [OF assms(1)])
qed auto

text \<open>
  The purge channel holds 16 messages. When more than 16 connections are dropped while a reader is
  busy, its next read of the channel reports that it lagged, and the \<open>unwrap\<close> of that error ends the
  reader for good.
\<close>

theorem purge_lag_kills_reader:
  assumes "channel_laws K queued backlog pending capacity"
    and "readers st r = Some \<lparr>cache = m, purge = broadcast_channel K 16, pc = p\<rparr>" and "16 < length xs"
  shows "\<exists>R. readers (drop_all K xs st) r = Some R
    \<and> reader_purge K r R (drop_all K xs st) = Some (Panic Unwrap_failed)"
proof -
  from drop_all_pending [OF assms(1,2), of xs] obtain R where R: "readers (drop_all K xs st) r = Some R"
    "length (pending (purge R)) = length xs" "capacity (purge R) = 16"
    by (auto simp: channel_laws.broadcast_new [OF assms(1)])
  have "capacity (purge R) < length (pending (purge R))" using assms(3) R(2,3) by simp
  then obtain b where "broadcast_recv K (purge R) = Some (None, b)"
    using channel_laws.broadcast_lag [OF assms(1)] by blast
  with R(1) show ?thesis by (auto simp: reader_purge_def)
qed

theorem purge_lag_kills_reader_witness:
  "\<exists>R. readers (drop_all list_channels (replicate 17 (0, sample_socket, [])) sample_stack) 0 = Some R
    \<and> reader_purge list_channels 0 R (drop_all list_channels (replicate 17 (0, sample_socket, [])) sample_stack)
        = Some (Panic Unwrap_failed)"
proof -
  have "readers sample_stack 0 = Some \<lparr>cache = Map.empty, purge = broadcast_channel list_channels 16, pc = Waiting\<rparr>"
    by (simp add: list_channels_def)
  from purge_lag_kills_reader [OF lists.channel_laws_axioms this, of "replicate 17 (0, sample_socket, [])"]
  show ?thesis by simp
qed

text \<open>
  Two readers that both miss the table for the same SYN. The first one registers the connection;
  the assertion that the insertion found no entry then fails in the second one.
\<close>

theorem concurrent_syn_asserts:
  assumes "tcp_get_flags (tcp L) t = SYN L" and "tcp_get_destination (tcp L) t \<in> listening st"
    and "tcp_get_sequence (tcp L) t = 0" and "tuples st u = None"
  shows "\<exists>st'. reader_unknown L K checks res r u t st = Ret st'
    \<and> reader_unknown L K checks res' r' u t st' = Panic Assertion_failed"
  using assms by (auto simp: reader_unknown_def Let_def add_u32_def register_def)

theorem concurrent_syn_asserts_witness:
  "\<exists>t st'. reader_unknown wire_lib list_channels False (Inr ()) 0 sample_tuple t (sample_stack0\<lparr>listening := {40000}\<rparr>) = Ret st'
    \<and> reader_unknown wire_lib list_channels False (Inr ()) 1 sample_tuple t st' = Panic Assertion_failed"
proof -
  let ?t = "tcp_wire 65009 40000 0 0 2 0 []"
  have "tcp_get_flags (tcp wire_lib) ?t = SYN wire_lib" "tcp_get_destination (tcp wire_lib) ?t = 40000"
    "tcp_get_sequence (tcp wire_lib) ?t = 0"
    using wire.tcp_wire_fields [OF refl, of 65009 40000 0 0 2 0 "[]"] by (simp_all add: wire_lib_def)
  then show ?thesis
    using concurrent_syn_asserts [of wire_lib ?t "sample_stack0\<lparr>listening := {40000}\<rparr>" sample_tuple
        list_channels False "Inr ()" 0 "Inr ()" 1]
    by (auto simp: sample_stack0_def stack_new_def)
qed

end
