(* ===== verification/Device.thy ===== *)
theory Device
  imports Firewall Dispatch_Properties
begin

text \<open>
  \<open>MacPacketDevice\<close>: the composition of capture, raw sender and firewall guard into the device the
  stack uses, and the contract between a device and the reader task.
\<close>

section \<open>The device\<close>

record MacPacketDevice =
  dev_capture :: BpfCapture
  dev_sender :: RawPacketSender
  dev_firewall :: FirewallGuard
  interface_name :: string

text \<open>What the constructor calls: the \<open>route\<close> command and the three system interfaces.\<close>

record ('p, 'w) platform =
  show_error :: "io_error \<Rightarrow> string"
  p_route :: "string list \<Rightarrow> pf_output io"
  p_bpf :: "'p bpf_kernel"
  p_raw :: raw_kernel
  p_firewall :: "'w fw_system"

definition device_new ::
  "libc_abi \<Rightarrow> sock_abi \<Rightarrow> bpf_abi \<Rightarrow> ('p, 'w) platform \<Rightarrow> socket_addr \<Rightarrow> socket_addr_v6 option \<Rightarrow> 'w
     \<Rightarrow> MacPacketDevice io \<times> 'w" where
  "device_new C A B P remote local_ipv6 w =
     (case in_context (show_error P) ''resolve the outbound interface''
             (route_interface (p_route P) (addr_ip remote)) of
        Inl e \<Rightarrow> (Inl e, w)
      | Inr ifname \<Rightarrow>
          (case in_context (show_error P) ''open the macOS BPF capture''
                  (capture_open (show_error P) B (p_bpf P) ifname remote) of
             Inl e \<Rightarrow> (Inl e, w)
           | Inr cap \<Rightarrow>
               (case in_context (show_error P) ''open the raw TCP sender''
                       (raw_sender_new A C (p_raw P) remote local_ipv6) of
                  Inl e \<Rightarrow> (Inl e, w)
                | Inr sender \<Rightarrow>
                    let (r, w) = firewall_install (p_firewall P) remote w in
                    (io_bind (in_context (show_error P) ''install the temporary PF rule'' r) (\<lambda>guard.
                       Inr \<lparr>dev_capture = cap, dev_sender = sender, dev_firewall = guard,
                            interface_name = ''BPF/'' @ ifname\<rparr>), w))))"

definition device_recv ::
  "packet_lib \<Rightarrow> libc_abi \<Rightarrow> (string + bytes option io) list \<Rightarrow> bytes \<Rightarrow> MacPacketDevice
     \<Rightarrow> (nat io \<times> bytes \<times> MacPacketDevice) outcome option" where
  "device_recv L C rounds buffer dev =
     map_option (\<lambda>res. obind res (\<lambda>(r, buffer, cap). Ret (r, buffer, dev\<lparr>dev_capture := cap\<rparr>)))
       (read_packet L C rounds buffer (dev_capture dev))"

definition device_send ::
  "libc_abi \<Rightarrow> sock_abi \<Rightarrow> (unit io \<times> sendto_call) list \<Rightarrow> bytes \<Rightarrow> MacPacketDevice \<Rightarrow> nat io option" where
  "device_send C A rounds buffer dev = raw_sender_send A C (dev_sender dev) rounds buffer"

definition device_try_send ::
  "libc_abi \<Rightarrow> sock_abi \<Rightarrow> sendto_call \<Rightarrow> bytes \<Rightarrow> MacPacketDevice \<Rightarrow> unit io" where
  "device_try_send C A sendto buffer dev = raw_sender_try_send A C (dev_sender dev) sendto buffer"

definition device_name :: "MacPacketDevice \<Rightarrow> string" where
  "device_name dev = interface_name dev"

text \<open>Dropping the device drops the guard; the descriptors have no other state.\<close>

definition device_drop :: "'w fw_system \<Rightarrow> MacPacketDevice \<Rightarrow> 'w \<Rightarrow> 'w" where
  "device_drop S dev w = firewall_drop S (dev_firewall dev) w"

section \<open>The contract of a device\<close>

text \<open>
  The reader task unwraps and indexes without checks; it relies on devices that deliver only packets
  which the parser accepts as TCP.
\<close>

locale tun_device =
  fixes L :: packet_lib
    and delivers :: "bytes \<Rightarrow> bool"
  assumes delivers_tcp: "delivers b \<Longrightarrow> \<exists>S. carries L b S"
begin

lemma reader_survives:
  assumes "delivers b"
  shows "\<not> panics (reader_recv L (Inr b) r R st)"
proof -
  obtain S where "carries L b S" using delivers_tcp [OF assms] ..
  then obtain ip t where "parse_ip_packet L b = Ret (Some (ip, t))" by (rule carries_parse_ip)
  then show ?thesis by (simp add: reader_recv_def Let_def split: option.splits)
qed

end

sublocale bpf_decoder \<subseteq> tun: tun_device L "from_server L C remote" for remote
  by unfold_locales (auto simp: from_server_def)

interpretation mac_tun: tun_device wire_lib "from_server wire_lib darwin_libc remote" for remote
  by (rule mac.tun.tun_device_axioms)

lemma in_context_Inr [simp]: "in_context show c m = Inr x \<longleftrightarrow> m = Inr x"
  by (cases m) (simp_all add: in_context_def)

lemma in_context_Inl: "in_context show c m = Inl e \<Longrightarrow> \<exists>e'. m = Inl e' \<and> error_kind e = error_kind e'"
  by (cases m) (auto simp: in_context_def contextual_error_def)

lemma device_new_parts:
  assumes "device_new C A B P remote local_ipv6 w = (Inr dev, w')"
  shows "capture_open (show_error P) B (p_bpf P) (drop 4 (interface_name dev)) remote = Inr (dev_capture dev)"
    "raw_sender_new A C (p_raw P) remote local_ipv6 = Inr (dev_sender dev)"
    "firewall_install (p_firewall P) remote w = (Inr (dev_firewall dev), w')"
  using assms
  by (auto simp: device_new_def io_bind_eq_Inr_iff split: sum.splits prod.splits)

lemma device_new_failed:
  assumes "device_new C A B P remote local_ipv6 w = (Inl e, w')"
  shows "w' = w \<or> (\<exists>e'. firewall_install (p_firewall P) remote w = (Inl e', w'))"
  using assms
  by (auto simp: device_new_def split: sum.splits prod.splits elim!: io_bind.elims dest: in_context_Inl)

text \<open>What opening the device asks of the packet filter, and what dropping it asks to undo.\<close>

lemma device_new_fails:
  assumes "fw_log (p_firewall P) log" and "device_new C A B P remote local_ipv6 w = (Inl e, w')"
  shows "\<exists>calls. log w' = log w @ calls \<and> settled calls"
  using device_new_failed [OF assms(2)]
proof
  assume "w' = w"
  then show ?thesis by (intro exI [of _ "[]"]) (simp add: settled_def account_def)
qed (use fw_log.installed [OF assms(1), of remote w] in fastforce)

lemma device_new_effect:
  assumes "fw_log (p_firewall P) log" and "device_new C A B P remote local_ipv6 w = (Inr dev, w')"
  shows "\<exists>calls. log w' = log w @ calls \<and> blocking (dev_firewall dev) remote calls"
  using fw_log.installed [OF assms(1) device_new_parts(3) [OF assms(2)]] by auto

lemma device_drop_settles:
  assumes "fw_log (p_firewall P) log" and "device_new C A B P remote local_ipv6 w = (Inr dev, w')"
  shows "\<exists>calls. log (device_drop (p_firewall P) dev w') = log w @ calls \<and> settled calls"
  using device_new_effect [OF assms] fw_log.dropped_settles [OF assms(1)] by (auto simp: device_drop_def)

context bpf_decoder
begin

lemmas axioms_tun = tun.tun_device_axioms

end

lemma opened_capture:
  "capture_open sh B K ifn remote = Inr cap \<Longrightarrow> capture_ok L C cap \<and> cap_remote cap = remote \<and> queue cap = []"
  by (auto simp: capture_open_def configure_bpf_def io_bind_eq_Inr_iff Let_def capture_ok_def split: if_splits)

section \<open>A platform\<close>

definition sample_platform :: "(string, unit \<times> fw_call list) platform" where
  "sample_platform = \<lparr>show_error = (\<lambda>e. []),
     p_route = (\<lambda>args. Inr \<lparr>out_success = True, out_stdout = printed [''interface: en0''], out_stderr = []\<rparr>),
     p_bpf = sample_bpf_kernel, p_raw = granting_kernel, p_firewall = sim_system\<rparr>"

definition sample_device :: MacPacketDevice where
  "sample_device = \<lparr>dev_capture = sample_capture, dev_sender = Ipv4 7 (raw_destination_v4 darwin_sock darwin_libc (SocketAddrV4 3405803796 65009)),
     dev_firewall = \<lparr>anchor = [], token = [], cleanup_helper = None\<rparr>, interface_name = ''BPF/en0''\<rparr>"

lemma sample_capture_open:
  obtains cap where "capture_open (\<lambda>e. []) darwin_bpf sample_bpf_kernel ''en0'' remote = Inr cap"
proof -
  have "[0..<256] = 0 # 1 # [2..<256]" by (simp only: upt_conv_Cons) (simp add: upt_conv_Cons)
  then have "open_bpf_device darwin_bpf sample_bpf_kernel = Inr 5"
    by (simp add: open_bpf_device_def sample_bpf_kernel_def darwin_bpf_def sys_check_def show_nat.simps)
  then show ?thesis
    by (intro that) (simp add: capture_open_def configure_bpf_def in_context_def install_bpf_filter_def
        compile_bpf_filter_def sample_bpf_kernel_def darwin_bpf_def sys_check_def from_dlt_def
        BPF_DLT_NULL_def BPF_DLT_EN10MB_def)
qed

lemma sample_route: "parse_route_interface (printed [''interface: en0'']) = Some ''en0''"
proof -
  have "line_field ''interface'' ''interface: en0'' = Some ''en0''"
    by (simp add: line_field_def split_once_def trim_def is_space_def)
  from find_field_printed [of "[]" "''interface: en0''" "[]", OF _ _ this] show ?thesis
    by (simp add: parse_route_interface_def plain_line_def NL_def CR_def)
qed

lemma sample_device_opens:
  obtains dev w' where "device_new darwin_libc darwin_sock darwin_bpf sample_platform (V4 (SocketAddrV4 1 2)) None
      ((), []) = (Inr dev, w')"
proof -
  obtain cap where cap: "capture_open (\<lambda>e. []) darwin_bpf sample_bpf_kernel ''en0'' (V4 (SocketAddrV4 1 2)) = Inr cap"
    by (rule sample_capture_open)
  obtain sender where s: "raw_sender_new darwin_sock darwin_libc granting_kernel (V4 (SocketAddrV4 1 2)) None = Inr sender"
    by (simp add: granting_kernel_def open_raw_socket_def set_nonblocking_def sys_check_def)
  obtain g w' where g: "firewall_install sim_system (V4 (SocketAddrV4 1 2)) ((), []) = (Inr g, w')"
    using sim_installs by blast
  have "route_interface (p_route sample_platform) (addr_ip (V4 (SocketAddrV4 1 2))) = Inr ''en0''"
    by (simp add: route_interface_def sample_platform_def sample_route)
  with cap s g show ?thesis
    by (intro that) (simp add: device_new_def sample_platform_def in_context_def)
qed

section \<open>Properties\<close>

text \<open>
  C29: one server, three mechanisms. When the device opens, its capture, its raw sender and its firewall
  rule are all set up for the same configured server, and the calls made have left exactly that rule and its reference in
  place. When it does not open, everything that \<open>pfctl\<close> reported as done has been asked to be
  undone; and so it is when the opened device is dropped. What \<open>pfctl\<close> answers is arbitrary.
\<close>

theorem device_consistent:
  assumes "fw_log (p_firewall P) log" and "device_new C A B P remote local_ipv6 w = (r, w')"
  shows "case r of
      Inl e \<Rightarrow> \<exists>calls. log w' = log w @ calls \<and> settled calls
    | Inr dev \<Rightarrow> cap_remote (dev_capture dev) = remote \<and> capture_ok L C (dev_capture dev)
        \<and> raw_sender_new A C (p_raw P) remote local_ipv6 = Inr (dev_sender dev)
        \<and> (\<exists>calls. log w' = log w @ calls \<and> blocking (dev_firewall dev) remote calls)
        \<and> (\<exists>calls. log (device_drop (p_firewall P) dev w') = log w @ calls \<and> settled calls)"
proof (cases r)
  case (Inl e)
  with device_new_fails [OF assms(1)] assms(2) show ?thesis by simp
next
  case (Inr dev)
  note opened = assms(2) [unfolded Inr]
  from device_new_effect [OF assms(1) opened] device_drop_settles [OF assms(1) opened] device_new_parts [OF opened]
    opened_capture [of _ B "p_bpf P" _ remote "dev_capture dev" L C] Inr show ?thesis by auto
qed

theorem device_consistent_witness:
  "\<exists>dev w'. device_new darwin_libc darwin_sock darwin_bpf sample_platform (V4 (SocketAddrV4 1 2)) None ((), []) = (Inr dev, w')
    \<and> blocking (dev_firewall dev) (V4 (SocketAddrV4 1 2)) (snd w')
    \<and> settled (snd (device_drop sim_system dev w'))"
proof -
  obtain dev w' where d: "device_new darwin_libc darwin_sock darwin_bpf sample_platform (V4 (SocketAddrV4 1 2)) None ((), [])
      = (Inr dev, w')" by (rule sample_device_opens)
  have p: "p_firewall sample_platform = sim_system" by (simp add: sample_platform_def)
  with sim_log have "fw_log (p_firewall sample_platform) snd" by simp
  from device_consistent [OF this d, of wire_lib] d p show ?thesis by auto
qed

text \<open>
  C33: the device keeps the reader alive. Whatever the kernel returns, receiving never panics, and when
  it succeeds the packet left in the reader's buffer is one on which the reader's handler does not
  panic.
\<close>

theorem device_recv_feeds_reader:
  assumes "bpf_decoder L C" and "capture_ok L C (dev_capture dev)"
    and "device_recv L C rounds (replicate MAX_PACKET_LEN 0) dev = Some res"
  shows "\<exists>r buf dev'. res = Ret (r, buf, dev') \<and> capture_ok L C (dev_capture dev')
    \<and> (case r of Inl e \<Rightarrow> True
       | Inr n \<Rightarrow> n \<le> MAX_PACKET_LEN \<and> \<not> panics (reader_recv L (Inr (take n buf)) rd R st))"
proof -
  obtain res' where res': "read_packet L C rounds (replicate MAX_PACKET_LEN 0) (dev_capture dev) = Some res'"
    and res: "res = obind res' (\<lambda>(r, buffer, cap). Ret (r, buffer, dev\<lparr>dev_capture := cap\<rparr>))"
    using assms(3) by (auto simp: device_recv_def)
  from bpf_decoder.read_packet_ok [OF assms(1) res' assms(2)] obtain r buf cap where
    r: "res' = Ret (r, buf, cap)" "capture_ok L C cap"
    "\<forall>n. r = Inr n \<longrightarrow> n \<le> MAX_PACKET_LEN \<and> from_server L C (cap_remote (dev_capture dev)) (take n buf)"
    unfolding read_result_def by auto
  have "\<not> panics (reader_recv L (Inr (take n buf)) rd R st)" if "r = Inr n" for n
  proof -
    have "tun_device L (from_server L C (cap_remote (dev_capture dev)))"
      by (rule bpf_decoder.axioms_tun [OF assms(1)])
    from tun_device.reader_survives [OF this, of "take n buf" rd R st] r(3) that show ?thesis by blast
  qed
  with r res show ?thesis by (auto split: sum.splits)
qed

theorem device_recv_feeds_reader_witness:
  "\<exists>r buf dev'. device_recv wire_lib darwin_libc [Inr (Inr (Some [1, 2, 3]))] (replicate MAX_PACKET_LEN 0) sample_device
     = Some (Ret (r, buf, dev')) \<and> capture_ok wire_lib darwin_libc (dev_capture dev')"
proof -
  have "capture_ok wire_lib darwin_libc (dev_capture sample_device)"
    by (simp add: capture_ok_def sample_capture_def sample_device_def)
  moreover have "\<exists>res. device_recv wire_lib darwin_libc [Inr (Inr (Some [1, 2, 3]))] (replicate MAX_PACKET_LEN 0) sample_device
      = Some res"
    by (simp add: device_recv_def read_packet.simps [of _ _ "[_]"] sample_capture_def sample_device_def
        decode_records_def mac.header_min decode_loop.simps [of _ _ _ _ _ 0])
  ultimately show ?thesis
    using device_recv_feeds_reader [OF bpf_decoder_mac, of sample_device _ _ 0 undefined sample_stack] by blast
qed

text \<open>
  C14: from the server's stack into the client's socket. Take a packet that the server builds for an open
  connection, framed by the link and captured in a BPF record. When the device has nothing queued, it
  returns this packet byte for byte; and when the reader then is between two packets and has read its purge
  messages, and the connection's channel has room, the reader's turn on it, undisturbed by other tasks,
  appends the packet to the channel of exactly the socket that holds the connection and changes nothing
  else but the reader's cache. The server's address must have no scope.
\<close>

theorem server_packet_reaches_socket:
  assumes "bpf_decoder L C" and "stack_laws L K queued backlog pending capacity"
    and "stack_reachable L K checks st"
    and "build_tcp_packet L remote l sq ak flags payload = Ret b" and "unscoped remote" and "unscoped l"
    and "cap_remote (dev_capture dev) = remote" and "queue (dev_capture dev) = []"
    and "framed C (link_type (dev_capture dev)) b frame" and "length frame < 65536" and "length b \<le> MAX_PACKET_LEN"
    and "readers st r = Some R" and "pending (purge R) = []"
    and "tuples st (AddrTuple l remote) = Some i" and "channels st i = Some q" and "flume_send K b q = Some q'"
  shows "device_recv L C [Inr (Inr (Some (stream [record_of frame] None)))] (replicate MAX_PACKET_LEN 0) dev
      = Some (Ret (Inr (length b), b @ replicate (MAX_PACKET_LEN - length b) 0, dev))
    \<and> (\<exists>R'. reader_turn L K checks res r R b st = Some (Ret (set_reader r R' (st\<lparr>channels := (channels st)(i \<mapsto> q')\<rparr>)))
         \<and> pc R' = Waiting \<and> purge R' = purge R)
    \<and> queued q' = queued q @ [b]"
proof (intro conjI)
  let ?cap = "dev_capture dev"
  have "read_packet L C [Inr (Inr (Some (stream [record_of frame] None)))] (replicate MAX_PACKET_LEN 0) ?cap
      = Some (Ret (Inr (length b), write_at 0 b (replicate MAX_PACKET_LEN 0), ?cap\<lparr>queue := []\<rparr>))"
    using read_packet_first [of ?cap "[]" L C _ "[b]" "replicate MAX_PACKET_LEN 0" b "[]" "[]"]
      server_record_decoded [OF assms(1,4,5) assms(9,10)] assms(7,8,11) by auto
  moreover have "?cap\<lparr>queue := []\<rparr> = ?cap" "dev\<lparr>dev_capture := ?cap\<rparr> = dev"
    using assms(8) by (cases ?cap; simp)+
  ultimately show "device_recv L C [Inr (Inr (Some (stream [record_of frame] None)))] (replicate MAX_PACKET_LEN 0) dev
      = Some (Ret (Inr (length b), b @ replicate (MAX_PACKET_LEN - length b) 0, dev))"
    by (simp add: device_recv_def write_at_def)
next
  have "packet_for L (AddrTuple l remote) b"
  proof -
    have pl: "packet_layout L" using assms(1) by (rule bpf_decoder.axioms)
    have "same_family remote l" "fits remote flags payload"
      using packet_layout.build_panics_iff [OF pl, of remote l sq ak flags payload] assms(4) by auto
    from packet_layout.build_carries [OF pl this, of sq ak] assms(4) obtain S where
      "carries L b S" "seg_src S = strip_scope remote" "seg_dst S = strip_scope l" by auto
    then have S: "carries L b S" "seg_src S = remote" "seg_dst S = l"
      using assms(5,6) by (simp_all add: strip_scope_def socket_addr_new_self)
    from carries_parse_ip [OF S(1)] obtain ip t where
      "parse_ip_packet L b = Ret (Some (ip, t))" "segment_of L ip t = S" by blast
    with S(2,3) show ?thesis unfolding packet_for_def packet_tuple_segment by blast
  qed
  from stack_laws.deliver_turn [OF assms(2) stack_laws.reachable_ok [OF assms(2,3)] assms(12,13) this assms(14-16)]
  show "\<exists>R'. reader_turn L K checks res r R b st = Some (Ret (set_reader r R' (st\<lparr>channels := (channels st)(i \<mapsto> q')\<rparr>)))
      \<and> pc R' = Waiting \<and> purge R' = purge R" .
qed (rule channel_laws.flume_push [OF stack_laws.axioms(2) [OF assms(2)] assms(16)])

theorem server_packet_reaches_socket_witness:
  "\<exists>b R R'. device_recv wire_lib darwin_libc [Inr (Inr (Some (stream [record_of b] None)))]
        (replicate MAX_PACKET_LEN 0) sample_device
      = Some (Ret (Inr 44, b @ replicate (MAX_PACKET_LEN - 44) 0, sample_device))
    \<and> readers sample_stack 0 = Some R
    \<and> reader_turn wire_lib list_channels False (Inr ()) 0 R b sample_stack
        = Some (Ret (set_reader 0 R' (sample_stack\<lparr>channels := (channels sample_stack)(0 \<mapsto> (512, [b]))\<rparr>)))"
proof -
  let ?r = "V4 (SocketAddrV4 3405803796 65009)" and ?l = "V4 (SocketAddrV4 3325256714 40000)"
  obtain b where b: "build_tcp_packet wire_lib ?r ?l 0 1 18 None = Ret b" "length b = 44" by (rule sample_built)
  have dev: "cap_remote (dev_capture sample_device) = ?r" "queue (dev_capture sample_device) = []"
    "link_type (dev_capture sample_device) = Raw"
    by (simp_all add: sample_device_def sample_capture_def)
  have f: "framed darwin_libc (link_type (dev_capture sample_device)) b b" by (simp add: dev(3) framed_def)
  have t: "tuples sample_stack (AddrTuple ?l ?r) = Some 0" using sample_stack_sel(3) by (simp add: sample_tuple_def)
  from server_packet_reaches_socket [OF bpf_decoder_mac stack_laws_lists sample_reachable [of False] b(1) _ _ dev(1,2) f
      _ _ sample_stack_sel(6) _ t sample_stack_sel(2), of "(512, [b])" "Inr ()"] b(2) sample_stack_sel(6)
  show ?thesis by (fastforce simp: list_channels_def MAX_PACKET_LEN_def)
qed

end
