(* ===== verification/Config.thy ===== *)
theory Config
  imports Device
begin

text \<open>
  \<open>phantun-client-mac/src/config.rs\<close> and the set-up half of \<open>main.rs\<close>: the configuration file, the
  command line, their precedence, and the addresses the forwarder is started with. Parameters: the
  file system, \<open>serde_json\<close> (which fields a document has), \<open>clap\<close> (which options were given), name
  lookup, address parsing and the UDP probe sockets.
\<close>

section \<open>Configuration\<close>

record Route =
  dest :: string
  gateway :: string

record Config =
  cfg_local :: string
  cfg_remote :: string
  cfg_ipv4_only :: bool
  cfg_tun_local :: string
  cfg_tun_peer :: string
  cfg_tun_local6 :: string
  cfg_tun_peer6 :: string
  cfg_routes :: "Route list"

definition default_local :: string where "default_local = ''127.0.0.1:8080''"
definition default_remote :: string where "default_remote = ''127.0.0.1:65000''"
definition default_tun_local :: string where "default_tun_local = ''192.168.200.1''"
definition default_tun_peer :: string where "default_tun_peer = ''192.168.200.2''"
definition default_tun_local6 :: string where "default_tun_local6 = ''fcc8::1''"
definition default_tun_peer6 :: string where "default_tun_peer6 = ''fcc8::2''"

definition config_default :: Config where
  "config_default = \<lparr>cfg_local = default_local, cfg_remote = default_remote, cfg_ipv4_only = False,
     cfg_tun_local = default_tun_local, cfg_tun_peer = default_tun_peer,
     cfg_tun_local6 = default_tun_local6, cfg_tun_peer6 = default_tun_peer6, cfg_routes = []\<rparr>"

text \<open>The fields a JSON document has; \<open>None\<close> for an absent one.\<close>

record config_fields =
  f_local :: "string option"
  f_remote :: "string option"
  f_ipv4_only :: "bool option"
  f_tun_local :: "string option"
  f_tun_peer :: "string option"
  f_tun_local6 :: "string option"
  f_tun_peer6 :: "string option"
  f_routes :: "Route list option"

definition unwrap_or :: "'a \<Rightarrow> 'a option \<Rightarrow> 'a" where
  "unwrap_or d v = (case v of None \<Rightarrow> d | Some x \<Rightarrow> x)"

text \<open>The \<open>serde(default)\<close> attributes of the struct.\<close>

definition config_of_fields :: "config_fields \<Rightarrow> Config" where
  "config_of_fields f = \<lparr>cfg_local = unwrap_or default_local (f_local f),
     cfg_remote = unwrap_or default_remote (f_remote f),
     cfg_ipv4_only = unwrap_or False (f_ipv4_only f),
     cfg_tun_local = unwrap_or default_tun_local (f_tun_local f),
     cfg_tun_peer = unwrap_or default_tun_peer (f_tun_peer f),
     cfg_tun_local6 = unwrap_or default_tun_local6 (f_tun_local6 f),
     cfg_tun_peer6 = unwrap_or default_tun_peer6 (f_tun_peer6 f),
     cfg_routes = unwrap_or [] (f_routes f)\<rparr>"

definition load_config ::
  "(string \<Rightarrow> string io) \<Rightarrow> (string \<Rightarrow> config_fields option) \<Rightarrow> string \<Rightarrow> Config" where
  "load_config read_to_string from_str path =
     (case read_to_string path of
        Inr content \<Rightarrow>
          (case from_str content of Some f \<Rightarrow> config_of_fields f | None \<Rightarrow> config_default)
      | Inl e \<Rightarrow> config_default)"

section \<open>Command line\<close>

record arg_spec =
  arg_id :: string
  arg_short :: "char option"
  arg_long :: string
  arg_flag :: bool

definition option_arg :: "string \<Rightarrow> char option \<Rightarrow> string \<Rightarrow> arg_spec" where
  "option_arg i s l = \<lparr>arg_id = i, arg_short = s, arg_long = l, arg_flag = False\<rparr>"

definition command :: "arg_spec list" where
  "command =
     [option_arg ''config'' (Some CHR ''c'') ''config'',
      option_arg ''local'' (Some CHR ''l'') ''local'',
      option_arg ''remote'' (Some CHR ''r'') ''remote'',
      (option_arg ''ipv4_only'' (Some CHR ''4'') ''ipv4-only'')\<lparr>arg_flag := True\<rparr>,
      option_arg ''tun_local'' None ''tun-local'',
      option_arg ''tun_peer'' None ''tun-peer'']"

text \<open>
  The matches of one run: the value of each option that was given, and the flags. Asking for an
  option that the command does not declare, or for one of the other kind, panics in \<open>clap\<close>.
\<close>

record arg_matches =
  m_values :: "string \<Rightarrow> string option"
  m_flags :: "string \<Rightarrow> bool"

definition get_one :: "arg_matches \<Rightarrow> string \<Rightarrow> string option outcome" where
  "get_one m i =
     (if list_ex (\<lambda>a. arg_id a = i \<and> \<not> arg_flag a) command then Ret (m_values m i) else Panic Unwrap_failed)"

definition get_flag :: "arg_matches \<Rightarrow> string \<Rightarrow> bool outcome" where
  "get_flag m i =
     (if list_ex (\<lambda>a. arg_id a = i \<and> arg_flag a) command then Ret (m_flags m i) else Panic Unwrap_failed)"

text \<open>\<open>RuntimeConfig\<close> has the fields of \<open>Config\<close>.\<close>

type_synonym RuntimeConfig = Config

definition from_loaded_config :: "arg_matches \<Rightarrow> Config \<Rightarrow> RuntimeConfig outcome" where
  "from_loaded_config m config =
     obind (get_one m ''local'') (\<lambda>l.
     obind (get_one m ''remote'') (\<lambda>r.
     obind (get_flag m ''ipv4_only'') (\<lambda>v4.
     obind (get_one m ''tun_local'') (\<lambda>tl.
     obind (get_one m ''tun_peer'') (\<lambda>tp.
       Ret \<lparr>cfg_local = unwrap_or (cfg_local config) l, cfg_remote = unwrap_or (cfg_remote config) r,
            cfg_ipv4_only = (v4 \<or> cfg_ipv4_only config),
            cfg_tun_local = unwrap_or (cfg_tun_local config) tl, cfg_tun_peer = unwrap_or (cfg_tun_peer config) tp,
            cfg_tun_local6 = cfg_tun_local6 config, cfg_tun_peer6 = cfg_tun_peer6 config,
            cfg_routes = cfg_routes config\<rparr>)))))"

definition from_matches ::
  "(string \<Rightarrow> string io) \<Rightarrow> (string \<Rightarrow> config_fields option) \<Rightarrow> arg_matches \<Rightarrow> RuntimeConfig outcome" where
  "from_matches read_to_string from_str m =
     (let config = load_config read_to_string from_str ''phantun-client.json'' in
      obind (get_one m ''config'') (\<lambda>path.
        let config = (case path of Some p \<Rightarrow> load_config read_to_string from_str p | None \<Rightarrow> config)
        in from_loaded_config m config))"

definition select_remote_address :: "socket_addr list \<Rightarrow> bool \<Rightarrow> socket_addr option" where
  "select_remote_address addresses ipv4_only = find (\<lambda>a. \<not> ipv4_only \<or> is_ipv4 a) addresses"

section \<open>The set-up in main\<close>

definition UDP_TTL :: nat where "UDP_TTL = 180"

record ForwarderConfig =
  fw_remote_addr :: socket_addr
  fake_tcp_local_ipv4 :: ipv4_addr
  fake_tcp_local_ipv6 :: "ipv6_addr option"
  worker_count :: nat
  udp_ttl :: nat

text \<open>A probe socket: the results of \<open>bind\<close>, \<open>connect\<close> and \<open>local_addr\<close>.\<close>

record udp_probe =
  probe_bind :: "string \<Rightarrow> unit io"
  probe_connect :: "socket_addr \<Rightarrow> unit io"
  probe_local :: "socket_addr io"

definition discover_local_ipv4 :: "udp_probe \<Rightarrow> socket_addr \<Rightarrow> ipv4_addr io" where
  "discover_local_ipv4 U remote =
     io_bind (probe_bind U ''0.0.0.0:0'') (\<lambda>_.
     io_bind (probe_connect U remote) (\<lambda>_.
     io_bind (probe_local U) (\<lambda>a. case a of
        V4 a \<Rightarrow> Inr (ip4 a)
      | V6 _ \<Rightarrow> Inl (Custom AddrNotAvailable ''no IPv4 address available''))))"

definition discover_local_ipv6 :: "udp_probe \<Rightarrow> socket_addr \<Rightarrow> socket_addr_v6 io" where
  "discover_local_ipv6 U remote =
     (case remote of
        V4 _ \<Rightarrow> Inl (Custom InvalidInput ''IPv6 source discovery requires an IPv6 remote'')
      | V6 _ \<Rightarrow>
          io_bind (probe_bind U ''[::]:0'') (\<lambda>_.
          io_bind (probe_connect U remote) (\<lambda>_.
          io_bind (probe_local U) (\<lambda>a. case a of
             V6 a \<Rightarrow> Inr a
           | V4 _ \<Rightarrow> Inl (Custom AddrNotAvailable ''no IPv6 address available'')))))"

record main_env =
  parse_socket_addr :: "string \<Rightarrow> socket_addr option"
  parse_ipv4 :: "string \<Rightarrow> ipv4_addr option"
  parse_ipv6 :: "string \<Rightarrow> ipv6_addr option"
  lookup_host :: "string \<Rightarrow> socket_addr list io"
  probe :: udp_probe
  num_cpus :: nat

definition expect :: "string \<Rightarrow> 'a option \<Rightarrow> 'a outcome" where
  "expect msg v = (case v of Some x \<Rightarrow> Ret x | None \<Rightarrow> Panic (Expect_failed msg))"

definition expect_io :: "string \<Rightarrow> 'a io \<Rightarrow> 'a outcome" where
  "expect_io msg v = (case v of Inr x \<Rightarrow> Ret x | Inl e \<Rightarrow> Panic (Expect_failed msg))"

text \<open>
  \<open>main\<close> from the runtime configuration to the start of the device: the UDP listening address, the
  IPv6 source for the device, and the forwarder's configuration.
\<close>

definition main_setup ::
  "main_env \<Rightarrow> RuntimeConfig \<Rightarrow> (socket_addr \<times> socket_addr_v6 option \<times> ForwarderConfig) outcome" where
  "main_setup E config =
     obind (expect ''bad local address'' (parse_socket_addr E (cfg_local config))) (\<lambda>local.
     obind (expect_io ''bad remote address or host'' (lookup_host E (cfg_remote config))) (\<lambda>addresses.
     obind (expect ''unable to resolve remote host name''
              (select_remote_address addresses (cfg_ipv4_only config))) (\<lambda>remote.
     obind (expect ''bad local address for Tun interface'' (parse_ipv4 E (cfg_tun_local config))) (\<lambda>_.
     obind (expect ''bad peer address for Tun interface'' (parse_ipv4 E (cfg_tun_peer config))) (\<lambda>_.
     obind (if cfg_ipv4_only config then Ret ()
            else obind (expect ''bad local address for Tun interface'' (parse_ipv6 E (cfg_tun_local6 config))) (\<lambda>_.
                 obind (expect ''bad peer address for Tun interface'' (parse_ipv6 E (cfg_tun_peer6 config))) (\<lambda>_.
                   Ret ()))) (\<lambda>_.
     obind (if is_ipv6 remote
            then obind (expect_io ''failed to determine local IPv6 address for the configured remote''
                   (discover_local_ipv6 (probe E) remote)) (\<lambda>a. Ret (Some a))
            else Ret None) (\<lambda>local_ipv6.
     obind (if is_ipv4 remote
            then expect_io ''failed to determine local IPv4 address'' (discover_local_ipv4 (probe E) remote)
            else Ret 0) (\<lambda>tun_local_addr.
       Ret (local, local_ipv6,
         \<lparr>fw_remote_addr = remote, fake_tcp_local_ipv4 = tun_local_addr,
          fake_tcp_local_ipv6 = map_option ip6 local_ipv6, worker_count = num_cpus E, udp_ttl = UDP_TTL\<rparr>)))))))))"

section \<open>Properties\<close>

text \<open>The fields of the configuration file that is in effect; all absent when it cannot be read or parsed.\<close>

definition no_fields :: config_fields where
  "no_fields = \<lparr>f_local = None, f_remote = None, f_ipv4_only = None, f_tun_local = None, f_tun_peer = None,
     f_tun_local6 = None, f_tun_peer6 = None, f_routes = None\<rparr>"

definition file_fields ::
  "(string \<Rightarrow> string io) \<Rightarrow> (string \<Rightarrow> config_fields option) \<Rightarrow> string \<Rightarrow> config_fields" where
  "file_fields read_to_string from_str path =
     (case read_to_string path of Inl e \<Rightarrow> no_fields | Inr s \<Rightarrow> unwrap_or no_fields (from_str s))"

text \<open>The first value that is present, in order of precedence.\<close>

fun first_of :: "'a option list \<Rightarrow> 'a \<Rightarrow> 'a" where
  "first_of [] d = d"
| "first_of (None # vs) d = first_of vs d"
| "first_of (Some v # vs) d = v"

lemma config_default_fields: "config_default = config_of_fields no_fields"
  by (simp add: config_default_def config_of_fields_def no_fields_def unwrap_or_def)

lemma load_config_fields: "load_config rd js path = config_of_fields (file_fields rd js path)"
  by (simp add: load_config_def file_fields_def config_default_fields unwrap_or_def split: sum.splits option.splits)

lemma first_of_nested: "first_of [c] (first_of [v] d) = first_of [c, v] d"
  by (cases c; cases v) simp_all

text \<open>
  C38: precedence of the configuration. The run never fails on its configuration: each value comes from
  the command line when given there, otherwise from the file (the one named by \<open>--config\<close>, or
  \<open>phantun-client.json\<close>), otherwise from the documented default, which also replaces a file that cannot
  be read or parsed as a whole; the \<open>ipv4_only\<close> flag can only be switched on by the command line.
\<close>

theorem config_precedence:
  "\<exists>cfg. from_matches rd js m = Ret cfg \<and>
     (let f = file_fields rd js (first_of [m_values m ''config''] ''phantun-client.json'') in
      cfg_local cfg = first_of [m_values m ''local'', f_local f] ''127.0.0.1:8080''
      \<and> cfg_remote cfg = first_of [m_values m ''remote'', f_remote f] ''127.0.0.1:65000''
      \<and> cfg_ipv4_only cfg = (m_flags m ''ipv4_only'' \<or> first_of [f_ipv4_only f] False)
      \<and> cfg_tun_local cfg = first_of [m_values m ''tun_local'', f_tun_local f] ''192.168.200.1''
      \<and> cfg_tun_peer cfg = first_of [m_values m ''tun_peer'', f_tun_peer f] ''192.168.200.2''
      \<and> cfg_tun_local6 cfg = first_of [f_tun_local6 f] ''fcc8::1''
      \<and> cfg_tun_peer6 cfg = first_of [f_tun_peer6 f] ''fcc8::2''
      \<and> cfg_routes cfg = first_of [f_routes f] [])"
proof -
  have one: "unwrap_or d v = first_of [v] d" for d :: 'x and v
    by (cases v) (simp_all add: unwrap_or_def)
  have args: "get_one m i = Ret (m_values m i)" if "i \<in> {''config'', ''local'', ''remote'', ''tun_local'', ''tun_peer''}" for i
    using that by (auto simp: get_one_def command_def option_arg_def)
  have flag: "get_flag m ''ipv4_only'' = Ret (m_flags m ''ipv4_only'')"
    by (simp add: get_flag_def command_def option_arg_def)
  show ?thesis
    by (cases "m_values m ''config''")
      (simp_all add: from_matches_def from_loaded_config_def args flag load_config_fields config_of_fields_def
        first_of_nested one Let_def default_local_def default_remote_def default_tun_local_def
        default_tun_peer_def default_tun_local6_def default_tun_peer6_def)
qed


definition sample_main_env :: main_env where
  "sample_main_env = \<lparr>parse_socket_addr = (\<lambda>s. Some (V4 (SocketAddrV4 2130706433 8080))), parse_ipv4 = (\<lambda>s. Some 1),
     parse_ipv6 = (\<lambda>s. Some 1), lookup_host = (\<lambda>h. Inr [V6 (SocketAddrV6 1 65009 0 0), V4 (SocketAddrV4 3405803796 65009)]),
     probe = \<lparr>probe_bind = (\<lambda>a. Inr ()), probe_connect = (\<lambda>a. Inr ()), probe_local = Inr (V4 (SocketAddrV4 3325256714 40000))\<rparr>,
     num_cpus = 8\<rparr>"


end
