(* ===== verification/Forwarder.thy ===== *)
theory Forwarder
  imports Config
begin

text \<open>
  \<open>phantun-client-mac/src/forwarder.rs\<close> and \<open>udp_recv_pktinfo\<close> of \<open>udp.rs\<close>: the main loop that maps UDP
  clients to fake TCP connections, the workers that carry answers back, and the task that ends idle
  connections. The tasks run concurrently and share the connection table, so the forwarder is a step
  relation: each definition is what one task does between two of its \<open>await\<close> points, and the answers of
  the UDP socket and of the fake TCP sockets are arguments. The timeout may fire at any time. The
  second half is the invariant of the table.
\<close>

section \<open>State\<close>

text \<open>
  One worker task: waiting in \<open>select!\<close>, handing a received payload to the UDP socket, or finished.
\<close>

datatype worker_pc = Waiting | Delivering bytes | Finished

text \<open>
  A connection, with the tasks that were spawned for it. \<open>quit\<close>: the token is cancelled;
  \<open>packet_received\<close>: the stored permit of the \<open>Notify\<close>; \<open>timer\<close>: the timeout task is running; \<open>alive\<close>: the
  socket is not dropped yet. Connections are identified by the order in which they were opened.
\<close>

record Connection =
  peer :: socket_addr
  quit :: bool
  packet_received :: bool
  workers :: "worker_pc list"
  timer :: bool
  alive :: bool

text \<open>
  The main loop waits in \<open>select!\<close>, sends over an existing connection (whose \<open>Arc\<close> it has cloned), dials
  for a new client, sends the client's first datagram over the new connection, cancels the
  connections it has taken out of the table, or has returned.
\<close>

datatype main_pc =
    Listening
  | Sending socket_addr nat bytes
  | Dialing socket_addr bytes
  | Greeting socket_addr nat bytes
  | Cancelling "nat set"
  | Stopped

text \<open>What crosses the two sockets: datagrams of clients, payloads to and from connections, answers, and drops.\<close>

datatype fw_event =
    From_client socket_addr bytes
  | Tcp_send nat bytes
  | Tcp_recv nat bytes
  | To_client socket_addr bytes
  | Sock_drop nat

record Fwd =
  table :: "socket_addr \<rightharpoonup> nat"
  conns :: "Connection list"
  main :: main_pc
  events :: "fw_event list"

definition fwd_new :: Fwd where
  "fwd_new = \<lparr>table = Map.empty, conns = [], main = Listening, events = []\<rparr>"

definition set_conn :: "nat \<Rightarrow> Connection \<Rightarrow> Fwd \<Rightarrow> Fwd" where
  "set_conn c C st = st\<lparr>conns := (conns st)[c := C]\<rparr>"

definition emit :: "fw_event \<Rightarrow> Fwd \<Rightarrow> Fwd" where
  "emit e st = st\<lparr>events := events st @ [e]\<rparr>"

definition cancel :: "nat \<Rightarrow> Fwd \<Rightarrow> Fwd" where
  "cancel c st = set_conn c ((conns st ! c)\<lparr>quit := True\<rparr>) st"

section \<open>The main loop\<close>

text \<open>
  \<open>recv_from\<close> writes at most the buffer's length; the first component of the answer is \<open>buffer[..size]\<close>.
\<close>

definition udp_recv_pktinfo ::
  "nat \<Rightarrow> (bytes \<times> socket_addr) io \<Rightarrow> socket_addr io \<Rightarrow> (bytes \<times> socket_addr \<times> ip_addr) io" where
  "udp_recv_pktinfo room recv_from bound =
     io_bind recv_from (\<lambda>(datagram, remote_addr).
     io_bind bound (\<lambda>l. Inr (take room datagram, remote_addr, addr_ip l)))"

text \<open>The receive branch up to the choice between an existing and a new connection.\<close>

definition udp_received :: "(bytes \<times> socket_addr) io \<Rightarrow> socket_addr io \<Rightarrow> Fwd \<Rightarrow> Fwd" where
  "udp_received recv_from bound st =
     (case udp_recv_pktinfo MAX_PACKET_LEN recv_from bound of
        Inl e \<Rightarrow> st\<lparr>main := Stopped\<rparr>
      | Inr (d, udp_remote_addr, _) \<Rightarrow>
          let st = emit (From_client udp_remote_addr d) st in
          (case table st udp_remote_addr of
             Some c \<Rightarrow> st\<lparr>main := Sending udp_remote_addr c d\<rparr>
           | None \<Rightarrow> st\<lparr>main := Dialing udp_remote_addr d\<rparr>))"

text \<open>The result of \<open>send\<close> over an existing connection is ignored.\<close>

definition sent_existing :: "nat \<Rightarrow> bytes \<Rightarrow> Fwd \<Rightarrow> Fwd" where
  "sent_existing c d st = (emit (Tcp_send c d) st)\<lparr>main := Listening\<rparr>"

text \<open>\<open>stack.connect\<close> returned.\<close>

definition fresh_connection :: "socket_addr \<Rightarrow> Connection" where
  "fresh_connection x = \<lparr>peer = x, quit = False, packet_received = False, workers = [], timer = False, alive = True\<rparr>"

definition dialed :: "bool \<Rightarrow> socket_addr \<Rightarrow> bytes \<Rightarrow> Fwd \<Rightarrow> Fwd" where
  "dialed connected x d st =
     (if connected
      then st\<lparr>conns := conns st @ [fresh_connection x], main := Greeting x (length (conns st)) d\<rparr>
      else st\<lparr>main := Listening\<rparr>)"

definition spawn_connection_workers :: "nat \<Rightarrow> Connection \<Rightarrow> Connection" where
  "spawn_connection_workers n C = C\<lparr>workers := replicate n Waiting\<rparr>"

definition spawn_connection_timeout :: "Connection \<Rightarrow> Connection" where
  "spawn_connection_timeout C = C\<lparr>timer := True\<rparr>"

text \<open>
  The first datagram was sent; on success the connection is entered into the table, which must not
  have the client yet, and its tasks are spawned.
\<close>

definition greeted :: "nat \<Rightarrow> unit option \<Rightarrow> socket_addr \<Rightarrow> nat \<Rightarrow> bytes \<Rightarrow> Fwd \<Rightarrow> Fwd outcome" where
  "greeted n send_result x c d st =
     (let st = (emit (Tcp_send c d) st)\<lparr>main := Listening\<rparr> in
      case send_result of
        None \<Rightarrow> Ret st
      | Some _ \<Rightarrow>
          if table st x \<noteq> None then Panic Assertion_failed
          else Ret (set_conn c (spawn_connection_timeout (spawn_connection_workers (max n 1) (conns st ! c)))
                     (st\<lparr>table := (table st)(x \<mapsto> c)\<rparr>)))"

text \<open>
  The shutdown branch: \<open>cancel_all_connections\<close> empties the table, then cancels what was in it, in the
  arbitrary order of a hash map.
\<close>

definition take_all_connections :: "Fwd \<Rightarrow> Fwd" where
  "take_all_connections st = st\<lparr>table := Map.empty, main := Cancelling (Map.ran (table st))\<rparr>"

definition cancel_next :: "nat \<Rightarrow> nat set \<Rightarrow> Fwd \<Rightarrow> Fwd" where
  "cancel_next c S st = (cancel c st)\<lparr>main := Cancelling (S - {c})\<rparr>"

text \<open>
  Inside \<open>stack.connect\<close> the main loop may also panic (\<open>dial_panics\<close>), which ends it as an error of the UDP socket does.
\<close>

inductive main_step :: "nat \<Rightarrow> Fwd \<Rightarrow> Fwd \<Rightarrow> bool" for n :: nat where
  receives: "main st = Listening \<Longrightarrow> main_step n st (udp_received recv_from bound st)"
| sends: "main st = Sending x c d \<Longrightarrow> main_step n st (sent_existing c d st)"
| dials: "main st = Dialing x d \<Longrightarrow> main_step n st (dialed connected x d st)"
| dial_panics: "main st = Dialing x d \<Longrightarrow> main_step n st (st\<lparr>main := Stopped\<rparr>)"
| greets: "main st = Greeting x c d \<Longrightarrow> greeted n res x c d st = Ret st' \<Longrightarrow> main_step n st st'"
| shuts_down: "main st = Listening \<Longrightarrow> main_step n st (take_all_connections st)"
| cancels: "main st = Cancelling S \<Longrightarrow> c \<in> S \<Longrightarrow> main_step n st (cancel_next c S st)"
| returns: "main st = Cancelling {} \<Longrightarrow> main_step n st (st\<lparr>main := Stopped\<rparr>)"

section \<open>Workers\<close>

text \<open>
  What a task of a connection continues with: the answer of \<open>recv\<close> or of \<open>send_to\<close>, the cancellation of its
  connection, the end of the timeout, or a notification.
\<close>

datatype branch = On_recv | On_sent | On_quit | On_sleep | On_notified

definition set_worker :: "nat \<Rightarrow> nat \<Rightarrow> worker_pc \<Rightarrow> Fwd \<Rightarrow> Fwd" where
  "set_worker c w p st = (let C = conns st ! c in set_conn c (C\<lparr>workers := (workers C)[w := p]\<rparr>) st)"

definition notify :: "nat \<Rightarrow> Fwd \<Rightarrow> Fwd" where
  "notify c st = set_conn c ((conns st ! c)\<lparr>packet_received := True\<rparr>) st"

text \<open>\<open>socket.recv\<close> returned.\<close>

definition worker_recv :: "bytes option \<Rightarrow> nat \<Rightarrow> nat \<Rightarrow> Fwd \<Rightarrow> Fwd" where
  "worker_recv result c w st =
     (case result of
        None \<Rightarrow> set_worker c w Finished (cancel c st)
      | Some d \<Rightarrow>
          let st = emit (Tcp_recv c d) st in
          if d \<noteq> [] then set_worker c w (Delivering d) st else notify c st)"

text \<open>\<open>udp_socket.send_to\<close> returned.\<close>

definition worker_sent :: "nat io \<Rightarrow> bytes \<Rightarrow> nat \<Rightarrow> nat \<Rightarrow> Fwd \<Rightarrow> Fwd" where
  "worker_sent result d c w st =
     (let st = emit (To_client (peer (conns st ! c)) d) st in
      case result of
        Inl e \<Rightarrow> set_worker c w Finished (cancel c st)
      | Inr _ \<Rightarrow> set_worker c w Waiting (notify c st))"

definition worker_at :: "nat \<Rightarrow> nat \<Rightarrow> Fwd \<Rightarrow> worker_pc \<Rightarrow> bool" where
  "worker_at c w st p \<longleftrightarrow> c < length (conns st) \<and> w < length (workers (conns st ! c)) \<and> workers (conns st ! c) ! w = p"

inductive worker_step :: "nat \<Rightarrow> branch \<Rightarrow> Fwd \<Rightarrow> Fwd \<Rightarrow> bool" for c :: nat where
  worker_receives: "worker_at c w st Waiting \<Longrightarrow> worker_step c On_recv st (worker_recv result c w st)"
| worker_delivers: "worker_at c w st (Delivering d) \<Longrightarrow> worker_step c On_sent st (worker_sent sent d c w st)"
| worker_quits: "worker_at c w st Waiting \<Longrightarrow> quit (conns st ! c) \<Longrightarrow> worker_step c On_quit st (set_worker c w Finished st)"

section \<open>The timeout task\<close>

text \<open>
  \<open>udp_ttl\<close> elapsed without a notification: the client's entry is removed and the connection found
  there, or the task's own, is cancelled.
\<close>

definition stop_timer :: "nat \<Rightarrow> Fwd \<Rightarrow> Fwd" where
  "stop_timer c st = set_conn c ((conns st ! c)\<lparr>timer := False\<rparr>) st"

definition remove_entry :: "socket_addr \<Rightarrow> Fwd \<Rightarrow> Fwd" where
  "remove_entry x st = st\<lparr>table := (table st)(x := None)\<rparr>"

definition timer_expires :: "nat \<Rightarrow> Fwd \<Rightarrow> Fwd" where
  "timer_expires c st =
     (let x = peer (conns st ! c) in
      case table st x of
        Some c' \<Rightarrow> stop_timer c (cancel c' (remove_entry x st))
      | None \<Rightarrow> stop_timer c (cancel c (remove_entry x st)))"

definition timer_quits :: "nat \<Rightarrow> Fwd \<Rightarrow> Fwd" where
  "timer_quits c st = stop_timer c (remove_entry (peer (conns st ! c)) st)"

definition timer_resets :: "nat \<Rightarrow> Fwd \<Rightarrow> Fwd" where
  "timer_resets c st = set_conn c ((conns st ! c)\<lparr>packet_received := False\<rparr>) st"

inductive timer_step :: "nat \<Rightarrow> branch \<Rightarrow> Fwd \<Rightarrow> Fwd \<Rightarrow> bool" for c :: nat where
  expires: "c < length (conns st) \<Longrightarrow> timer (conns st ! c) \<Longrightarrow> timer_step c On_sleep st (timer_expires c st)"
| quits: "c < length (conns st) \<Longrightarrow> timer (conns st ! c) \<Longrightarrow> quit (conns st ! c) \<Longrightarrow> timer_step c On_quit st (timer_quits c st)"
| resets: "c < length (conns st) \<Longrightarrow> timer (conns st ! c) \<Longrightarrow> packet_received (conns st ! c)
    \<Longrightarrow> timer_step c On_notified st (timer_resets c st)"

section \<open>Dropping the socket\<close>

text \<open>
  The socket is shared by the table, the main loop and the workers; it is dropped when the last of
  them lets go.
\<close>

fun main_holds :: "nat \<Rightarrow> main_pc \<Rightarrow> bool" where
  "main_holds c (Sending x c' d) \<longleftrightarrow> c' = c"
| "main_holds c (Greeting x c' d) \<longleftrightarrow> c' = c"
| "main_holds c (Cancelling S) \<longleftrightarrow> c \<in> S"
| "main_holds c p \<longleftrightarrow> False"

definition running :: "Connection \<Rightarrow> bool" where
  "running C \<longleftrightarrow> list_ex (\<lambda>p. p \<noteq> Finished) (workers C)"

definition referenced :: "nat \<Rightarrow> Fwd \<Rightarrow> bool" where
  "referenced c st \<longleftrightarrow> table st (peer (conns st ! c)) = Some c \<or> main_holds c (main st) \<or> running (conns st ! c)"

definition drop_connection :: "nat \<Rightarrow> Fwd \<Rightarrow> Fwd" where
  "drop_connection c st = emit (Sock_drop c) (set_conn c ((conns st ! c)\<lparr>alive := False\<rparr>) st)"

inductive drop_step :: "nat \<Rightarrow> Fwd \<Rightarrow> Fwd \<Rightarrow> bool" for c :: nat where
  drops: "c < length (conns st) \<Longrightarrow> alive (conns st ! c) \<Longrightarrow> \<not> referenced c st \<Longrightarrow> drop_step c st (drop_connection c st)"

text \<open>One step of the whole forwarder.\<close>

definition fw_step :: "nat \<Rightarrow> Fwd \<Rightarrow> Fwd \<Rightarrow> bool" where
  "fw_step n st st' \<longleftrightarrow> main_step n st st' \<or> (\<exists>c. (\<exists>b. worker_step c b st st' \<or> timer_step c b st st') \<or> drop_step c st st')"
lemmas fw_ops = emit_def set_conn_def cancel_def set_worker_def notify_def stop_timer_def remove_entry_def
  drop_connection_def timer_resets_def timer_quits_def timer_expires_def worker_recv_def worker_sent_def
  sent_existing_def dialed_def take_all_connections_def cancel_next_def Let_def

section \<open>The invariant of the connection table\<close>

fun shut :: "main_pc \<Rightarrow> bool" where
  "shut (Cancelling S) = True"
| "shut Stopped = True"
| "shut p = False"

text \<open>Every entry names a connection of that client whose timeout task is running.\<close>

definition entries_ok :: "Fwd \<Rightarrow> bool" where
  "entries_ok st \<longleftrightarrow> (\<forall>x c. table st x = Some c \<longrightarrow>
     c < length (conns st) \<and> peer (conns st ! c) = x \<and> timer (conns st ! c))"

text \<open>
  A running timeout task owns the entry of its client, unless the main loop has shut down and
  cancelled the connection or is about to. A connection without one is cancelled or was never entered.
  A socket that was dropped is referenced by nobody, and was dropped once.
\<close>

definition conn_ok :: "Fwd \<Rightarrow> nat \<Rightarrow> bool" where
  "conn_ok st c \<longleftrightarrow>
     (let C = conns st ! c in
      (timer C \<longrightarrow> table st (peer C) = Some c
          \<or> table st (peer C) = None \<and> shut (main st) \<and> (quit C \<or> main_holds c (main st)))
      \<and> (\<not> timer C \<longrightarrow> quit C \<or> workers C = [])
      \<and> (\<not> alive C \<longrightarrow> \<not> referenced c st)
      \<and> count_list (events st) (Sock_drop c) = (if alive C then 0 else 1))"

fun main_ok :: "Fwd \<Rightarrow> main_pc \<Rightarrow> bool" where
  "main_ok st (Sending x c d) \<longleftrightarrow> c < length (conns st) \<and> peer (conns st ! c) = x"
| "main_ok st (Dialing x d) \<longleftrightarrow> table st x = None"
| "main_ok st (Greeting x c d) \<longleftrightarrow> table st x = None \<and> c < length (conns st) \<and> conns st ! c = fresh_connection x"
| "main_ok st (Cancelling S) \<longleftrightarrow> table st = Map.empty \<and> (\<forall>c\<in>S. c < length (conns st))"
| "main_ok st p \<longleftrightarrow> True"

definition fw_inv :: "Fwd \<Rightarrow> bool" where
  "fw_inv st \<longleftrightarrow> entries_ok st \<and> main_ok st (main st) \<and> (\<forall>c<length (conns st). conn_ok st c)
     \<and> (\<forall>c\<ge>length (conns st). count_list (events st) (Sock_drop c) = 0)"

lemma fw_inv_new: "fw_inv fwd_new"
  by (simp add: fw_inv_def fwd_new_def entries_ok_def)

lemma fw_inv_emit: "fw_inv st \<Longrightarrow> \<forall>c. e \<noteq> Sock_drop c \<Longrightarrow> fw_inv (emit e st)"
  by (cases "main st") (auto simp: fw_inv_def entries_ok_def conn_ok_def emit_def referenced_def Let_def)

text \<open>What the tasks of a connection may do to it without touching the table.\<close>

definition task_change :: "Connection \<Rightarrow> Connection \<Rightarrow> bool" where
  "task_change C C' \<longleftrightarrow> peer C' = peer C \<and> timer C' = timer C \<and> alive C' = alive C \<and> (quit C \<longrightarrow> quit C')
     \<and> (running C' \<longrightarrow> running C) \<and> (workers C = [] \<longrightarrow> workers C' = [])"

lemma fw_inv_task:
  assumes "fw_inv st" "task_change (conns st ! c) C'" "\<And>x d. main st \<noteq> Greeting x c d"
  shows "fw_inv (set_conn c C' st)"
proof (cases "c < length (conns st)")
  case True
  with assms show ?thesis
    by (cases "main st")
      (auto simp: fw_inv_def entries_ok_def conn_ok_def set_conn_def referenced_def task_change_def Let_def
        nth_list_update)
qed (use assms in \<open>simp add: set_conn_def list_update_beyond\<close>)
lemma nth_update: "j < length xs \<Longrightarrow> xs[i := x] ! j = (if i = j then x else xs ! j)"
  by (cases "i = j") simp_all

lemma not_greeting:
  "fw_inv st \<Longrightarrow> c < length (conns st) \<Longrightarrow> timer (conns st ! c) \<or> workers (conns st ! c) \<noteq> [] \<Longrightarrow> main st \<noteq> Greeting x c d"
  by (auto simp: fw_inv_def fresh_connection_def)

lemma running_iff: "running C \<longleftrightarrow> (\<exists>i<length (workers C). workers C ! i \<noteq> Finished)"
  by (auto simp: running_def list_ex_length)

lemma running_update:
  "running (C\<lparr>workers := (workers C)[w := p]\<rparr>) \<Longrightarrow> w < length (workers C) \<Longrightarrow> workers C ! w \<noteq> Finished \<Longrightarrow> running C"
  by (auto simp: running_iff)

lemma task_change_simps:
  "task_change C (C\<lparr>quit := True\<rparr>)" "task_change C (C\<lparr>packet_received := b\<rparr>)"
  by (auto simp: task_change_def running_def)

lemma task_change_worker:
  "w < length (workers C) \<Longrightarrow> workers C ! w \<noteq> Finished \<Longrightarrow> task_change C (C\<lparr>workers := (workers C)[w := p]\<rparr>)"
  by (auto simp: task_change_def intro: running_update)

lemma fw_inv_cancel: "fw_inv st \<Longrightarrow> (\<And>x d. main st \<noteq> Greeting x c d) \<Longrightarrow> fw_inv (cancel c st)"
  unfolding cancel_def by (rule fw_inv_task) (simp_all add: task_change_simps)

lemma fw_inv_notify: "fw_inv st \<Longrightarrow> (\<And>x d. main st \<noteq> Greeting x c d) \<Longrightarrow> fw_inv (notify c st)"
  unfolding notify_def by (rule fw_inv_task) (simp_all add: task_change_simps)

lemma fw_inv_set_worker:
  "fw_inv st \<Longrightarrow> worker_at c w st q \<Longrightarrow> q \<noteq> Finished \<Longrightarrow> fw_inv (set_worker c w p st)"
  unfolding set_worker_def Let_def
  by (rule fw_inv_task) (auto simp: worker_at_def intro!: task_change_worker dest: not_greeting)

lemma worker_at_emit [simp]: "worker_at c w (emit e st) = worker_at c w st"
  by (simp add: worker_at_def emit_def fun_eq_iff)

lemma worker_at_cancel [simp]: "worker_at c w (cancel c' st) = worker_at c w st"
  by (simp add: worker_at_def cancel_def set_conn_def fun_eq_iff nth_update cong: conj_cong)

lemma worker_at_notify [simp]: "worker_at c w (notify c' st) = worker_at c w st"
  by (simp add: worker_at_def notify_def set_conn_def fun_eq_iff nth_update cong: conj_cong)

lemma main_unchanged [simp]:
  "main (emit e st) = main st" "main (cancel c st) = main st" "main (notify c st) = main st"
  "main (set_worker c w p st) = main st" "main (set_conn c C st) = main st"
  by (simp_all add: fw_ops)

lemma worker_not_greeting: "fw_inv st \<Longrightarrow> worker_at c w st q \<Longrightarrow> main st \<noteq> Greeting x c d"
  by (auto simp: worker_at_def dest: not_greeting)

lemma worker_step_inv: "worker_step c b st st' \<Longrightarrow> fw_inv st \<Longrightarrow> fw_inv st'"
proof (induction rule: worker_step.induct)
  case (worker_receives w st result)
  note ng = worker_not_greeting [OF worker_receives(2,1)]
  show ?case
    using worker_receives ng unfolding worker_recv_def Let_def
    by (auto split: option.splits intro!: fw_inv_set_worker [where q = Waiting] fw_inv_cancel fw_inv_emit fw_inv_notify)
next
  case (worker_delivers w st d sent)
  note ng = worker_not_greeting [OF worker_delivers(2,1)]
  show ?case
    using worker_delivers ng unfolding worker_sent_def Let_def
    by (auto split: sum.splits intro!: fw_inv_set_worker [where q = "Delivering d"] fw_inv_cancel fw_inv_emit fw_inv_notify)
next
  case (worker_quits w st)
  then show ?case by (auto intro: fw_inv_set_worker)
qed

text \<open>The timeout task ends: the entry of its client goes with it.\<close>

lemma fw_inv_stop_timer:
  assumes inv: "fw_inv st" and c: "c < length (conns st)" and t: "timer (conns st ! c)" and q: "quit (conns st ! c)"
  shows "fw_inv (stop_timer c (remove_entry (peer (conns st ! c)) st))" (is "fw_inv ?st")
proof -
  let ?x = "peer (conns st ! c)"
  have own: "table st ?x = Some c \<or> table st ?x = None"
    using inv c t by (auto simp: fw_inv_def conn_ok_def Let_def)
  have other: "conn_ok ?st e" if e: "e < length (conns st)" "e \<noteq> c" for e
  proof -
    have "conn_ok st e" using inv e by (simp add: fw_inv_def)
    then show ?thesis using own e
      by (auto simp: conn_ok_def Let_def stop_timer_def remove_entry_def set_conn_def referenced_def)
  qed
  have self: "conn_ok ?st c"
    using inv c q by (auto simp: fw_inv_def conn_ok_def Let_def stop_timer_def remove_entry_def set_conn_def
        referenced_def running_def)
  have entries: "entries_ok ?st"
    using inv own by (auto simp: fw_inv_def entries_ok_def stop_timer_def remove_entry_def set_conn_def
        nth_update)
  have "main_ok st (main st)" using inv by (simp add: fw_inv_def)
  moreover have "\<forall>x d. main st \<noteq> Greeting x c d" using not_greeting [OF inv c] t by blast
  ultimately have "main_ok ?st (main st)"
    by (cases "main st") (auto simp: stop_timer_def remove_entry_def set_conn_def nth_update fun_eq_iff)
  with inv other self entries show ?thesis
    by (auto simp: fw_inv_def stop_timer_def remove_entry_def set_conn_def)
qed

lemma fw_inv_drop:
  assumes inv: "fw_inv st" and c: "c < length (conns st)" and a: "alive (conns st ! c)" and r: "\<not> referenced c st"
  shows "fw_inv (drop_connection c st)" (is "fw_inv ?st")
proof -
  have "conn_ok ?st e" if e: "e < length (conns st)" for e
  proof -
    have "conn_ok st e" using inv e by (simp add: fw_inv_def)
    then show ?thesis using a r e
      by (cases "e = c") (auto simp: conn_ok_def Let_def drop_connection_def emit_def set_conn_def referenced_def running_def)
  qed
  moreover have "entries_ok ?st"
    using inv by (auto simp: fw_inv_def entries_ok_def drop_connection_def emit_def set_conn_def nth_update)
  moreover have "main_ok st (main st)" using inv by (simp add: fw_inv_def)
  then have "main_ok ?st (main st)"
    using r by (cases "main st") (auto simp: drop_connection_def emit_def set_conn_def nth_update referenced_def)
  ultimately show ?thesis
    using inv c by (auto simp: fw_inv_def drop_connection_def emit_def set_conn_def)
qed

lemma drop_step_inv: "drop_step c st st' \<Longrightarrow> fw_inv st \<Longrightarrow> fw_inv st'"
  by (induction rule: drop_step.induct) (rule fw_inv_drop)

text \<open>A running timeout task finds its own connection in the table, or nothing after a shutdown.\<close>

lemma timer_owns:
  "fw_inv st \<Longrightarrow> c < length (conns st) \<Longrightarrow> timer (conns st ! c)
    \<Longrightarrow> table st (peer (conns st ! c)) = Some c
      \<or> table st (peer (conns st ! c)) = None \<and> shut (main st) \<and> (quit (conns st ! c) \<or> main_holds c (main st))"
  by (auto simp: fw_inv_def conn_ok_def Let_def)

lemma expires_cancel:
  assumes "fw_inv st" "c < length (conns st)" "timer (conns st ! c)"
  shows "timer_expires c st = timer_quits c (cancel c st)"
  using timer_owns [OF assms] assms(2)
  by (auto simp: timer_expires_def timer_quits_def remove_entry_def cancel_def set_conn_def stop_timer_def)

lemma timer_step_inv: "timer_step c b st st' \<Longrightarrow> fw_inv st \<Longrightarrow> fw_inv st'"
proof (induction rule: timer_step.induct)
  case (expires st)
  then have "fw_inv (cancel c st)" by (blast intro: fw_inv_cancel dest: not_greeting)
  from fw_inv_stop_timer [OF this, of c] expires show ?case
    by (simp add: expires_cancel timer_quits_def) (simp add: cancel_def set_conn_def)
next
  case (quits st)
  then show ?case by (simp add: timer_quits_def fw_inv_stop_timer)
next
  case (resets st)
  then show ?case
    unfolding timer_resets_def by (blast intro: fw_inv_task task_change_simps dest: not_greeting)
qed
text \<open>The main loop moves on without touching the connections.\<close>

lemma fw_inv_main:
  assumes "fw_inv st" "main_ok st p" "shut (main st) \<longrightarrow> shut p"
    and "\<And>c. c < length (conns st) \<Longrightarrow> main_holds c p \<Longrightarrow> referenced c st"
    and "\<And>c. c < length (conns st) \<Longrightarrow> main_holds c (main st) \<Longrightarrow> shut (main st) \<Longrightarrow> main_holds c p \<or> quit (conns st ! c)"
  shows "fw_inv (st\<lparr>main := p\<rparr>)"
proof -
  have "conn_ok (st\<lparr>main := p\<rparr>) c" if c: "c < length (conns st)" for c
  proof -
    have "conn_ok st c" using assms(1) c by (simp add: fw_inv_def)
    moreover have "alive (conns st ! c)" if "main_holds c p"
      using calculation assms(4) [OF c that] by (auto simp: conn_ok_def Let_def)
    ultimately show ?thesis
      using assms(3) assms(4,5) [OF c] by (auto simp: conn_ok_def Let_def referenced_def)
  qed
  moreover have "main_ok (st\<lparr>main := p\<rparr>) p" using assms(2) by (cases p) simp_all
  ultimately show ?thesis using assms(1) by (simp add: fw_inv_def entries_ok_def)
qed

lemma fw_inv_listen: "fw_inv st \<Longrightarrow> \<not> shut (main st) \<Longrightarrow> fw_inv (st\<lparr>main := Listening\<rparr>)"
  by (rule fw_inv_main) simp_all

lemma udp_received_inv:
  assumes "fw_inv st" "main st = Listening"
  shows "fw_inv (udp_received recv_from bound st)"
proof (cases "udp_recv_pktinfo MAX_PACKET_LEN recv_from bound")
  case (Inl e)
  with assms show ?thesis by (auto simp: udp_received_def intro!: fw_inv_main)
next
  case (Inr r)
  obtain d x a where r: "r = (d, x, a)" by (cases r)
  let ?st = "emit (From_client x d) st"
  have e: "fw_inv ?st" using assms by (simp add: fw_inv_emit)
  show ?thesis
  proof (cases "table ?st x")
    case None
    with e assms Inr r show ?thesis by (auto simp: udp_received_def Let_def intro!: fw_inv_main)
  next
    case (Some c)
    from e Some have c: "c < length (conns ?st) \<and> peer (conns ?st ! c) = x"
      unfolding fw_inv_def entries_ok_def by blast
    with Some have "referenced c ?st" by (simp add: referenced_def)
    with e c have "fw_inv (?st\<lparr>main := Sending x c d\<rparr>)"
      using assms by (intro fw_inv_main) auto
    with Some Inr r show ?thesis by (simp add: udp_received_def Let_def)
  qed
qed

lemma fw_inv_open:
  assumes inv: "fw_inv st" and m: "main st = Dialing x d"
  shows "fw_inv (st\<lparr>conns := conns st @ [fresh_connection x], main := Greeting x (length (conns st)) d\<rparr>)" (is "fw_inv ?st")
proof -
  have free: "table st x = None" using inv m by (simp add: fw_inv_def)
  have old: "table st y \<noteq> Some (length (conns st))" for y
    using inv by (auto simp: fw_inv_def entries_ok_def)
  have none: "count_list (events st) (Sock_drop (length (conns st))) = 0" using inv by (simp add: fw_inv_def)
  have "conn_ok ?st c" if c: "c < length (conns st)" for c
  proof -
    have "conn_ok st c" using inv c by (simp add: fw_inv_def)
    then show ?thesis using c m by (auto simp: conn_ok_def Let_def referenced_def nth_append)
  qed
  moreover have "conn_ok ?st (length (conns st))"
    using none by (simp add: conn_ok_def Let_def fresh_connection_def)
  moreover have "entries_ok ?st"
    using inv by (auto simp: fw_inv_def entries_ok_def nth_append intro: less_SucI)
  ultimately show ?thesis
    using inv free by (auto simp: fw_inv_def less_Suc_eq)
qed

lemma fw_inv_enter:
  assumes inv: "fw_inv st" and m: "main st = Greeting x c d"
  shows "fw_inv (set_conn c (spawn_connection_timeout (spawn_connection_workers (max n 1) (conns st ! c)))
     (st\<lparr>main := Listening, table := (table st)(x \<mapsto> c)\<rparr>))" (is "fw_inv ?st")
proof -
  have c: "table st x = None" "c < length (conns st)" "conns st ! c = fresh_connection x"
    using inv m by (simp_all add: fw_inv_def)
  have unused: "table st y \<noteq> Some c" for y
  proof
    assume "table st y = Some c"
    then have "timer (conns st ! c)" using inv unfolding fw_inv_def entries_ok_def by blast
    then show False using c by (simp add: fresh_connection_def)
  qed
  have "conn_ok ?st e" if e: "e < length (conns st)" for e
  proof -
    have "conn_ok st e" using inv e by (simp add: fw_inv_def)
    then show ?thesis using e c m
      by (cases "e = c") (auto simp: conn_ok_def Let_def referenced_def set_conn_def spawn_connection_timeout_def
          spawn_connection_workers_def fresh_connection_def)
  qed
  moreover have "entries_ok ?st"
    using inv c unused by (auto simp: fw_inv_def entries_ok_def set_conn_def nth_update spawn_connection_timeout_def
          spawn_connection_workers_def fresh_connection_def)
  ultimately show ?thesis
    using inv by (simp add: fw_inv_def set_conn_def)
qed

lemma greeted_inv:
  assumes inv: "fw_inv st" and m: "main st = Greeting x c d" and r: "greeted n res x c d st = Ret st'"
  shows "fw_inv st'"
proof -
  let ?st = "emit (Tcp_send c d) st"
  have e: "fw_inv ?st" using inv by (simp add: fw_inv_emit)
  have m': "main ?st = Greeting x c d" using m by simp
  from r fw_inv_listen [OF e] fw_inv_enter [OF e m', of n] m show ?thesis
    by (auto simp: greeted_def Let_def split: option.splits if_splits)
qed

lemma take_all_inv:
  assumes inv: "fw_inv st" and m: "main st = Listening"
  shows "fw_inv (take_all_connections st)" (is "fw_inv ?st")
proof -
  have owner: "c \<in> Map.ran (table st) \<longleftrightarrow> table st (peer (conns st ! c)) = Some c" if "c < length (conns st)" for c
    using inv that by (fastforce simp: fw_inv_def entries_ok_def Map.ran_def)
  have "conn_ok ?st c" if c: "c < length (conns st)" for c
  proof -
    have "conn_ok st c" using inv c by (simp add: fw_inv_def)
    then show ?thesis using c m owner [OF c]
      by (auto simp: conn_ok_def Let_def referenced_def take_all_connections_def)
  qed
  moreover have "c < length (conns st)" if "c \<in> Map.ran (table st)" for c
    using inv that by (auto simp: fw_inv_def entries_ok_def Map.ran_def)
  ultimately show ?thesis
    using inv by (simp add: fw_inv_def entries_ok_def take_all_connections_def)
qed

lemma cancel_next_inv:
  assumes inv: "fw_inv st" and m: "main st = Cancelling S" and c: "c \<in> S"
  shows "fw_inv (cancel_next c S st)"
proof -
  have "fw_inv (cancel c st)" using inv m by (simp add: fw_inv_cancel)
  moreover have "\<forall>c\<in>S. c < length (conns st)" "table st = Map.empty"
    using inv m by (simp_all add: fw_inv_def)
  moreover from this have "quit (conns (cancel c st) ! c)"
    using c by (simp add: cancel_def set_conn_def)
  ultimately show ?thesis
    unfolding cancel_next_def using m
    by (intro fw_inv_main) (auto simp: referenced_def cancel_def set_conn_def)
qed

lemma main_step_inv: "main_step n st st' \<Longrightarrow> fw_inv st \<Longrightarrow> fw_inv st'"
proof (induction rule: main_step.induct)
  case (sends st x c d)
  then show ?case
    unfolding sent_existing_def by (intro fw_inv_listen fw_inv_emit) simp_all
next
  case (dials st x d connected)
  then show ?case
    by (cases connected) (simp_all add: dialed_def fw_inv_listen fw_inv_open)
next
  case (dial_panics st x d)
  then show ?case by (intro fw_inv_main) simp_all
next
  case (returns st)
  then show ?case by (intro fw_inv_main) simp_all
qed (simp_all add: udp_received_inv greeted_inv take_all_inv cancel_next_inv)

lemma fw_step_inv: "fw_inv st \<Longrightarrow> fw_step n st st' \<Longrightarrow> fw_inv st'"
  by (auto simp: fw_step_def intro: main_step_inv worker_step_inv timer_step_inv drop_step_inv)

interpretation fw: step_invariant "\<lambda>st. st = fwd_new" "fw_step n" fw_inv for n
  by unfold_locales (simp_all add: fw_inv_new fw_step_inv)

end
