(* ===== verification/Forwarder_Properties.thy ===== *)
theory Forwarder_Properties
  imports Forwarder "HOL-Library.Sublist" "HOL-Library.Multiset"
begin

text \<open>
  What the forwarder guarantees in every reachable state: traffic goes between each client and its
  own connections, in order towards the server and exactly once back; sockets are dropped once and
  not used afterwards; cancelled connections and a shutdown are cleaned up completely.
\<close>

section \<open>Traffic\<close>

fun from_client :: "fw_event \<Rightarrow> (socket_addr \<times> bytes) list" where
  "from_client (From_client x d) = [(x, d)]"
| "from_client _ = []"

fun to_client :: "fw_event \<Rightarrow> (socket_addr \<times> bytes) list" where
  "to_client (To_client x d) = [(x, d)]"
| "to_client _ = []"

text \<open>Payloads sent and received over connections, with the client the connection belongs to.\<close>

fun tcp_sent :: "socket_addr list \<Rightarrow> fw_event \<Rightarrow> (socket_addr \<times> bytes) list" where
  "tcp_sent ps (Tcp_send c d) = [(ps ! c, d)]"
| "tcp_sent ps _ = []"

fun tcp_received :: "socket_addr list \<Rightarrow> fw_event \<Rightarrow> (socket_addr \<times> bytes) list" where
  "tcp_received ps (Tcp_recv c d) = (if d = [] then [] else [(ps ! c, d)])"
| "tcp_received ps _ = []"

fun held :: "main_pc \<Rightarrow> (socket_addr \<times> bytes) list" where
  "held (Sending x c d) = [(x, d)]"
| "held (Dialing x d) = [(x, d)]"
| "held (Greeting x c d) = [(x, d)]"
| "held p = []"

fun carried :: "socket_addr \<Rightarrow> worker_pc \<Rightarrow> (socket_addr \<times> bytes) multiset" where
  "carried x (Delivering d) = {#(x, d)#}"
| "carried x p = {#}"

definition load :: "Connection \<Rightarrow> (socket_addr \<times> bytes) multiset" where
  "load C = sum_list (map (carried (peer C)) (workers C))"

definition in_flight :: "Fwd \<Rightarrow> (socket_addr \<times> bytes) multiset" where
  "in_flight st = sum_list (map load (conns st))"

fun event_conn :: "fw_event \<Rightarrow> nat option" where
  "event_conn (Tcp_send c d) = Some c"
| "event_conn (Tcp_recv c d) = Some c"
| "event_conn _ = None"

text \<open>
  Datagrams go over their client's connection in the order they came; answers go to their
  connection's client, each once, in the order in which the workers get to send them.
\<close>

definition traffic ::
  "fw_event list \<Rightarrow> socket_addr list \<Rightarrow> (socket_addr \<times> bytes) multiset \<Rightarrow> (socket_addr \<times> bytes) list \<Rightarrow> bool" where
  "traffic es ps flying waiting \<longleftrightarrow>
     (\<forall>e\<in>set es. \<forall>c. event_conn e = Some c \<longrightarrow> c < length ps)
     \<and> subseq (concat (map (tcp_sent ps) es) @ waiting) (concat (map from_client es))
     \<and> mset (concat (map to_client es)) + flying = mset (concat (map (tcp_received ps) es))"

lemma traffic_hold: "traffic es ps fl [] \<Longrightarrow> traffic (es @ [From_client x d]) ps fl [(x, d)]"
  by (auto simp: traffic_def)

lemma traffic_lose: "traffic es ps fl h \<Longrightarrow> traffic es ps fl []"
  by (auto simp: traffic_def elim: subseq_order.trans [rotated])

lemma traffic_send: "traffic es ps fl [(x, d)] \<Longrightarrow> c < length ps \<Longrightarrow> ps ! c = x \<Longrightarrow> traffic (es @ [Tcp_send c d]) ps fl []"
  by (auto simp: traffic_def)

lemma traffic_recv:
  "traffic es ps fl h \<Longrightarrow> c < length ps \<Longrightarrow> d \<noteq> [] \<Longrightarrow> traffic (es @ [Tcp_recv c d]) ps (add_mset (ps ! c, d) fl) h"
  by (auto simp: traffic_def)

lemma traffic_recv_empty: "traffic es ps fl h \<Longrightarrow> c < length ps \<Longrightarrow> traffic (es @ [Tcp_recv c []]) ps fl h"
  by (auto simp: traffic_def)

lemma traffic_answer:
  "traffic es ps (add_mset (x, d) fl) h \<Longrightarrow> traffic (es @ [To_client x d]) ps fl h"
  by (auto simp: traffic_def)

lemma traffic_drop: "traffic es ps fl h \<Longrightarrow> traffic (es @ [Sock_drop c]) ps fl h"
  by (auto simp: traffic_def)

lemma traffic_open:
  assumes "traffic es ps fl h"
  shows "traffic es (ps @ [x]) fl h"
proof -
  have "tcp_sent (ps @ [x]) e = tcp_sent ps e \<and> tcp_received (ps @ [x]) e = tcp_received ps e" if "e \<in> set es" for e
    using assms that by (cases e) (auto simp: traffic_def nth_append)
  then have same: "map (tcp_sent (ps @ [x])) es = map (tcp_sent ps) es" "map (tcp_received (ps @ [x])) es = map (tcp_received ps) es"
    by simp_all
  show ?thesis
    unfolding traffic_def same using assms by (auto simp: traffic_def intro: less_SucI)
qed

abbreviation traffic_ok :: "Fwd \<Rightarrow> bool" where
  "traffic_ok st \<equiv> traffic (events st) (map peer (conns st)) (in_flight st) (held (main st))"

lemma sum_list_update_add:
  fixes xs :: "'a :: comm_monoid_add list"
  shows "k < length xs \<Longrightarrow> sum_list (xs[k := x]) + xs ! k = sum_list xs + x"
proof (induction xs arbitrary: k)
  case (Cons a xs)
  show ?case
  proof (cases k)
    case (Suc j)
    with Cons.IH [of j] Cons.prems show ?thesis by (simp add: add.assoc)
  qed (simp add: ac_simps)
qed simp

lemma in_flight_set_conn:
  "c < length (conns st) \<Longrightarrow> in_flight (set_conn c C st) + load (conns st ! c) = in_flight st + load C"
  using sum_list_update_add [of c "map load (conns st)" "load C"] by (simp add: in_flight_def set_conn_def map_update)

lemma in_flight_same: "load C = load (conns st ! c) \<Longrightarrow> in_flight (set_conn c C st) = in_flight st"
  by (cases "c < length (conns st)") (use in_flight_set_conn [of c st C] in \<open>simp_all add: set_conn_def list_update_beyond\<close>)

lemma peers_set_conn: "peer C = peer (conns st ! c) \<Longrightarrow> map peer (conns (set_conn c C st)) = map peer (conns st)"
  by (cases "c < length (conns st)") (auto simp: set_conn_def map_update list_update_same_conv list_update_beyond)

lemma load_set_worker:
  "w < length (workers C) \<Longrightarrow> load (C\<lparr>workers := (workers C)[w := p]\<rparr>) + carried (peer C) (workers C ! w) = load C + carried (peer C) p"
  using sum_list_update_add [of w "map (carried (peer C)) (workers C)" "carried (peer C) p"] by (simp add: load_def map_update)

lemma in_flight_set_worker:
  assumes "worker_at c w st q"
  shows "in_flight (set_worker c w p st) + carried (peer (conns st ! c)) q = in_flight st + carried (peer (conns st ! c)) p"
proof -
  let ?C = "conns st ! c"
  have c: "c < length (conns st)" "w < length (workers ?C)" "workers ?C ! w = q"
    using assms by (simp_all add: worker_at_def)
  let ?L = "load (?C\<lparr>workers := (workers ?C)[w := p]\<rparr>)"
  have "in_flight (set_worker c w p st) + load ?C = in_flight st + ?L"
    using in_flight_set_conn [OF c(1)] by (simp add: set_worker_def Let_def)
  then have "in_flight (set_worker c w p st) + carried (peer ?C) q + load ?C = in_flight st + (?L + carried (peer ?C) q)"
    by (simp add: ac_simps)
  also have "\<dots> = in_flight st + carried (peer ?C) p + load ?C"
    using load_set_worker [OF c(2), of p] c(3) by (simp add: ac_simps)
  finally show ?thesis by (simp only: add_right_cancel)
qed
lemma traffic_same:
  "traffic_ok st \<Longrightarrow> events st' = events st \<Longrightarrow> map peer (conns st') = map peer (conns st) \<Longrightarrow> in_flight st' = in_flight st
    \<Longrightarrow> held (main st') = held (main st) \<or> held (main st') = [] \<Longrightarrow> traffic_ok st'"
  by (auto intro: traffic_lose)

lemma peers_unchanged [simp]:
  "map peer (conns (emit e st)) = map peer (conns st)" "map peer (conns (cancel c st)) = map peer (conns st)"
  "map peer (conns (notify c st)) = map peer (conns st)" "map peer (conns (set_worker c w p st)) = map peer (conns st)"
  "map peer (conns (stop_timer c st)) = map peer (conns st)" "map peer (conns (timer_resets c st)) = map peer (conns st)"
  "map peer (conns (remove_entry x st)) = map peer (conns st)"
  by (simp_all add: cancel_def notify_def set_worker_def stop_timer_def timer_resets_def Let_def peers_set_conn)
    (simp_all add: emit_def remove_entry_def)

lemma load_unchanged [simp]:
  "load (C\<lparr>quit := a\<rparr>) = load C" "load (C\<lparr>packet_received := a\<rparr>) = load C" "load (C\<lparr>timer := a\<rparr>) = load C"
  "load (C\<lparr>alive := a\<rparr>) = load C"
  by (simp_all add: load_def)

lemma in_flight_unchanged [simp]:
  "in_flight (emit e st) = in_flight st" "in_flight (cancel c st) = in_flight st"
  "in_flight (notify c st) = in_flight st" "in_flight (stop_timer c st) = in_flight st"
  "in_flight (timer_resets c st) = in_flight st" "in_flight (remove_entry x st) = in_flight st"
  "in_flight (st\<lparr>main := p\<rparr>) = in_flight st" "in_flight (st\<lparr>table := t\<rparr>) = in_flight st"
  by (simp_all add: cancel_def notify_def stop_timer_def timer_resets_def in_flight_same)
    (simp_all add: emit_def remove_entry_def in_flight_def)

lemma events_simps [simp]:
  "events (emit e st) = events st @ [e]" "events (cancel c st) = events st" "events (notify c st) = events st"
  "events (set_worker c w p st) = events st" "events (stop_timer c st) = events st"
  "events (timer_resets c st) = events st" "events (remove_entry x st) = events st" "events (set_conn c C st) = events st"
  by (simp_all add: fw_ops)

lemma conns_emit [simp]: "conns (emit e st) = conns st"
  by (simp add: emit_def)

lemma main_simps [simp]:
  "main (stop_timer c st) = main st" "main (timer_resets c st) = main st" "main (remove_entry x st) = main st"
  by (simp_all add: fw_ops)

lemma worker_step_traffic: "worker_step c b st st' \<Longrightarrow> traffic_ok st \<Longrightarrow> traffic_ok st'"
proof (induction rule: worker_step.induct)
  case (worker_receives w st result)
  then have c: "c < length (map peer (conns st))" "map peer (conns st) ! c = peer (conns st ! c)"
    by (simp_all add: worker_at_def)
  show ?case
  proof (cases result)
    case None
    have "in_flight (set_worker c w Finished (cancel c st)) = in_flight st"
      using in_flight_set_worker [of c w "cancel c st" Waiting Finished] worker_receives(1) by simp
    with None worker_receives(2) show ?thesis by (simp add: worker_recv_def)
  next
    case (Some d)
    have fl: "in_flight (set_worker c w (Delivering d) (emit (Tcp_recv c d) st)) = add_mset (peer (conns st ! c), d) (in_flight st)"
      using in_flight_set_worker [of c w "emit (Tcp_recv c d) st" Waiting "Delivering d"] worker_receives(1)
      by simp
    from traffic_recv [OF worker_receives(2) c(1), of d] traffic_recv_empty [OF worker_receives(2) c(1)] fl c(2) Some
    show ?thesis by (simp add: worker_recv_def Let_def)
  qed
next
  case (worker_delivers w st d sent)
  let ?x = "peer (conns st ! c)" and ?e = "emit (To_client (peer (conns st ! c)) d) st"
  obtain r where r: "in_flight st = add_mset (?x, d) r" and ends:
    "in_flight (set_worker c w Finished (cancel c ?e)) = r" "in_flight (set_worker c w Waiting (notify c ?e)) = r"
  proof
    have xs: "peer (conns (cancel c ?e) ! c) = ?x" "peer (conns (notify c ?e) ! c) = ?x"
      using worker_delivers(1) by (simp_all add: worker_at_def cancel_def notify_def emit_def set_conn_def)
    show "in_flight st = add_mset (?x, d) (in_flight (set_worker c w Finished (cancel c ?e)))"
      using in_flight_set_worker [of c w "cancel c ?e" "Delivering d" Finished] worker_delivers(1) xs by simp
    moreover have "in_flight st = add_mset (?x, d) (in_flight (set_worker c w Waiting (notify c ?e)))"
      using in_flight_set_worker [of c w "notify c ?e" "Delivering d" Waiting] worker_delivers(1) xs by simp
    ultimately show "in_flight (set_worker c w Waiting (notify c ?e)) = in_flight (set_worker c w Finished (cancel c ?e))"
      by simp
  qed simp
  from worker_delivers(2) have "traffic (events st @ [To_client ?x d]) (map peer (conns st)) r (held (main st))"
    unfolding r by (rule traffic_answer)
  with ends show ?case
    by (cases sent) (simp_all add: worker_sent_def Let_def)
next
  case (worker_quits w st)
  then have "in_flight (set_worker c w Finished st) = in_flight st"
    using in_flight_set_worker [of c w st Waiting Finished] by simp
  with worker_quits show ?case by simp
qed

lemma timer_step_traffic: "timer_step c b st st' \<Longrightarrow> traffic_ok st \<Longrightarrow> traffic_ok st'"
  by (induction rule: timer_step.induct)
    (simp_all add: timer_expires_def timer_quits_def Let_def split: option.splits)

lemma drop_step_traffic: "drop_step c st st' \<Longrightarrow> traffic_ok st \<Longrightarrow> traffic_ok st'"
  by (induction rule: drop_step.induct)
    (simp add: drop_connection_def in_flight_same peers_set_conn traffic_drop)

lemma load_idle: "load (C\<lparr>workers := replicate k Waiting\<rparr>) = {#}"
  by (induction k) (simp_all add: load_def)

lemma main_step_traffic: "main_step n st st' \<Longrightarrow> fw_inv st \<Longrightarrow> traffic_ok st \<Longrightarrow> traffic_ok st'"
proof (induction rule: main_step.induct)
  case (receives st recv_from bound)
  then have "traffic (events st) (map peer (conns st)) (in_flight st) []" by simp
  from this traffic_hold [OF this] receives show ?case
    by (auto simp: udp_received_def Let_def split: sum.splits option.splits)
next
  case (sends st x c d)
  then have "c < length (map peer (conns st))" "map peer (conns st) ! c = x"
    by (simp_all add: fw_inv_def)
  with sends show ?case by (simp add: sent_existing_def traffic_send)
next
  case (dials st x d connected)
  have "in_flight (st\<lparr>conns := conns st @ [fresh_connection x], main := m\<rparr>) = in_flight st" for m
    by (simp add: in_flight_def load_def fresh_connection_def)
  moreover have "peer (fresh_connection x) = x" by (simp add: fresh_connection_def)
  ultimately show ?case
    using dials traffic_open [OF dials(3), of x] traffic_lose [OF dials(3)] by (simp add: dialed_def)
next
  case (dial_panics st x d)
  then show ?case using traffic_lose [OF dial_panics(3)] by simp
next
  case (greets st x c d res st')
  then have c: "c < length (conns st)" "conns st ! c = fresh_connection x" by (simp_all add: fw_inv_def)
  let ?C = "spawn_connection_timeout (spawn_connection_workers (max n 1) (conns st ! c))"
  have same: "peer ?C = peer (conns st ! c)" "load ?C = load (conns st ! c)"
    using c(2) by (simp_all add: spawn_connection_timeout_def spawn_connection_workers_def load_idle)
      (simp add: load_def fresh_connection_def)
  from c greets have "traffic (events st @ [Tcp_send c d]) (map peer (conns st)) (in_flight st) []"
    by (intro traffic_send [where x = x]) (simp_all add: fresh_connection_def)
  moreover have "st' = (emit (Tcp_send c d) st)\<lparr>main := Listening\<rparr>
      \<or> st' = set_conn c ?C ((emit (Tcp_send c d) st)\<lparr>main := Listening, table := (table st)(x \<mapsto> c)\<rparr>)"
    using greets(2) by (auto simp: greeted_def Let_def emit_def split: option.splits if_splits)
  ultimately show ?case
    using same by (auto simp: in_flight_same peers_set_conn)
qed (simp_all add: take_all_connections_def cancel_next_def)
section \<open>No use after drop\<close>

definition drops_final :: "fw_event list \<Rightarrow> bool" where
  "drops_final es \<longleftrightarrow> (\<forall>xs c ys. es = xs @ Sock_drop c # ys \<longrightarrow> (\<forall>e\<in>set ys. event_conn e \<noteq> Some c))"

lemma drops_final_snoc:
  assumes "drops_final es" "\<And>c. event_conn e = Some c \<Longrightarrow> Sock_drop c \<notin> set es"
  shows "drops_final (es @ [e])"
  unfolding drops_final_def
proof (intro allI impI)
  fix xs c ys assume split: "es @ [e] = xs @ Sock_drop c # ys"
  show "\<forall>e\<in>set ys. event_conn e \<noteq> Some c"
  proof (cases ys rule: rev_cases)
    case (snoc zs z)
    with split have "es = xs @ Sock_drop c # zs" "z = e" by simp_all
    moreover from this assms(1) have "\<forall>e\<in>set zs. event_conn e \<noteq> Some c"
      unfolding drops_final_def by blast
    ultimately show ?thesis using assms(2) [of c] snoc by auto
  qed simp
qed

lemma referenced_alive: "fw_inv st \<Longrightarrow> c < length (conns st) \<Longrightarrow> referenced c st \<Longrightarrow> alive (conns st ! c)"
  by (auto simp: fw_inv_def conn_ok_def Let_def)

lemma worker_referenced: "worker_at c w st p \<Longrightarrow> p \<noteq> Finished \<Longrightarrow> c < length (conns st) \<and> referenced c st"
  by (auto simp: worker_at_def referenced_def running_iff)

lemma alive_not_dropped: "fw_inv st \<Longrightarrow> c < length (conns st) \<Longrightarrow> alive (conns st ! c) \<Longrightarrow> Sock_drop c \<notin> set (events st)"
  by (auto simp: fw_inv_def conn_ok_def Let_def count_list_0_iff)

lemma pktinfo_length: "udp_recv_pktinfo room recv_from bound = Inr (d, x, a) \<Longrightarrow> length d \<le> room"
  by (auto simp: udp_recv_pktinfo_def io_bind_eq_Inr_iff)

text \<open>
  Each step adds at most one event, about a connection somebody holds or a datagram that fits the
  buffer.
\<close>

lemma fw_step_event:
  assumes "fw_step n st st'" "fw_inv st"
  shows "events st' = events st \<or> (\<exists>e. events st' = events st @ [e]
    \<and> (\<forall>c. event_conn e = Some c \<longrightarrow> c < length (conns st) \<and> referenced c st)
    \<and> (\<forall>x d. e = From_client x d \<longrightarrow> length d \<le> MAX_PACKET_LEN))"
  using assms(1) unfolding fw_step_def
proof (elim disjE exE)
  assume "main_step n st st'"
  then show ?thesis using assms(2)
  proof (induction rule: main_step.induct)
    case (receives st recv_from bound)
    show ?case
      by (auto simp: udp_received_def Let_def split: sum.splits option.splits dest: pktinfo_length)
  next
    case (sends st x c d)
    then show ?case by (simp add: sent_existing_def fw_inv_def referenced_def)
  next
    case (greets st x c d res st')
    then have "events st' = events st @ [Tcp_send c d]"
      by (auto simp: greeted_def Let_def split: option.splits if_splits)
    with greets show ?case by (simp add: fw_inv_def referenced_def)
  qed (simp_all add: dialed_def take_all_connections_def cancel_next_def)
next
  fix c b assume "worker_step c b st st'"
  then show ?thesis
  proof (induction rule: worker_step.induct)
    case (worker_receives w st result)
    then show ?case
      using worker_referenced [OF worker_receives] by (cases result) (simp_all add: worker_recv_def Let_def)
  next
    case (worker_delivers w st d sent)
    then show ?case by (cases sent) (simp_all add: worker_sent_def Let_def)
  qed simp
next
  fix c b assume "timer_step c b st st'"
  then show ?thesis
    by (induction rule: timer_step.induct)
      (simp_all add: timer_expires_def timer_quits_def Let_def split: option.splits)
next
  fix c assume "drop_step c st st'"
  then show ?thesis by (induction rule: drop_step.induct) (simp add: drop_connection_def)
qed

lemma fw_step_drops_final:
  assumes "fw_step n st st'" "fw_inv st" "drops_final (events st)"
  shows "drops_final (events st')"
  using fw_step_event [OF assms(1,2)]
proof (elim disjE exE conjE)
  fix e assume e: "events st' = events st @ [e]" and ref: "\<forall>c. event_conn e = Some c \<longrightarrow> c < length (conns st) \<and> referenced c st"
  show ?thesis
    unfolding e using assms(3)
  proof (rule drops_final_snoc)
    fix c assume "event_conn e = Some c"
    with ref have c: "c < length (conns st)" "referenced c st" by simp_all
    show "Sock_drop c \<notin> set (events st)"
      by (rule alive_not_dropped [OF assms(2) c(1) referenced_alive [OF assms(2) c]])
  qed
qed (use assms in simp)

definition datagrams_fit :: "fw_event list \<Rightarrow> bool" where
  "datagrams_fit es \<longleftrightarrow> (\<forall>x d. From_client x d \<in> set es \<longrightarrow> length d \<le> MAX_PACKET_LEN)"

lemma fw_step_fit: "fw_step n st st' \<Longrightarrow> fw_inv st \<Longrightarrow> datagrams_fit (events st) \<Longrightarrow> datagrams_fit (events st')"
  using fw_step_event [of n st st'] by (auto simp: datagrams_fit_def)

lemma fw_step_traffic: "fw_step n st st' \<Longrightarrow> fw_inv st \<Longrightarrow> traffic_ok st \<Longrightarrow> traffic_ok st'"
  unfolding fw_step_def
  by (elim disjE exE) (rule main_step_traffic worker_step_traffic timer_step_traffic drop_step_traffic; assumption)+

definition fw_all :: "Fwd \<Rightarrow> bool" where
  "fw_all st \<longleftrightarrow> fw_inv st \<and> traffic_ok st \<and> drops_final (events st) \<and> datagrams_fit (events st)"

interpretation fwd: step_invariant "\<lambda>st. st = fwd_new" "fw_step n" fw_all for n
proof
  fix s assume "s = fwd_new"
  then show "fw_all s"
    by (simp add: fw_all_def fw_inv_new) (simp add: fwd_new_def traffic_def in_flight_def drops_final_def datagrams_fit_def)
next
  fix s t assume "fw_all s" "fw_step n s t"
  then show "fw_all t"
    unfolding fw_all_def by (blast intro: fw_step_inv fw_step_drops_final fw_step_traffic fw_step_fit)
qed

definition fw_reachable :: "nat \<Rightarrow> Fwd \<Rightarrow> bool" where
  "fw_reachable n st \<longleftrightarrow> (fw_step n)\<^sup>*\<^sup>* fwd_new st"

lemma reachable_fw_all: "fw_reachable n st \<Longrightarrow> fw_all st"
  unfolding fw_reachable_def by (rule fwd.reachable_inv [OF refl])

section \<open>Closing connections\<close>

fun effort :: "worker_pc \<Rightarrow> nat" where
  "effort Waiting = 1"
| "effort (Delivering d) = 2"
| "effort Finished = 0"

definition work :: "Connection \<Rightarrow> nat" where
  "work C = sum_list (map effort (workers C)) + of_bool (timer C) + of_bool (alive C)"

definition closed :: "nat \<Rightarrow> Fwd \<Rightarrow> bool" where
  "closed c st \<longleftrightarrow> table st (peer (conns st ! c)) \<noteq> Some c \<and> \<not> timer (conns st ! c) \<and> \<not> running (conns st ! c)
     \<and> \<not> alive (conns st ! c)"

text \<open>A connection on its way out: cancelled, or never entered into the table.\<close>

definition ending :: "nat \<Rightarrow> Fwd \<Rightarrow> bool" where
  "ending c st \<longleftrightarrow> c < length (conns st) \<and> \<not> main_holds c (main st)
     \<and> (quit (conns st ! c) \<or> workers (conns st ! c) = [] \<and> \<not> timer (conns st ! c))"

text \<open>
  The steps that a connection's own tasks take without waiting for the server or the clock: a worker
  that hands a payload to the UDP socket gets its answer, a waiting worker or the timeout task sees the
  cancellation, and the last holder's drop.
\<close>

definition quit_step :: "nat \<Rightarrow> Fwd \<Rightarrow> Fwd \<Rightarrow> bool" where
  "quit_step c st st' \<longleftrightarrow>
     worker_step c On_sent st st' \<or> worker_step c On_quit st st' \<or> timer_step c On_quit st st' \<or> drop_step c st st'"

text \<open>Steps of one connection that leave the others and the main loop alone.\<close>

definition local_change :: "nat \<Rightarrow> Fwd \<Rightarrow> Fwd \<Rightarrow> bool" where
  "local_change c st st' \<longleftrightarrow> main st' = main st \<and> length (conns st') = length (conns st)
     \<and> (\<forall>e. e \<noteq> c \<longrightarrow> conns st' ! e = conns st ! e) \<and> (\<forall>x e. table st' x = Some e \<longrightarrow> table st x = Some e)
     \<and> peer (conns st' ! c) = peer (conns st ! c)"

lemma effort_update:
  "w < length ws \<Longrightarrow> sum_list (map effort (ws[w := p])) + effort (ws ! w) = sum_list (map effort ws) + effort p"
  using sum_list_update_add [of w "map effort ws" "effort p"] by (simp add: map_update)

lemma worker_sent_effect:
  assumes "worker_at c w st (Delivering d)"
  shows "local_change c st (worker_sent sent d c w st) \<and> (ending c st \<longrightarrow> ending c (worker_sent sent d c w st))
    \<and> work (conns (worker_sent sent d c w st) ! c) < work (conns st ! c)"
proof -
  have w: "c < length (conns st)" "w < length (workers (conns st ! c))" "workers (conns st ! c) ! w = Delivering d"
    using assms by (simp_all add: worker_at_def)
  then have "workers (conns st ! c) \<noteq> []" by auto
  with w effort_update [OF w(2), of Waiting] effort_update [OF w(2), of Finished] show ?thesis
    by (cases sent) (simp_all add: local_change_def ending_def worker_sent_def set_worker_def notify_def cancel_def emit_def
        set_conn_def Let_def work_def)
qed

lemma worker_quit_effect:
  assumes "worker_at c w st Waiting"
  shows "local_change c st (set_worker c w Finished st) \<and> (ending c st \<longrightarrow> ending c (set_worker c w Finished st))
    \<and> work (conns (set_worker c w Finished st) ! c) < work (conns st ! c)"
proof -
  have w: "c < length (conns st)" "w < length (workers (conns st ! c))" "workers (conns st ! c) ! w = Waiting"
    using assms by (simp_all add: worker_at_def)
  with effort_update [OF w(2), of Finished] show ?thesis
    by (auto simp: local_change_def ending_def set_worker_def set_conn_def Let_def work_def)
qed

lemma quit_step_effect:
  assumes "quit_step c st st'"
  shows "local_change c st st' \<and> (ending c st \<longrightarrow> ending c st') \<and> work (conns st' ! c) < work (conns st ! c)"
  using assms unfolding quit_step_def
proof (elim disjE)
  assume "worker_step c On_sent st st'"
  then show ?thesis by cases (simp add: worker_sent_effect)
next
  assume "worker_step c On_quit st st'"
  then show ?thesis by cases (simp add: worker_quit_effect)
next
  assume "timer_step c On_quit st st'"
  then show ?thesis
    by cases (auto simp: local_change_def ending_def timer_quits_def remove_entry_def stop_timer_def set_conn_def work_def)
next
  assume "drop_step c st st'"
  then show ?thesis
    by cases (auto simp: local_change_def ending_def drop_connection_def emit_def set_conn_def work_def)
qed

lemma fw_step_quit: "quit_step c st st' \<Longrightarrow> fw_step n st st'"
  by (auto simp: fw_step_def quit_step_def)

lemma quit_step_inv: "quit_step c st st' \<Longrightarrow> fw_inv st \<Longrightarrow> fw_inv st'"
  by (rule fw_step_inv [OF _ fw_step_quit])

lemma quit_step_index: "quit_step c st st' \<Longrightarrow> c < length (conns st)"
  by (auto simp: quit_step_def worker_at_def elim: worker_step.cases timer_step.cases drop_step.cases)

text \<open>An ending connection that is not closed yet always has such a step.\<close>

lemma quit_progress:
  assumes inv: "fw_inv st" and e: "ending c st" and open_: "\<not> closed c st"
  shows "\<exists>st'. quit_step c st st'"
proof -
  let ?C = "conns st ! c"
  have c: "c < length (conns st)" "\<not> main_holds c (main st)" using e by (simp_all add: ending_def)
  have q: "quit ?C" if "running ?C \<or> timer ?C" using e that by (auto simp: ending_def running_def)
  consider (run) "running ?C" | (timer) "\<not> running ?C" "timer ?C" | (alive) "\<not> running ?C" "\<not> timer ?C" by blast
  then show ?thesis
  proof cases
    case run
    then obtain w where w: "w < length (workers ?C)" "workers ?C ! w \<noteq> Finished" by (auto simp: running_iff)
    show ?thesis
    proof (cases "workers ?C ! w")
      case Waiting
      with w c q run have "worker_step c On_quit st (set_worker c w Finished st)"
        by (intro worker_quits) (simp_all add: worker_at_def)
      then show ?thesis by (auto simp: quit_step_def)
    next
      case (Delivering d)
      with w c have "worker_step c On_sent st (worker_sent (Inr 0) d c w st)"
        by (intro worker_delivers) (simp add: worker_at_def)
      then show ?thesis by (auto simp: quit_step_def)
    qed (use w in simp)
  next
    case timer
    with c q have "timer_step c On_quit st (timer_quits c st)" by (intro quits) simp_all
    then show ?thesis by (auto simp: quit_step_def)
  next
    case alive
    have "table st (peer ?C) \<noteq> Some c"
      using inv alive unfolding fw_inv_def entries_ok_def by blast
    with alive c open_ have "\<not> referenced c st" "alive ?C" by (simp_all add: referenced_def closed_def)
    with c have "drop_step c st (drop_connection c st)" by (intro drops)
    then show ?thesis by (auto simp: quit_step_def)
  qed
qed

lemma quit_run_bound: "(quit_step c ^^ k) st st' \<Longrightarrow> k + work (conns st' ! c) \<le> work (conns st ! c)"
proof (induction k arbitrary: st')
  case (Suc k)
  then obtain st1 where "(quit_step c ^^ k) st st1" "quit_step c st1 st'" by auto
  with Suc.IH [of st1] quit_step_effect [of c st1 st'] show ?case by fastforce
qed simp

lemma quit_run: "(quit_step c)\<^sup>*\<^sup>* st st' \<Longrightarrow> fw_inv st \<Longrightarrow> ending c st \<Longrightarrow> fw_inv st' \<and> ending c st'"
  by (induction rule: rtranclp_induct) (blast dest: quit_step_inv quit_step_effect)+

lemma work_bound: "work C \<le> 2 * length (workers C) + 2"
proof -
  have "sum_list (map effort ws) \<le> 2 * length ws" for ws
  proof (induction ws)
    case (Cons p ws)
    then show ?case by (cases p) auto
  qed simp
  from this [of "workers C"] show ?thesis by (simp add: work_def)
qed

text \<open>The same steps of all connections.\<close>

definition quit_any :: "Fwd \<Rightarrow> Fwd \<Rightarrow> bool" where
  "quit_any st st' \<longleftrightarrow> (\<exists>c. quit_step c st st')"

definition all_work :: "Fwd \<Rightarrow> nat" where
  "all_work st = (\<Sum>c<length (conns st). work (conns st ! c))"

definition all_ending :: "Fwd \<Rightarrow> bool" where
  "all_ending st \<longleftrightarrow> (\<forall>c<length (conns st). ending c st)"

lemma ending_local: "local_change c st st' \<Longrightarrow> e \<noteq> c \<Longrightarrow> ending e st \<Longrightarrow> ending e st'"
  by (auto simp: ending_def local_change_def)

lemma quit_any_effect:
  assumes "quit_any st st'"
  shows "all_work st' < all_work st \<and> (all_ending st \<longrightarrow> all_ending st')"
proof -
  obtain c where c: "quit_step c st st'" using assms by (auto simp: quit_any_def)
  note eff = quit_step_effect [OF c] and idx = quit_step_index [OF c]
  then have len: "length (conns st') = length (conns st)" by (simp add: local_change_def)
  have "work (conns st' ! e) \<le> work (conns st ! e)" for e
    using eff by (cases "e = c") (simp_all add: local_change_def)
  with eff idx have "all_work st' < all_work st"
    unfolding all_work_def len by (intro sum_strict_mono_ex1) auto
  moreover have "all_ending st \<longrightarrow> all_ending st'"
    using eff ending_local len unfolding all_ending_def by metis
  ultimately show ?thesis ..
qed

lemma quit_any_inv: "quit_any st st' \<Longrightarrow> fw_inv st \<Longrightarrow> fw_inv st'"
  by (auto simp: quit_any_def dest: quit_step_inv)

lemma quit_any_bound: "(quit_any ^^ k) st st' \<Longrightarrow> k + all_work st' \<le> all_work st"
proof (induction k arbitrary: st')
  case (Suc k)
  then obtain st1 where "(quit_any ^^ k) st st1" "quit_any st1 st'" by auto
  with Suc.IH [of st1] quit_any_effect [of st1 st'] show ?case by fastforce
qed simp

lemma quit_any_run: "quit_any\<^sup>*\<^sup>* st st' \<Longrightarrow> fw_inv st \<Longrightarrow> all_ending st \<Longrightarrow> fw_inv st' \<and> all_ending st'"
  by (induction rule: rtranclp_induct) (blast dest: quit_any_inv quit_any_effect)+

text \<open>The main loop cancels what it has taken out of the table and returns.\<close>

lemma cancel_run:
  "finite S \<Longrightarrow> main st = Cancelling S \<Longrightarrow> \<exists>st'. (main_step n ^^ Suc (card S)) st st' \<and> main st' = Stopped"
proof (induction S arbitrary: st rule: finite_induct)
  case empty
  then show ?case by (intro exI [of _ "st\<lparr>main := Stopped\<rparr>"]) (auto intro: returns)
next
  case (insert c S)
  let ?st = "cancel_next c (insert c S) st"
  have step: "main_step n st ?st" using insert by (intro cancels) auto
  have "main ?st = Cancelling S" using insert by (simp add: cancel_next_def)
  from insert.IH [OF this] obtain st' where
    st': "(main_step n ^^ Suc (card S)) ?st st'" "main st' = Stopped" by blast
  have "card (insert c S) = Suc (card S)" using insert by simp
  with relpowp_Suc_I2 [OF step st'(1)] have "(main_step n ^^ Suc (card (insert c S))) st st'" by (simp only:)
  with st'(2) show ?case by blast
qed

text \<open>No step takes a cancellation back.\<close>

lemma quit_kept:
  assumes "fw_step n st st'" "fw_inv st" "c < length (conns st)" "quit (conns st ! c)"
  shows "c < length (conns st') \<and> quit (conns st' ! c)"
  using assms(1) unfolding fw_step_def
proof (elim disjE exE)
  assume "main_step n st st'"
  then show ?thesis using assms(2-)
  proof (induction rule: main_step.induct)
    case (receives st recv_from bound)
    then show ?case by (auto simp: udp_received_def Let_def split: sum.splits option.splits)
  next
    case (greets st x c' d res st')
    then show ?case
      by (auto simp: greeted_def Let_def emit_def set_conn_def nth_update spawn_connection_timeout_def
          spawn_connection_workers_def split: option.splits if_splits)
  qed (simp_all add: sent_existing_def dialed_def nth_append take_all_connections_def cancel_next_def cancel_def
      set_conn_def nth_update)
next
  fix c' b assume "worker_step c' b st st'"
  then show ?thesis using assms(3,4)
    by cases (auto simp: worker_recv_def worker_sent_def set_worker_def cancel_def notify_def set_conn_def nth_update Let_def
        split: option.splits sum.splits)
next
  fix c' b assume "timer_step c' b st st'"
  then show ?thesis using assms(3,4)
    by cases (auto simp: timer_expires_def timer_quits_def timer_resets_def stop_timer_def remove_entry_def cancel_def
        set_conn_def nth_update Let_def split: option.splits)
next
  fix c' assume "drop_step c' st st'"
  then show ?thesis using assms(3,4)
    by cases (auto simp: drop_connection_def emit_def set_conn_def nth_update)
qed

text \<open>After the table was taken: every connection of it is cancelled, or the main loop is about to do it.\<close>

definition shutting :: "nat set \<Rightarrow> Fwd \<Rightarrow> bool" where
  "shutting A st \<longleftrightarrow> fw_inv st \<and> shut (main st) \<and> table st = Map.empty
     \<and> (\<forall>c\<in>A. c < length (conns st) \<and> (quit (conns st ! c) \<or> main_holds c (main st)))"

lemma main_step_shutting:
  assumes "main_step n st st'" "shutting A st"
  shows "shut (main st') \<and> table st' = Map.empty
    \<and> (\<forall>c\<in>A. c < length (conns st') \<and> (quit (conns st' ! c) \<or> main_holds c (main st')))"
  using assms by (induction rule: main_step.induct) (auto simp: shutting_def cancel_next_def cancel_def set_conn_def nth_update)

lemma task_frame:
  assumes "fw_step n st st'" "\<not> main_step n st st'"
  shows "main st' = main st \<and> length (conns st') = length (conns st) \<and> (table st = Map.empty \<longrightarrow> table st' = Map.empty)"
proof -
  from assms obtain c b where "worker_step c b st st' \<or> timer_step c b st st' \<or> drop_step c st st'"
    by (auto simp: fw_step_def)
  then show ?thesis
    by (elim disjE worker_step.cases timer_step.cases drop_step.cases)
      (auto simp: fw_ops split: option.splits sum.splits)
qed

lemma fw_step_shutting:
  assumes "fw_step n st st'" "shutting A st"
  shows "shutting A st'"
proof (cases "main_step n st st'")
  case True
  with assms main_step_shutting [OF True assms(2)] main_step_inv [OF True] show ?thesis by (simp add: shutting_def)
next
  case False
  have "fw_inv st'" using assms fw_step_inv by (auto simp: shutting_def)
  with assms(2) task_frame [OF assms(1) False] quit_kept [OF assms(1)] show ?thesis by (auto simp: shutting_def)
qed

lemma shutting_run: "(fw_step n)\<^sup>*\<^sup>* st st' \<Longrightarrow> shutting A st \<Longrightarrow> shutting A st'"
  by (induction rule: rtranclp_induct) (blast intro: fw_step_shutting)+

lemma take_all_shutting:
  assumes "fw_inv st" "main st = Listening"
  shows "shutting (Map.ran (table st)) (take_all_connections st)"
  using take_all_inv [OF assms] assms by (auto simp: shutting_def take_all_connections_def fw_inv_def)

lemma stopped_ending:
  assumes "fw_inv st" "main st = Stopped" "table st = Map.empty" "c < length (conns st)"
  shows "ending c st"
  using assms by (auto simp: fw_inv_def conn_ok_def Let_def ending_def)

lemma fw_reachable_step: "fw_reachable n st \<Longrightarrow> fw_step n st st' \<Longrightarrow> fw_reachable n st'"
  unfolding fw_reachable_def by (rule rtranclp.rtrancl_into_rtrancl)

lemma fw_reachable_main: "fw_reachable n st \<Longrightarrow> main_step n st st' \<Longrightarrow> fw_reachable n st'"
  by (erule fw_reachable_step) (simp add: fw_step_def)

text \<open>A first client, its first datagram, and an answer.\<close>

definition sample_peer :: socket_addr where "sample_peer = V4 (SocketAddrV4 2130706433 50000)"

definition sample_greeting :: Fwd where
  "sample_greeting = \<lparr>table = Map.empty, conns = [fresh_connection sample_peer], main = Greeting sample_peer 0 [1, 2],
     events = [From_client sample_peer [1, 2]]\<rparr>"

definition sample_open :: Fwd where
  "sample_open = \<lparr>table = [sample_peer \<mapsto> 0],
     conns = [(fresh_connection sample_peer)\<lparr>workers := [Waiting], timer := True\<rparr>],
     main = Listening, events = [From_client sample_peer [1, 2], Tcp_send 0 [1, 2]]\<rparr>"

lemma sample_greeting_reachable: "fw_reachable 1 sample_greeting"
proof -
  let ?rcv = "Inr ([1, 2], sample_peer) :: (bytes \<times> socket_addr) io" and ?b = "Inr sample_peer :: socket_addr io"
  have "main_step 1 fwd_new (udp_received ?rcv ?b fwd_new)" by (rule receives) (simp add: fwd_new_def)
  moreover have "main_step 1 (udp_received ?rcv ?b fwd_new) (dialed True sample_peer [1, 2] (udp_received ?rcv ?b fwd_new))"
    by (rule dials) (simp add: udp_received_def udp_recv_pktinfo_def fwd_new_def emit_def MAX_PACKET_LEN_def)
  moreover have "dialed True sample_peer [1, 2] (udp_received ?rcv ?b fwd_new) = sample_greeting"
    by (simp add: udp_received_def udp_recv_pktinfo_def fwd_new_def emit_def MAX_PACKET_LEN_def dialed_def sample_greeting_def)
  moreover have "fw_reachable 1 fwd_new" by (simp add: fw_reachable_def)
  ultimately show ?thesis using fw_reachable_main by metis
qed

lemma sample_open_reachable: "fw_reachable 1 sample_open"
proof (rule fw_reachable_step [OF sample_greeting_reachable])
  have "greeted 1 (Some ()) sample_peer 0 [1, 2] sample_greeting = Ret sample_open"
    by (simp add: greeted_def sample_greeting_def sample_open_def emit_def set_conn_def Let_def
        spawn_connection_timeout_def spawn_connection_workers_def)
  then show "fw_step 1 sample_greeting sample_open"
    unfolding fw_step_def by (intro disjI1 greets) (simp_all add: sample_greeting_def)
qed

definition sample_answered :: Fwd where
  "sample_answered = worker_recv (Some [7]) 0 0 sample_open"

lemma sample_answered_reachable: "fw_reachable 1 sample_answered"
proof (rule fw_reachable_step [OF sample_open_reachable])
  have "worker_step 0 On_recv sample_open sample_answered"
    unfolding sample_answered_def by (rule worker_receives) (simp add: worker_at_def sample_open_def)
  then show "fw_step 1 sample_open sample_answered" by (auto simp: fw_step_def)
qed

definition sample_failed :: Fwd where
  "sample_failed = worker_recv None 0 0 sample_open"

lemma sample_failed_reachable: "fw_reachable 1 sample_failed"
proof (rule fw_reachable_step [OF sample_open_reachable])
  have "worker_step 0 On_recv sample_open sample_failed"
    unfolding sample_failed_def by (rule worker_receives) (simp add: worker_at_def sample_open_def)
  then show "fw_step 1 sample_open sample_failed" by (auto simp: fw_step_def)
qed

section \<open>Properties\<close>

text \<open>
  C18: the connection table. In every reachable state each client has at most one connection in the
  table, entering a new connection never trips the assertion that the client has none, and a timeout
  task that ends removes the entry of its own connection or, after a shutdown, none.
\<close>

theorem connection_table_exclusive:
  assumes "fw_reachable n st"
  shows "(\<forall>x c d res. main st = Greeting x c d \<longrightarrow> \<not> panics (greeted n res x c d st))
    \<and> (\<forall>y z e. table st y = Some e \<and> table st z = Some e \<longrightarrow> y = z)
    \<and> (\<forall>b<length (conns st). timer (conns st ! b) \<longrightarrow>
         (let x = peer (conns st ! b) in
          (table st x = Some b \<or> table st x = None \<and> shut (main st))
          \<and> table (timer_quits b st) = (table st)(x := None) \<and> table (timer_expires b st) = (table st)(x := None)))"
proof (intro conjI allI impI)
  have inv: "fw_inv st" using reachable_fw_all [OF assms] by (simp add: fw_all_def)
  show "main st = Greeting x c d \<Longrightarrow> \<not> panics (greeted n res x c d st)" for x c d res
    using inv by (auto simp: fw_inv_def greeted_def Let_def emit_def split: option.splits)
  show "table st y = Some e \<and> table st z = Some e \<Longrightarrow> y = z" for y z e
    using inv unfolding fw_inv_def entries_ok_def by metis
  fix b assume b: "b < length (conns st)" "timer (conns st ! b)"
  show "let x = peer (conns st ! b) in
      (table st x = Some b \<or> table st x = None \<and> shut (main st))
      \<and> table (timer_quits b st) = (table st)(x := None) \<and> table (timer_expires b st) = (table st)(x := None)"
    using timer_owns [OF inv b]
    by (auto simp: timer_quits_def timer_expires_def remove_entry_def stop_timer_def set_conn_def cancel_def Let_def)
qed

theorem connection_table_exclusive_witness:
  "\<not> panics (greeted 1 (Some ()) sample_peer 0 [1, 2] sample_greeting)"
  using connection_table_exclusive [OF sample_greeting_reachable] by (simp add: sample_greeting_def)

text \<open>
  C11: forwarding is faithful. In every reachable state the payloads sent over the connections of each
  client are datagrams of that client, each at most once and in the order in which they arrived, and
  the datagrams sent to clients, with those the workers hold, are exactly the non-empty payloads
  received on the clients' own connections, each once.
\<close>

theorem forwarding_faithful:
  assumes "fw_reachable n st"
  shows "subseq (concat (map (tcp_sent (map peer (conns st))) (events st))) (concat (map from_client (events st)))
    \<and> mset (concat (map to_client (events st))) + in_flight st
      = mset (concat (map (tcp_received (map peer (conns st))) (events st)))"
  using traffic_lose [of "events st" _ _ "held (main st)"] reachable_fw_all [OF assms]
  by (auto simp: fw_all_def traffic_def)

theorem forwarding_faithful_witness:
  "subseq [(sample_peer, [1, 2])] (concat (map from_client (events sample_answered)))
    \<and> in_flight sample_answered = {#(sample_peer, [7])#}"
  using forwarding_faithful [OF sample_answered_reachable]
  by (simp add: sample_answered_def sample_open_def worker_recv_def emit_def set_worker_def set_conn_def
      fresh_connection_def Let_def)

text \<open>
  The life of a socket. In every reachable state each connection's socket is dropped at most
  once, never while the table, the main loop or a worker holds it, and nothing is sent or received
  over it afterwards.
\<close>

theorem socket_dropped_once:
  assumes "fw_reachable n st"
  shows "count_list (events st) (Sock_drop c) \<le> 1
    \<and> (Sock_drop c \<in> set (events st) \<longrightarrow> c < length (conns st) \<and> \<not> referenced c st)
    \<and> (\<forall>xs ys d. events st = xs @ Sock_drop c # ys \<longrightarrow> Tcp_send c d \<notin> set ys \<and> Tcp_recv c d \<notin> set ys)"
proof (intro conjI allI impI)
  have all: "fw_inv st" "drops_final (events st)" using reachable_fw_all [OF assms] by (simp_all add: fw_all_def)
  have one: "count_list (events st) (Sock_drop c) = (if c < length (conns st) \<and> \<not> alive (conns st ! c) then 1 else 0)"
    using all(1) by (cases "c < length (conns st)") (auto simp: fw_inv_def conn_ok_def Let_def)
  then show "count_list (events st) (Sock_drop c) \<le> 1" by simp
  have silent: "\<forall>e\<in>set ys. event_conn e \<noteq> Some c" if "events st = xs @ Sock_drop c # ys" for xs ys
    using all(2) that unfolding drops_final_def by blast
  show "events st = xs @ Sock_drop c # ys \<Longrightarrow> Tcp_send c d \<notin> set ys"
    "events st = xs @ Sock_drop c # ys \<Longrightarrow> Tcp_recv c d \<notin> set ys" for xs ys d
    using silent by fastforce+
  assume "Sock_drop c \<in> set (events st)"
  with one have "c < length (conns st)" "\<not> alive (conns st ! c)" by (auto simp: count_list_0_iff split: if_splits)
  then show "c < length (conns st)" "\<not> referenced c st" using referenced_alive [OF all(1), of c] by auto
qed

theorem socket_dropped_once_witness: "count_list (events sample_answered) (Sock_drop 0) \<le> 1"
  using socket_dropped_once [OF sample_answered_reachable, of 0] by blast



text \<open>
  C25: shutting down. When the shutdown branch is taken in a reachable state, the main loop returns after one
  step per table entry and one more of its own. In whatever way its steps and those of the other tasks interleave until it has returned,
  the table is then empty and every connection that was in it is cancelled. And from then on, the steps that the remaining tasks
  take without waiting for the server or the clock are bounded in number, and when none is
  left every connection that was ever opened is closed, its socket dropped.
\<close>

theorem shutdown_closes_all:
  assumes "fw_reachable n st" and "main st = Listening"
  shows "(\<exists>st'. (main_step n ^^ Suc (card (Map.ran (table st)))) (take_all_connections st) st' \<and> main st' = Stopped)
    \<and> (\<forall>st'. (fw_step n)\<^sup>*\<^sup>* (take_all_connections st) st' \<and> main st' = Stopped \<longrightarrow>
         table st' = Map.empty \<and> (\<forall>c\<in>Map.ran (table st). quit (conns st' ! c))
         \<and> (\<forall>k st''. (quit_any ^^ k) st' st'' \<longrightarrow> k \<le> (\<Sum>c<length (conns st'). 2 * length (workers (conns st' ! c)) + 2))
         \<and> (\<forall>st''. quit_any\<^sup>*\<^sup>* st' st'' \<and> (\<nexists>u. quit_any st'' u) \<longrightarrow> (\<forall>c<length (conns st''). closed c st'')))"
proof -
  have inv: "fw_inv st" using reachable_fw_all [OF assms(1)] by (simp add: fw_all_def)
  have "Map.ran (table st) \<subseteq> {..<length (conns st)}"
    using inv by (auto simp: fw_inv_def entries_ok_def Map.ran_def)
  then have "finite (Map.ran (table st))" by (rule finite_subset) simp
  moreover have "main (take_all_connections st) = Cancelling (Map.ran (table st))" by (simp add: take_all_connections_def)
  ultimately have returns: "\<exists>st'. (main_step n ^^ Suc (card (Map.ran (table st)))) (take_all_connections st) st' \<and> main st' = Stopped"
    by (rule cancel_run)
  have "table st' = Map.empty \<and> (\<forall>c\<in>Map.ran (table st). quit (conns st' ! c))
      \<and> (\<forall>k st''. (quit_any ^^ k) st' st'' \<longrightarrow> k \<le> (\<Sum>c<length (conns st'). 2 * length (workers (conns st' ! c)) + 2))
      \<and> (\<forall>st''. quit_any\<^sup>*\<^sup>* st' st'' \<and> (\<nexists>u. quit_any st'' u) \<longrightarrow> (\<forall>c<length (conns st''). closed c st''))"
    if run: "(fw_step n)\<^sup>*\<^sup>* (take_all_connections st) st'" and stop: "main st' = Stopped" for st'
  proof (intro conjI allI impI)
    have sh: "shutting (Map.ran (table st)) st'" by (rule shutting_run [OF run take_all_shutting [OF inv assms(2)]])
    then show "table st' = Map.empty" "\<forall>c\<in>Map.ran (table st). quit (conns st' ! c)" using stop by (auto simp: shutting_def)
    have "all_work st' \<le> (\<Sum>c<length (conns st'). 2 * length (workers (conns st' ! c)) + 2)"
      unfolding all_work_def by (rule sum_mono) (rule work_bound)
    then show "(quit_any ^^ k) st' st'' \<Longrightarrow> k \<le> (\<Sum>c<length (conns st'). 2 * length (workers (conns st' ! c)) + 2)" for k st''
      using quit_any_bound [of k st' st''] by simp
    fix st'' c assume rest: "quit_any\<^sup>*\<^sup>* st' st'' \<and> (\<nexists>u. quit_any st'' u)" and c: "c < length (conns st'')"
    have "fw_inv st'" "all_ending st'" using sh stop stopped_ending by (auto simp: shutting_def all_ending_def)
    with rest quit_any_run have "fw_inv st''" "all_ending st''" by blast+
    with quit_progress [of st'' c] c rest show "closed c st''" unfolding all_ending_def quit_any_def by blast
  qed
  with returns show ?thesis by blast
qed

theorem shutdown_closes_all_witness:
  "\<exists>st'. (main_step 1 ^^ 2) (take_all_connections sample_open) st' \<and> main st' = Stopped \<and> quit (conns st' ! 0)"
proof -
  have l: "main sample_open = Listening" "Map.ran (table sample_open) = {0}" by (simp_all add: sample_open_def)
  from shutdown_closes_all [OF sample_open_reachable l(1)] l(2) obtain st' where
    st': "(main_step 1 ^^ 2) (take_all_connections sample_open) st'" "main st' = Stopped" by (auto simp: numeral_2_eq_2)
  have "(fw_step 1)\<^sup>*\<^sup>* (take_all_connections sample_open) st'"
    by (rule relpowp_imp_rtranclp [OF relpowp_mono [OF _ st'(1)]]) (simp add: fw_step_def)
  with shutdown_closes_all [OF sample_open_reachable l(1)] l(2) st' show ?thesis by auto
qed

text \<open>
  Outbound traffic and the idle timeout. No step of the main loop, which carries the clients'
  datagrams, touches the notification that restarts the timeout of an existing connection; only
  payloads from the server do.
\<close>

theorem upstream_never_resets_timer:
  assumes "main_step n st st'" and "fw_reachable n st" and "c < length (conns st)"
  shows "c < length (conns st') \<and> packet_received (conns st' ! c) = packet_received (conns st ! c)"
  using assms(1) assms(2,3)
proof (induction rule: main_step.induct)
  case (receives st recv_from bound)
  then show ?case by (auto simp: udp_received_def Let_def split: sum.splits option.splits)
next
  case (greets st x c' d res st')
  then show ?case
    by (auto simp: greeted_def Let_def emit_def set_conn_def nth_update spawn_connection_timeout_def
        spawn_connection_workers_def split: option.splits if_splits)
qed (simp_all add: sent_existing_def emit_def dialed_def nth_append take_all_connections_def cancel_next_def cancel_def
    set_conn_def nth_update)

theorem upstream_never_resets_timer_witness:
  "packet_received (conns (udp_received (Inr ([5], sample_peer)) (Inr sample_peer) sample_open) ! 0) = False"
proof -
  have m: "main sample_open = Listening" and c: "0 < length (conns sample_open)"
    and p: "packet_received (conns sample_open ! 0) = False"
    by (simp_all add: sample_open_def fresh_connection_def)
  from upstream_never_resets_timer [OF receives [OF m] sample_open_reachable c] p show ?thesis by blast
qed

end
