(* ===== verification/Client.thy ===== *)
theory Client
  imports Forwarder_Properties
begin

text \<open>
  \<open>main.rs\<close> as a whole, with the listener of \<open>udp.rs\<close>: the cleanup helper mode, the configuration, the
  device, the listener and the start of the forwarder, in that order, with what an early exit leaves
  behind.
\<close>

section \<open>Starting the client\<close>

text \<open>A listener: the results of \<open>bind\<close>, \<open>set_nonblocking\<close> and \<open>from_std\<close>; sockets are numbers.\<close>

record udp_system =
  udp_bind :: "socket_addr \<Rightarrow> nat io"
  udp_set_nonblocking :: "nat \<Rightarrow> unit io"
  udp_from_std :: "nat \<Rightarrow> nat io"

definition new_udp_reuseport :: "udp_system \<Rightarrow> socket_addr \<Rightarrow> nat io" where
  "new_udp_reuseport U local_address =
     io_bind (udp_bind U local_address) (\<lambda>s.
     io_bind (udp_set_nonblocking U s) (\<lambda>_. udp_from_std U s))"

text \<open>What the process is started with.\<close>

record ('p, 'w) invocation =
  env_vars :: "string \<Rightarrow> string option"
  parent_probes :: "int \<Rightarrow> sys_result list"
  read_file :: "string \<Rightarrow> string io"
  parse_json :: "string \<Rightarrow> config_fields option"
  arguments :: arg_matches
  lookups :: main_env
  platform_of :: "('p, 'w) platform"
  listener :: udp_system

text \<open>How \<open>main\<close> proceeds: the helper has done its work, or the forwarder runs on a listener and a device.\<close>

datatype client_run = Helped | Forwarding nat MacPacketDevice ForwarderConfig

text \<open>
  \<open>None\<close> while the helper still waits for its parent. A panic unwinds \<open>main\<close> and drops the device it
  has opened.
\<close>

definition client_main ::
  "libc_abi \<Rightarrow> sock_abi \<Rightarrow> bpf_abi \<Rightarrow> ('p, 'w) invocation \<Rightarrow> 'w \<Rightarrow> (client_run io outcome \<times> 'w) option" where
  "client_main C A B I w =
     (let P = platform_of I; S = p_firewall P in
      case run_cleanup_helper_if_requested S (env_vars I) (parent_probes I) w of
        None \<Rightarrow> None
      | Some (Inl e, w) \<Rightarrow> Some (Ret (Inl e), w)
      | Some (Inr True, w) \<Rightarrow> Some (Ret (Inr Helped), w)
      | Some (Inr False, w) \<Rightarrow>
          (case obind (from_matches (read_file I) (parse_json I) (arguments I)) (main_setup (lookups I)) of
             Panic p \<Rightarrow> Some (Panic p, w)
           | Ret (local_address, local_ipv6, F) \<Rightarrow>
               (case device_new C A B P (fw_remote_addr F) local_ipv6 w of
                  (Inl e, w) \<Rightarrow>
                    Some (Ret (Inl (Custom (error_kind e)
                      (''failed to open macOS packet device (administrator privileges may be required): '' @ show_error P e))), w)
                | (Inr dev, w) \<Rightarrow>
                    (case new_udp_reuseport (listener I) local_address of
                       Inl e \<Rightarrow> Some (Panic (Expect_failed ''failed to bind UDP listener''), device_drop S dev w)
                     | Inr s \<Rightarrow> Some (Ret (Inr (Forwarding s dev F)), w)))))"

lemma client_main_normal:
  assumes "env_vars I CLEANUP_MODE_ENV = None"
  shows "client_main C A B I w =
     (case obind (from_matches (read_file I) (parse_json I) (arguments I)) (main_setup (lookups I)) of
        Panic p \<Rightarrow> Some (Panic p, w)
      | Ret (local_address, local_ipv6, F) \<Rightarrow>
          (case device_new C A B (platform_of I) (fw_remote_addr F) local_ipv6 w of
             (Inl e, w) \<Rightarrow> Some (Ret (Inl (Custom (error_kind e)
                 (''failed to open macOS packet device (administrator privileges may be required): ''
                    @ show_error (platform_of I) e))), w)
           | (Inr dev, w) \<Rightarrow>
               (case new_udp_reuseport (listener I) local_address of
                  Inl e \<Rightarrow> Some (Panic (Expect_failed ''failed to bind UDP listener''), device_drop (p_firewall (platform_of I)) dev w)
                | Inr s \<Rightarrow> Some (Ret (Inr (Forwarding s dev F)), w))))"
  using assms by (simp add: client_main_def run_cleanup_helper_if_requested_def Let_def)

section \<open>Properties\<close>

text \<open>
  C15: starting is all or nothing. A client that is not run as the cleanup helper always gets past its
  start. Either the forwarder runs, on a device opened for the configured server, the calls made have
  left exactly the rule that blocks that server and its reference in place, and dropping the device
  asks for the removal of both; or \<open>main\<close> has failed, by an error or a panic, and everything that \<open>pfctl\<close>
  reported as done has been asked to be undone. What \<open>pfctl\<close> and all other calls answer is arbitrary.
\<close>

theorem client_start_transaction:
  assumes "fw_log (p_firewall (platform_of I)) log" and "env_vars I CLEANUP_MODE_ENV = None"
  shows "\<exists>r w' calls. client_main C A B I w = Some (r, w') \<and> log w' = log w @ calls \<and>
    (case r of
       Ret (Inr (Forwarding s dev F)) \<Rightarrow>
         cap_remote (dev_capture dev) = fw_remote_addr F \<and> blocking (dev_firewall dev) (fw_remote_addr F) calls
         \<and> (\<exists>calls'. log (device_drop (p_firewall (platform_of I)) dev w') = log w @ calls' \<and> settled calls')
     | Ret (Inr Helped) \<Rightarrow> False
     | _ \<Rightarrow> settled calls)"
proof (cases "obind (from_matches (read_file I) (parse_json I) (arguments I)) (main_setup (lookups I))")
  case (Ret result)
  obtain local_address local_ipv6 F where result: "result = (local_address, local_ipv6, F)" by (cases result)
  obtain d w' where d: "device_new C A B (platform_of I) (fw_remote_addr F) local_ipv6 w = (d, w')" by fastforce
  show ?thesis
  proof (cases d)
    case (Inl e)
    with Ret result d device_new_fails [OF assms(1), of C A B] show ?thesis
      by (simp add: client_main_normal [OF assms(2)])
  next
    case (Inr dev)
    note opened = d [unfolded Inr]
    have "cap_remote (dev_capture dev) = fw_remote_addr F"
      using opened_capture [OF device_new_parts(1) [OF opened]] by blast
    with Ret result d Inr device_new_effect [OF assms(1) opened] device_drop_settles [OF assms(1) opened] show ?thesis
      by (cases "new_udp_reuseport (listener I) local_address") (auto simp: client_main_normal [OF assms(2)])
  qed
next
  case (Panic p)
  then show ?thesis by (auto simp: client_main_normal [OF assms(2)] settled_def account_def intro!: exI [of _ "[]"])
qed

definition sample_invocation :: "(string, unit \<times> fw_call list) invocation" where
  "sample_invocation = \<lparr>env_vars = (\<lambda>v. None), parent_probes = (\<lambda>p. []), read_file = (\<lambda>f. Inl (Os 2)), parse_json = (\<lambda>s. None),
     arguments = \<lparr>m_values = (\<lambda>i. None), m_flags = (\<lambda>i. False)\<rparr>,
     lookups = sample_main_env\<lparr>lookup_host := (\<lambda>h. Inr [V4 (SocketAddrV4 1 2)])\<rparr>, platform_of = sample_platform,
     listener = \<lparr>udp_bind = (\<lambda>a. Inr 9), udp_set_nonblocking = (\<lambda>s. Inr ()), udp_from_std = (\<lambda>s. Inr s)\<rparr>\<rparr>"

lemma sample_setup:
  "obind (from_matches (read_file sample_invocation) (parse_json sample_invocation) (arguments sample_invocation))
     (main_setup (lookups sample_invocation))
   = Ret (V4 (SocketAddrV4 2130706433 8080), None, \<lparr>fw_remote_addr = V4 (SocketAddrV4 1 2), fake_tcp_local_ipv4 = 3325256714,
       fake_tcp_local_ipv6 = None, worker_count = 8, udp_ttl = 180\<rparr>)"
  by (simp add: sample_invocation_def from_matches_def from_loaded_config_def get_one_def get_flag_def command_def
      option_arg_def load_config_def config_default_def unwrap_or_def main_setup_def sample_main_env_def expect_def
      expect_io_def select_remote_address_def discover_local_ipv4_def is_ipv6_def UDP_TTL_def Let_def)

theorem client_start_transaction_witness:
  "\<exists>dev F w'. client_main darwin_libc darwin_sock darwin_bpf sample_invocation ((), [])
      = Some (Ret (Inr (Forwarding 9 dev F)), w')
    \<and> blocking (dev_firewall dev) (fw_remote_addr F) (snd w') \<and> settled (snd (device_drop sim_system dev w'))"
proof -
  let ?run = "client_main darwin_libc darwin_sock darwin_bpf sample_invocation"
  have inv: "platform_of sample_invocation = sample_platform" "env_vars sample_invocation CLEANUP_MODE_ENV = None"
    "p_firewall sample_platform = sim_system"
    by (simp_all add: sample_invocation_def sample_platform_def)
  obtain dev w' where d: "device_new darwin_libc darwin_sock darwin_bpf sample_platform (V4 (SocketAddrV4 1 2)) None ((), [])
      = (Inr dev, w')" by (rule sample_device_opens)
  have "new_udp_reuseport (listener sample_invocation) (V4 (SocketAddrV4 2130706433 8080)) = Inr 9"
    by (simp add: sample_invocation_def new_udp_reuseport_def)
  with d inv(1) sample_setup have "\<exists>F. ?run ((), []) = Some (Ret (Inr (Forwarding 9 dev F)), w')"
    by (simp add: client_main_normal [OF inv(2)])
  then obtain F where F: "?run ((), []) = Some (Ret (Inr (Forwarding 9 dev F)), w')" ..
  have "fw_log (p_firewall (platform_of sample_invocation)) snd" using inv sim_log by simp
  from client_start_transaction [OF this inv(2), of darwin_libc darwin_sock darwin_bpf "((), [])"] inv F show ?thesis by auto
qed

end
