(* ===== verification/Session.thy ===== *)
theory Session
  imports Client
begin

text \<open>
  The forwarder running on the stack: \<open>run_forwarder\<close> with the sockets that \<open>Stack::connect\<close> returns, the
  reader task and the device. Every step of the session is a step of the forwarder, of the stack, or
  of both at once where one calls the other (\<open>connect\<close>, \<open>send\<close>, \<open>recv\<close> and the drop of a socket). The build is
  the release build, without overflow checks. A panic inside \<open>stack.connect\<close> ends the main loop. A run ends when a socket is
  dropped after the last reader has died, since the drop then panics.
\<close>

section \<open>The running client\<close>

text \<open>
  The state of \<open>run_forwarder\<close> with the stack it owns. \<open>link\<close> gives the socket of each connection and its
  addresses, \<open>dialing\<close> the socket that \<open>stack.connect\<close> is working on. The last two fields only record what
  happened: the packets the device delivered, and the packets each socket took from its channel.
\<close>

record ('c, 'm, 'b) Session =
  stk :: "('c, 'm, 'b) Stack"
  fwd :: Fwd
  link :: "(nat \<times> AddrTuple) list"
  dialing :: "nat option"
  net_in :: "bytes list"
  taken :: "nat \<Rightarrow> bytes list"

definition session_new :: "('c, 'm, 'b) chan_lib \<Rightarrow> nat \<Rightarrow> ForwarderConfig \<Rightarrow> ('c, 'm, 'b) Session" where
  "session_new K device F =
     \<lparr>stk = stack_new K [device] (fake_tcp_local_ipv4 F) (fake_tcp_local_ipv6 F), fwd = fwd_new, link = [],
      dialing = None, net_in = [], taken = (\<lambda>i. [])\<rparr>"

text \<open>What a reader task does on its own, apart from reading a packet.\<close>

inductive reader_step ::
  "packet_lib \<Rightarrow> ('c, 'm, 'b) chan_lib \<Rightarrow> ('c, 'm, 'b) Stack \<Rightarrow> ('c, 'm, 'b) Stack \<Rightarrow> bool"
  for L :: packet_lib and K :: "('c, 'm, 'b) chan_lib"
where
  reader_fails: "readers st r = Some R \<Longrightarrow> pc R = reader_pc.Waiting \<Longrightarrow> reader_recv L rcv r R st = Panic p
    \<Longrightarrow> reader_step L K st (reader_dies r st)"
| reader_acts: "readers st r = Some R \<Longrightarrow> reader_act L K False try_res r R st = Some (Ret st') \<Longrightarrow> reader_step L K st st'"
| reader_panics: "readers st r = Some R \<Longrightarrow> reader_act L K False try_res r R st = Some (Panic p) \<Longrightarrow> p \<noteq> Assertion_failed
    \<Longrightarrow> reader_step L K st (reader_dies r st)"
| reader_purges: "readers st r = Some R \<Longrightarrow> pc R = reader_pc.Waiting \<Longrightarrow> reader_purge K r R st = Some (Ret st')
    \<Longrightarrow> reader_step L K st st'"
| reader_lags: "readers st r = Some R \<Longrightarrow> pc R = reader_pc.Waiting \<Longrightarrow> reader_purge K r R st = Some (Panic p)
    \<Longrightarrow> reader_step L K st (reader_dies r st)"

text \<open>The packet that one iteration of \<open>connect\<close> takes from the channel of its socket.\<close>

definition handshake_input ::
  "('c, 'm, 'b) chan_lib \<Rightarrow> nat \<Rightarrow> Socket \<Rightarrow> nat \<Rightarrow> ('c, 'm, 'b) Stack \<Rightarrow> recv_event" where
  "handshake_input K i s m st = (if m = RETRIES then Timeout else fst (poll_when (state s = SynSent) K i s st))"

definition take_packet :: "nat \<Rightarrow> recv_event \<Rightarrow> ('c, 'm, 'b) Session \<Rightarrow> ('c, 'm, 'b) Session" where
  "take_packet i ev S = S\<lparr>taken := (taken S)(i := taken S i @ (case ev of Received b \<Rightarrow> [b] | _ \<Rightarrow> []))\<rparr>"

text \<open>After an iteration: \<open>connect\<close> goes on, has returned the socket, or has dropped it.\<close>

definition handshake_result ::
  "nat \<Rightarrow> socket_addr \<Rightarrow> bytes \<Rightarrow> ('c, 'm, 'b) Stack \<Rightarrow> ('c, 'm, 'b) Session \<Rightarrow> ('c, 'm, 'b) Session" where
  "handshake_result i x d st S =
     (case sockets st i of
        None \<Rightarrow> S\<lparr>stk := st, fwd := dialed False x d (fwd S), dialing := None\<rparr>
      | Some (s, ro) \<Rightarrow>
          if ro = Owned
          then S\<lparr>stk := st, fwd := dialed True x d (fwd S), dialing := None, link := link S @ [(i, socket_tuple s)]\<rparr>
          else S\<lparr>stk := st\<rparr>)"

text \<open>The socket of connection \<open>c\<close>.\<close>

definition conn_socket :: "('c, 'm, 'b) Session \<Rightarrow> nat \<Rightarrow> nat" where
  "conn_socket S c = fst (link S ! c)"

definition owns :: "('c, 'm, 'b) Session \<Rightarrow> nat \<Rightarrow> Socket \<Rightarrow> bool" where
  "owns S c s \<longleftrightarrow> sockets (stk S) (conn_socket S c) = Some (s, Owned)"

text \<open>Forwarder steps that do not involve the stack.\<close>

inductive task_step :: "Fwd \<Rightarrow> Fwd \<Rightarrow> bool" where
  task_udp: "main f = Listening \<Longrightarrow> task_step f (udp_received recv_from bound f)"
| task_shutdown: "main f = Listening \<Longrightarrow> task_step f (take_all_connections f)"
| task_cancel: "main f = Cancelling C \<Longrightarrow> c \<in> C \<Longrightarrow> task_step f (cancel_next c C f)"
| task_return: "main f = Cancelling {} \<Longrightarrow> task_step f (f\<lparr>main := Stopped\<rparr>)"
| task_deliver: "worker_at c w f (Delivering d) \<Longrightarrow> task_step f (worker_sent sent d c w f)"
| task_quit: "worker_at c w f Waiting \<Longrightarrow> quit (conns f ! c) \<Longrightarrow> task_step f (set_worker c w Finished f)"
| task_timer: "timer_step c b f f' \<Longrightarrow> task_step f f'"

text \<open>The steps of the forwarder, with the operations of the stack that they call.\<close>

inductive forward_step ::
  "packet_lib \<Rightarrow> ('c, 'm, 'b) chan_lib \<Rightarrow> ForwarderConfig \<Rightarrow> ('c, 'm, 'b) Session \<Rightarrow> ('c, 'm, 'b) Session \<Rightarrow> bool"
  for L :: packet_lib and K :: "('c, 'm, 'b) chan_lib" and F :: ForwarderConfig
where
  fwd_task: "task_step (fwd S) f' \<Longrightarrow> forward_step L K F S (S\<lparr>fwd := f'\<rparr>)"
| dial_opens: "main (fwd S) = Dialing x d \<Longrightarrow> dialing S = None \<Longrightarrow> 32768 \<le> start \<Longrightarrow> start \<le> 60999
    \<Longrightarrow> connect_open K start draw (fw_remote_addr F) (stk S) = Ret (Some (i, st'))
    \<Longrightarrow> forward_step L K F S (S\<lparr>stk := st', dialing := Some i\<rparr>)"
| dial_exhausts: "main (fwd S) = Dialing x d \<Longrightarrow> dialing S = None \<Longrightarrow> 32768 \<le> start \<Longrightarrow> start \<le> 60999
    \<Longrightarrow> connect_open K start draw (fw_remote_addr F) (stk S) = Ret None
    \<Longrightarrow> forward_step L K F S (S\<lparr>fwd := dialed False x d (fwd S)\<rparr>)"
| dial_aborts: "main (fwd S) = Dialing x d \<Longrightarrow> dialing S = None \<Longrightarrow> 32768 \<le> start \<Longrightarrow> start \<le> 60999
    \<Longrightarrow> connect_open K start draw (fw_remote_addr F) (stk S) = Panic p
    \<Longrightarrow> forward_step L K F S (S\<lparr>fwd := (fwd S)\<lparr>main := Stopped\<rparr>\<rparr>)"
| dial_polls: "main (fwd S) = Dialing x d \<Longrightarrow> dialing S = Some i \<Longrightarrow> sockets (stk S) i = Some (s, Connecting m)
    \<Longrightarrow> connect_poll L K False res i s m (stk S) = Ret st'
    \<Longrightarrow> forward_step L K F S (handshake_result i x d st' (take_packet i (handshake_input K i s m (stk S)) S))"
| sends_existing: "main (fwd S) = Sending x c d \<Longrightarrow> owns S c s \<Longrightarrow> socket_send L res d s = Ret (v, s', buf)
    \<Longrightarrow> forward_step L K F S
          (S\<lparr>stk := put_socket (conn_socket S c) s' Owned [buf] (stk S), fwd := sent_existing c d (fwd S)\<rparr>)"
| sends_first: "main (fwd S) = Greeting x c d \<Longrightarrow> owns S c s \<Longrightarrow> socket_send L res d s = Ret (v, s', buf)
    \<Longrightarrow> greeted (worker_count F) v x c d (fwd S) = Ret f'
    \<Longrightarrow> forward_step L K F S (S\<lparr>stk := put_socket (conn_socket S c) s' Owned [buf] (stk S), fwd := f'\<rparr>)"
| worker_recvs: "worker_at c w (fwd S) Waiting \<Longrightarrow> owns S c s \<Longrightarrow> poll_channel K (conn_socket S c) s (stk S) = (ev, st1)
    \<Longrightarrow> ev \<noteq> Timeout \<Longrightarrow> length buf = MAX_PACKET_LEN
    \<Longrightarrow> socket_recv L (received ev) buf s = Ret (v, s', buf', out)
    \<Longrightarrow> forward_step L K F S
          ((take_packet (conn_socket S c) ev S)
             \<lparr>stk := put_socket (conn_socket S c) s' Owned out st1,
              fwd := worker_recv (map_option (\<lambda>k. take k buf') v) c w (fwd S)\<rparr>)"
| drops_conn: "c < length (conns (fwd S)) \<Longrightarrow> alive (conns (fwd S) ! c) \<Longrightarrow> \<not> referenced c (fwd S) \<Longrightarrow> owns S c s
    \<Longrightarrow> socket_drop L K (conn_socket S c) s (stk S) = Ret st'
    \<Longrightarrow> forward_step L K F S (S\<lparr>stk := st', fwd := drop_connection c (fwd S)\<rparr>)"

text \<open>The session: the forwarder and the reader, which gets its packets from the device.\<close>

inductive session_step ::
  "packet_lib \<Rightarrow> ('c, 'm, 'b) chan_lib \<Rightarrow> ForwarderConfig \<Rightarrow> ('c, 'm, 'b) Session \<Rightarrow> ('c, 'm, 'b) Session \<Rightarrow> bool"
  for L :: packet_lib and K :: "('c, 'm, 'b) chan_lib" and F :: ForwarderConfig
where
  net_reads: "readers (stk S) r = Some R \<Longrightarrow> pc R = reader_pc.Waiting \<Longrightarrow> length b \<le> MAX_PACKET_LEN
    \<Longrightarrow> reader_recv L (Inr b) r R (stk S) = Ret st'
    \<Longrightarrow> session_step L K F S (S\<lparr>stk := st', net_in := net_in S @ [b]\<rparr>)"
| net_reader: "reader_step L K (stk S) st' \<Longrightarrow> session_step L K F S (S\<lparr>stk := st'\<rparr>)"
| forwards: "forward_step L K F S S' \<Longrightarrow> session_step L K F S S'"

definition session_reachable ::
  "packet_lib \<Rightarrow> ('c, 'm, 'b) chan_lib \<Rightarrow> ForwarderConfig \<Rightarrow> ('c, 'm, 'b) Session \<Rightarrow> bool" where
  "session_reachable L K F S \<longleftrightarrow> (\<exists>d. (session_step L K F)\<^sup>*\<^sup>* (session_new K d F) S)"

section \<open>The parts run as they do alone\<close>

lemma reader_step_stack: "reader_step L K st st' \<Longrightarrow> stack_step L K False st st'"
  by (induction rule: reader_step.induct) (blast intro: stack_step.intros)+

lemma task_step_fwd: "task_step f f' \<Longrightarrow> fw_step n f f'"
  unfolding fw_step_def
  by (induction rule: task_step.induct) (blast intro: main_step.intros worker_step.intros)+

lemma forward_step_stack: "forward_step L K F S S' \<Longrightarrow> (stack_step L K False)\<^sup>=\<^sup>= (stk S) (stk S')"
proof (induction rule: forward_step.induct)
  case (dial_polls S x d i s m res st')
  then have "stack_step L K False (stk S) st'" by (blast intro: stack_step.connects)
  then show ?case by (auto simp: handshake_result_def take_packet_def split: option.splits)
qed (auto simp: owns_def intro: stack_step.intros reader_step_stack)

lemma session_step_stack: "session_step L K F S S' \<Longrightarrow> (stack_step L K False)\<^sup>=\<^sup>= (stk S) (stk S')"
proof (induction rule: session_step.induct)
  case (forwards S S')
  then show ?case by (rule forward_step_stack)
qed (auto simp: owns_def intro: stack_step.intros reader_step_stack)

lemma forward_step_fwd: "forward_step L K F S S' \<Longrightarrow> (fw_step (worker_count F))\<^sup>=\<^sup>= (fwd S) (fwd S')"
proof (induction rule: forward_step.induct)
  case (fwd_task S f')
  then show ?case by (simp add: task_step_fwd)
next
  case (dial_polls S x d i s m res st')
  then have "fw_step (worker_count F) (fwd S) (dialed b x d (fwd S))" for b
    unfolding fw_step_def by (blast intro: main_step.dials)
  then show ?case by (auto simp: handshake_result_def take_packet_def split: option.splits)
next
  case (worker_recvs c w S s ev st1 buf v s' buf' out)
  then have "worker_step c On_recv (fwd S) (worker_recv (map_option (\<lambda>k. take k buf') v) c w (fwd S))"
    by (blast intro: worker_step.worker_receives)
  then show ?case by (auto simp: fw_step_def)
next
  case (drops_conn c S s st')
  then have "drop_step c (fwd S) (drop_connection c (fwd S))" by (blast intro: drop_step.drops)
  then show ?case by (auto simp: fw_step_def)
qed (auto simp: fw_step_def intro: main_step.intros)

lemma session_step_fwd: "session_step L K F S S' \<Longrightarrow> (fw_step (worker_count F))\<^sup>=\<^sup>= (fwd S) (fwd S')"
proof (induction rule: session_step.induct)
  case (forwards S S')
  then show ?case by (rule forward_step_fwd)
qed (auto simp: fw_step_def intro: main_step.intros)

section \<open>Connections and sockets\<close>

text \<open>The addresses and the owner of every socket.\<close>

definition shape :: "('c, 'm, 'b) Stack \<Rightarrow> nat \<Rightarrow> (AddrTuple \<times> role) option" where
  "shape st i = map_option (\<lambda>(s, ro). (socket_tuple s, ro)) (sockets st i)"

lemma shape_None [simp]: "shape st i = None \<longleftrightarrow> sockets st i = None"
  by (simp add: shape_def)

lemma shape_Some: "shape st i = Some (u, ro) \<longleftrightarrow> (\<exists>s. sockets st i = Some (s, ro) \<and> socket_tuple s = u)"
  by (auto simp: shape_def)

definition client_end :: "socket_addr \<Rightarrow> AddrTuple \<Rightarrow> bool" where
  "client_end remote u \<longleftrightarrow> tuple_remote u = remote \<and> strip_scope (tuple_local u) = tuple_local u"

text \<open>
  The sockets of the stack are exactly those of the connections that are not dropped yet, and the one
  that is being opened.
\<close>

definition link_ok ::
  "socket_addr \<Rightarrow> (nat \<Rightarrow> (AddrTuple \<times> role) option) \<Rightarrow> nat \<Rightarrow> bool list \<Rightarrow> (nat \<times> AddrTuple) list \<Rightarrow> nat option \<Rightarrow> bool" where
  "link_ok remote sh nxt av lk dl \<longleftrightarrow>
     length lk = length av \<and> distinct (map fst lk)
     \<and> (\<forall>c<length lk. fst (lk ! c) < nxt \<and> dl \<noteq> Some (fst (lk ! c)) \<and> client_end remote (snd (lk ! c))
          \<and> sh (fst (lk ! c)) = (if av ! c then Some (snd (lk ! c), Owned) else None))
     \<and> (\<forall>i. i \<notin> fst ` set lk \<longrightarrow> dl \<noteq> Some i \<longrightarrow> sh i = None)
     \<and> (\<forall>i. dl = Some i \<longrightarrow> i < nxt \<and> (\<exists>u m. sh i = Some (u, Connecting m) \<and> client_end remote u))"

definition dial_ok :: "nat option \<Rightarrow> main_pc \<Rightarrow> bool" where
  "dial_ok dl p \<longleftrightarrow> dl = None \<or> (\<exists>x d. p = Dialing x d)"

lemma link_ok_open:
  assumes "link_ok remote sh nxt av lk None" "client_end remote u" "\<And>i. nxt \<le> i \<Longrightarrow> sh i = None"
  shows "link_ok remote (sh(nxt \<mapsto> (u, Connecting m))) (nxt + 1) av lk (Some nxt)"
  using assms by (fastforce simp: link_ok_def)

lemma link_ok_poll:
  "link_ok remote sh nxt av lk (Some i) \<Longrightarrow> sh i = Some (u, ro) \<Longrightarrow> link_ok remote (sh(i \<mapsto> (u, Connecting m))) nxt av lk (Some i)"
  by (auto simp: link_ok_def)

lemma link_ok_fail:
  "link_ok remote sh nxt av lk (Some i) \<Longrightarrow> link_ok remote (sh(i := None)) nxt av lk None"
  by (auto simp: link_ok_def)

lemma link_ok_connected:
  assumes "link_ok remote sh nxt av lk (Some i)" "sh i = Some (u, ro)"
  shows "link_ok remote (sh(i \<mapsto> (u, Owned))) nxt (av @ [True]) (lk @ [(i, u)]) None"
proof -
  have i: "i \<notin> fst ` set lk" using assms(1) by (fastforce simp: link_ok_def in_set_conv_nth)
  then have "distinct (map fst (lk @ [(i, u)]))" using assms(1) by (simp add: link_ok_def)
  moreover have "fst (lk ! c) \<noteq> i" if "c < length lk" for c using i that by force
  ultimately show ?thesis using assms by (auto simp: link_ok_def nth_append less_Suc_eq)
qed

lemma link_ok_drop:
  assumes "link_ok remote sh nxt av lk dl" "c < length lk"
  shows "link_ok remote (sh(fst (lk ! c) := None)) nxt (av[c := False]) lk dl"
proof -
  have "fst (lk ! e) = fst (lk ! c) \<longleftrightarrow> e = c" if "e < length lk" for e
    using assms that nth_eq_iff_index_eq [of "map fst lk" e c] by (simp add: link_ok_def)
  then show ?thesis using assms by (auto simp: link_ok_def nth_update)
qed

section \<open>What the stack's operations do to sockets\<close>

lemma poll_channel_frame:
  "poll_channel K i s st = (ev, st') \<Longrightarrow> sockets st' = sockets st \<and> next_id st' = next_id st \<and> listening st' = listening st
     \<and> readers st' = readers st \<and> devices st' = devices st \<and> trace st' = trace st"
  by (auto simp: poll_channel_def split: option.splits)

lemma poll_when_frame:
  "poll_when w K i s st = (ev, st') \<Longrightarrow> sockets st' = sockets st \<and> next_id st' = next_id st \<and> listening st' = listening st
     \<and> readers st' = readers st \<and> devices st' = devices st \<and> trace st' = trace st"
  using poll_channel_frame [of K i s st ev st'] by (auto simp: poll_when_def split: if_splits)

lemma channel_send_frame:
  "channel_send K c b st = Some (Some st') \<Longrightarrow> sockets st' = sockets st \<and> next_id st' = next_id st
     \<and> listening st' = listening st \<and> readers st' = readers st \<and> devices st' = devices st \<and> trace st' = trace st"
  by (auto simp: channel_send_def split: option.splits)

lemma set_reader_frame [simp]:
  "sockets (set_reader r R st) = sockets st" "next_id (set_reader r R st) = next_id st"
  "listening (set_reader r R st) = listening st" "devices (set_reader r R st) = devices st"
  "trace (set_reader r R st) = trace st" "channels (set_reader r R st) = channels st"
  "readers (set_reader r R st) = (readers st)(r \<mapsto> R)"
  by (simp_all add: set_reader_def)

lemma reader_dies_frame [simp]:
  "sockets (reader_dies r st) = sockets st" "next_id (reader_dies r st) = next_id st"
  "listening (reader_dies r st) = listening st" "devices (reader_dies r st) = devices st"
  "trace (reader_dies r st) = trace st" "channels (reader_dies r st) = channels st"
  by (simp_all add: reader_dies_def)

text \<open>The packet that a reader holds for socket \<open>i\<close>.\<close>

fun held_for :: "nat \<Rightarrow> reader_pc \<Rightarrow> bytes list" where
  "held_for i (Cached c b) = (if c = i then [b] else [])"
| "held_for i (Found u c b) = (if c = i then [b] else [])"
| "held_for i (reader_pc.Sending c b) = (if c = i then [b] else [])"
| "held_for i p = []"

lemma reader_recv_frame:
  assumes "reader_recv L (Inr b) r R st = Ret st'"
  shows "st' = st \<or> (\<exists>p. st' = set_reader r (R\<lparr>pc := p\<rparr>) st \<and> (\<forall>i. held_for i p = [] \<or> held_for i p = [b]))"
proof -
  from assms obtain parsed where pr: "parse_ip_packet L b = Ret parsed" by (auto simp: reader_recv_def obind_eq_Ret_iff)
  show ?thesis
  proof (cases parsed)
    case None
    with assms pr show ?thesis by (simp add: reader_recv_def)
  next
    case (Some y)
    obtain ip t where y: "y = (ip, t)" by (cases y)
    let ?u = "packet_tuple L ip t"
    from assms pr Some y obtain p where p: "st' = set_reader r (R\<lparr>pc := p\<rparr>) st"
      "p \<in> {Missing ?u t} \<union> range (\<lambda>c. Cached c b) \<union> range (\<lambda>c. Found ?u c b)"
      by (auto simp: reader_recv_def Let_def split: option.splits)
    from p(2) have "\<forall>i. held_for i p = [] \<or> held_for i p = [b]" by auto
    with p(1) show ?thesis by blast
  qed
qed

lemma reply_rst_frame:
  "reply_rst L res u sq ak st = Ret st' \<Longrightarrow> \<exists>d buf. st' = st\<lparr>trace := trace st @ [(d, buf)]\<rparr>
     \<and> (\<exists>f. build_tcp_packet L (tuple_local u) (tuple_remote u) sq ak f None = Ret buf)"
  by (cases "devices st"; cases res) (auto simp: reply_rst_def obind_eq_Ret_iff)

text \<open>A reader of a stack that listens on no port opens no sockets.\<close>

lemma reader_unknown_frame:
  assumes "reader_unknown L K c res r u t st = Ret st'" "listening st = {}"
  shows "st' = st \<or> (\<exists>d buf l a sq ak f. st' = st\<lparr>trace := trace st @ [(d, buf)]\<rparr> \<and> build_tcp_packet L l a sq ak f None = Ret buf)"
proof -
  from assms have "st' = st \<or> (\<exists>a. reply_rst L res u (tcp_get_acknowledgement (tcp L) t) a st = Ret st')"
    by (auto simp: reader_unknown_def Let_def obind_eq_Ret_iff split: if_splits)
  then show ?thesis by (blast dest: reply_rst_frame)
qed

lemma put_socket_frame [simp]:
  "sockets (put_socket i s ro out st) = (sockets st)(i \<mapsto> (s, ro))" "next_id (put_socket i s ro out st) = next_id st"
  "listening (put_socket i s ro out st) = listening st" "devices (put_socket i s ro out st) = devices st"
  "readers (put_socket i s ro out st) = readers st" "channels (put_socket i s ro out st) = channels st"
  "trace (put_socket i s ro out st) = trace st @ map (Pair (tun s)) out"
  by (simp_all add: put_socket_def)

lemma shape_put: "shape (put_socket i s ro out st) = (shape st)(i \<mapsto> (socket_tuple s, ro))"
  by (auto simp: shape_def fun_eq_iff)

lemma shape_dropped: "shape (dropped K i s buf st) = (shape st)(i := None)"
  by (auto simp: shape_def dropped_def fun_eq_iff)

lemma shape_sockets: "sockets st' = sockets st \<Longrightarrow> shape st' = shape st"
  by (simp add: shape_def fun_eq_iff)
section \<open>Observations\<close>

definition queue_of :: "('c \<Rightarrow> bytes list) \<Rightarrow> ('c, 'm, 'b) Stack \<Rightarrow> nat \<Rightarrow> bytes list" where
  "queue_of queued st i = (case channels st i of None \<Rightarrow> [] | Some q \<Rightarrow> queued q)"

definition in_hand :: "('c, 'm, 'b) Stack \<Rightarrow> nat \<Rightarrow> bytes list" where
  "in_hand st i = concat (map (\<lambda>r. case readers st r of None \<Rightarrow> [] | Some R \<Rightarrow> held_for i (pc R)) (devices st))"

text \<open>The source address and payload of a packet that has one.\<close>

definition wire_data :: "packet_lib \<Rightarrow> bytes \<Rightarrow> (socket_addr \<times> bytes) list" where
  "wire_data L b =
     (case parse_ip_packet L b of
        Ret (Some (ip, t)) \<Rightarrow>
          let Sg = segment_of L ip t in if seg_data Sg = [] then [] else [(seg_src Sg, seg_data Sg)]
      | _ \<Rightarrow> [])"

definition sent_on_wire :: "packet_lib \<Rightarrow> ('c, 'm, 'b) Stack \<Rightarrow> (socket_addr \<times> bytes) list" where
  "sent_on_wire L st = concat (map (wire_data L \<circ> snd) (trace st))"

lemma carries_wire_data:
  "carries L b Sg \<Longrightarrow> wire_data L b = (if seg_data Sg = [] then [] else [(seg_src Sg, seg_data Sg)])"
  by (auto simp: carries_def wire_data_def Let_def split: outcome.splits option.splits prod.splits)

lemma queue_of_frame: "channels st' = channels st \<Longrightarrow> queue_of queued st' i = queue_of queued st i"
  by (simp add: queue_of_def)

lemma in_hand_frame: "readers st' = readers st \<Longrightarrow> devices st' = devices st \<Longrightarrow> in_hand st' i = in_hand st i"
  by (simp add: in_hand_def)

lemma in_hand_set: "devices st = [r] \<Longrightarrow> in_hand (set_reader r R st) i = held_for i (pc R)"
  by (simp add: in_hand_def)

lemma in_hand_one: "devices st = [r] \<Longrightarrow> readers st r = Some R \<Longrightarrow> in_hand st i = held_for i (pc R)"
  by (simp add: in_hand_def)

lemma in_hand_dropped: "in_hand (dropped K i s buf st) j = in_hand st j"
  by (auto simp: in_hand_def dropped_def intro!: arg_cong [of _ _ concat] split: option.splits)

lemma queue_of_dropped: "queue_of queued (dropped K i s buf st) j = (if j = i then [] else queue_of queued st j)"
  by (simp add: queue_of_def dropped_def)

fun packet_in :: "recv_event \<Rightarrow> bytes list" where
  "packet_in (Received b) = [b]"
| "packet_in _ = []"

lemma take_packet_in: "take_packet i ev S = S\<lparr>taken := (taken S)(i := taken S i @ packet_in ev)\<rparr>"
  by (cases ev) (simp_all add: take_packet_def)

text \<open>The stack moves packets towards their sockets, or loses some, and nothing else happens.\<close>

definition quiet :: "packet_lib \<Rightarrow> ('c \<Rightarrow> bytes list) \<Rightarrow> ('c, 'm, 'b) Stack \<Rightarrow> ('c, 'm, 'b) Stack \<Rightarrow> bool" where
  "quiet L queued st st' \<longleftrightarrow> shape st' = shape st \<and> next_id st' = next_id st \<and> listening st' = listening st
     \<and> sent_on_wire L st' = sent_on_wire L st
     \<and> (\<forall>i. subseq (queue_of queued st' i @ in_hand st' i) (queue_of queued st i @ in_hand st i))"

context stack_laws
begin

lemma dataless: "build_tcp_packet L l r sq ak f None = Ret b \<Longrightarrow> wire_data L b = []"
  using build_panics_iff [of l r sq ak f None] build_carries [of l r f None sq ak]
  by (fastforce dest: carries_wire_data)

lemma socket_build_dataless: "socket_build L s f None = Ret (b, s') \<Longrightarrow> wire_data L b = []"
  by (auto simp: socket_build_def Let_def obind_eq_Ret_iff dest: dataless)

lemma connect_step_dataless: "connect_step L ck res ev s = Ret (r, s', out) \<Longrightarrow> concat (map (wire_data L) out) = []"
  by (cases res) (auto simp: connect_step_def Let_def obind_eq_Ret_iff dest!: socket_build_dataless
      split: State.splits recv_event.splits if_splits)

lemma socket_recv_dataless:
  "socket_recv L raw buf s = Ret (v, s', buf', out) \<Longrightarrow> concat (map (wire_data L) out) = []"
  by (auto simp: socket_recv_def Let_def obind_eq_Ret_iff dest!: socket_build_dataless
      split: State.splits option.splits if_splits)

lemma sent_put: "sent_on_wire L (put_socket i s ro out st) = sent_on_wire L st @ concat (map (wire_data L) out)"
  by (simp add: sent_on_wire_def comp_def)

lemma sent_dropped:
  "build_tcp_packet L l r sq ak f None = Ret buf \<Longrightarrow> sent_on_wire L (dropped K i s buf st) = sent_on_wire L st"
  by (simp add: sent_on_wire_def dropped_def dataless)

lemma poll_channel_queue:
  assumes "poll_channel K i s st = (ev, st')"
  shows "queue_of queued st j = (if j = i then packet_in ev @ queue_of queued st' i else queue_of queued st' j)"
  using assms by (auto simp: poll_channel_def queue_of_def dest!: flume_pop split: option.splits if_splits)

lemma poll_when_queue:
  assumes "poll_when w K i s st = (ev, st')"
  shows "queue_of queued st j = (if j = i then packet_in ev @ queue_of queued st' i else queue_of queued st' j)"
  using assms poll_channel_queue [of i s st ev st' j] by (auto simp: poll_when_def split: if_splits)

lemma socket_drop_effect:
  assumes "socket_drop L K i s st = Ret st'"
  shows "shape st' = (shape st)(i := None)" "next_id st' = next_id st" "listening st' = listening st"
    "queue_of queued st' j = (if j = i then [] else queue_of queued st j)" "in_hand st' j = in_hand st j"
    "sent_on_wire L st' = sent_on_wire L st"
  using assms
  by (auto simp: socket_drop_Ret shape_dropped queue_of_dropped in_hand_dropped sent_dropped) (auto simp: dropped_def)

lemma connect_poll_effect:
  assumes "connect_poll L K ck res i s m st = Ret st'"
  defines "ev \<equiv> handshake_input K i s m st"
  shows "(\<exists>m'. shape st' = (shape st)(i \<mapsto> (socket_tuple s, Connecting m'))) \<or> shape st' = (shape st)(i \<mapsto> (socket_tuple s, Owned))
      \<or> shape st' = (shape st)(i := None)" (is ?shape)
    and "next_id st' = next_id st \<and> listening st' = listening st \<and> in_hand st' j = in_hand st j
      \<and> sent_on_wire L st' = sent_on_wire L st" (is ?frame)
    and "queue_of queued st j = (if j = i then packet_in ev @ queue_of queued st' i else queue_of queued st' j)
      \<or> j = i \<and> queue_of queued st' i = [] \<and> (\<exists>rest. queue_of queued st i = packet_in ev @ rest)" (is ?queue)
proof -
  have "?shape \<and> ?frame \<and> ?queue"
  proof (cases "m = RETRIES")
    case True
    with assms(1) have d: "socket_drop L K i s st = Ret st'" by (simp add: connect_poll_def)
    show ?thesis using socket_drop_effect [OF d] True by (simp add: ev_def handshake_input_def)
  next
    case False
    obtain ev' st1 where p: "poll_when (state s = SynSent) K i s st = (ev', st1)" by fastforce
    with False have ev: "ev = ev'" by (simp add: ev_def handshake_input_def)
    note fr = poll_when_frame [OF p] and q = poll_when_queue [OF p]
    from assms(1) False p obtain r s' out where c: "connect_step L ck res ev' s = Ret (r, s', out)"
      and st': "(case r of None \<Rightarrow> Ret (put_socket i s' (Connecting (m + 1)) out st1)
          | Some (Some _) \<Rightarrow> Ret (put_socket i s' Owned out st1)
          | Some None \<Rightarrow> socket_drop L K i s' (put_socket i s' (Connecting m) out st1)) = Ret st'"
      by (auto simp: connect_poll_def obind_eq_Ret_iff)
    have u: "socket_tuple s' = socket_tuple s" using connect_step_ends(1) [OF c] by (simp add: same_ends_def)
    have hand: "in_hand (put_socket i s' ro out st1) j = in_hand st j" for ro
      using fr by (simp add: in_hand_def)
    have sent: "sent_on_wire L (put_socket i s' ro out st1) = sent_on_wire L st" for ro
      using fr connect_step_dataless [OF c] by (simp add: sent_put) (simp add: sent_on_wire_def)
    have sh: "shape st1 = shape st" using fr by (intro shape_sockets) simp
    have qp: "queue_of queued (put_socket i s' ro out st1) e = queue_of queued st1 e" for ro e
      by (simp add: queue_of_def)
    consider (go) "st' = put_socket i s' (Connecting (m + 1)) out st1" | (own) "st' = put_socket i s' Owned out st1"
      | (dropped) "socket_drop L K i s' (put_socket i s' (Connecting m) out st1) = Ret st'"
    proof (cases r)
      case None
      with st' show ?thesis by (intro go) simp
    next
      case (Some v)
      with st' show ?thesis by (cases v) (simp_all add: own dropped)
    qed
    then show ?thesis
    proof cases
      case go
      then show ?thesis using u hand sent sh fr q [of j] qp by (auto simp: shape_put ev)
    next
      case own
      then show ?thesis using u hand sent sh fr q [of j] qp by (auto simp: shape_put ev)
    next
      case dropped
      note d = socket_drop_effect [OF dropped]
      have "?shape" using d(1) sh by (simp add: shape_put)
      moreover have "?frame" using d(2,3,6) d(5) [of j] hand sent fr by simp
      moreover have "?queue" using d(4) [of j] q [of j] qp by (auto simp: ev)
      ultimately show ?thesis by blast
    qed
  qed
  then show ?shape ?frame ?queue by blast+
qed

lemma reader_set_effect:
  assumes "ok st" "readers st r = Some R"
  shows "devices st = [r]"
proof -
  obtain d where "devices st = [d]" "dom (readers st) \<subseteq> {d}" using assms(1) unfolding stack_inv_def by blast
  with assms(2) show ?thesis by auto
qed

lemma quiet_set_reader:
  assumes "ok st" "readers st r = Some R" "\<And>i. subseq (held_for i (pc R')) (held_for i (pc R))"
  shows "quiet L queued st (set_reader r R' st)"
proof -
  note d = reader_set_effect [OF assms(1,2)]
  have "in_hand (set_reader r R' st) i = held_for i (pc R')" "in_hand st i = held_for i (pc R)" for i
    using in_hand_set [OF d] in_hand_one [OF d assms(2)] by simp_all
  with assms(3) show ?thesis
    by (simp add: quiet_def queue_of_def sent_on_wire_def shape_def fun_eq_iff list_emb_append_mono)
qed

lemma quiet_dies: "quiet L queued st (reader_dies r st)"
proof -
  have "subseq (in_hand (reader_dies r st) i) (in_hand st i)" for i
  proof -
    have "subseq (concat (map (\<lambda>q. case ((readers st)(r := None)) q of None \<Rightarrow> [] | Some R \<Rightarrow> held_for i (pc R)) ds))
        (concat (map (\<lambda>q. case readers st q of None \<Rightarrow> [] | Some R \<Rightarrow> held_for i (pc R)) ds))" for ds
      by (induction ds) (auto intro!: list_emb_append_mono)
    then show ?thesis by (simp add: in_hand_def reader_dies_def)
  qed
  then show ?thesis
    by (simp add: quiet_def queue_of_def sent_on_wire_def shape_def fun_eq_iff list_emb_append_mono)
qed

lemma quiet_push:
  assumes "ok st" "readers st r = Some R" "channel_send K c b st = Some (Some st1)" "\<And>i. held_for i (pc R) = (if c = i then [b] else [])"
  shows "quiet L queued st (set_reader r (R\<lparr>pc := reader_pc.Waiting\<rparr>) st1)"
proof -
  note d = reader_set_effect [OF assms(1,2)]
  from assms(3) obtain q q' where q: "channels st c = Some q" "flume_send K b q = Some q'"
    and st1: "st1 = st\<lparr>channels := (channels st)(c \<mapsto> q')\<rparr>"
    by (auto simp: channel_send_def split: option.splits)
  have "queue_of queued (set_reader r (R\<lparr>pc := reader_pc.Waiting\<rparr>) st1) i = queue_of queued st i @ held_for i (pc R)" for i
    using q by (auto simp: assms(4) queue_of_def st1 flume_push [OF q(2)])
  moreover have "in_hand (set_reader r (R\<lparr>pc := reader_pc.Waiting\<rparr>) st1) i = []" for i
    using in_hand_set [of st1 r] d by (simp add: st1)
  moreover have "in_hand st i = held_for i (pc R)" for i by (rule in_hand_one [OF d assms(2)])
  ultimately show ?thesis
    by (simp add: quiet_def sent_on_wire_def shape_def fun_eq_iff st1)
qed

lemma reader_act_quiet:
  assumes inv: "ok st" and R: "readers st r = Some R" and l: "listening st = {}"
    and act: "reader_act L K ck res r R st = Some (Ret st')"
  shows "quiet L queued st st'"
proof (cases "pc R")
  case Waiting
  with act show ?thesis by (simp add: reader_act_def)
next
  case (Cached c b)
  with act consider "st' = set_reader r (R\<lparr>pc := reader_pc.Waiting\<rparr>) st"
    | st1 where "channel_send K c b st = Some (Some st1)" "st' = set_reader r (R\<lparr>pc := reader_pc.Waiting\<rparr>) st1"
    by (auto simp: reader_act_def Let_def split: option.splits)
  then show ?thesis
    by cases (use Cached in \<open>auto intro!: quiet_set_reader [OF inv R] quiet_push [OF inv R, of c b]\<close>)
next
  case (Sending c b)
  with act obtain st1 where "channel_send K c b st = Some (Some st1)" "st' = set_reader r (R\<lparr>pc := reader_pc.Waiting\<rparr>) st1"
    by (auto simp: reader_act_def Let_def split: option.splits)
  with Sending show ?thesis by (auto intro!: quiet_push [OF inv R, of c b])
next
  case (Found u c b)
  with act show ?thesis by (auto simp: reader_act_def Let_def intro!: quiet_set_reader [OF inv R])
next
  case (Missing u t)
  with act obtain st1 where st1: "reader_unknown L K ck res r u t st = Ret st1" "st' = set_reader r (R\<lparr>pc := reader_pc.Waiting\<rparr>) st1"
    by (auto simp: reader_act_def Let_def obind_eq_Ret_iff)
  have idle: "quiet L queued st (set_reader r (R\<lparr>pc := reader_pc.Waiting\<rparr>) st)"
    using Missing by (intro quiet_set_reader [OF inv R]) simp
  from reader_unknown_frame [OF st1(1) l] show ?thesis
  proof (elim disjE exE conjE)
    fix d buf la ra sq ak f
    assume t: "st1 = st\<lparr>trace := trace st @ [(d, buf)]\<rparr>" and b: "build_tcp_packet L la ra sq ak f None = Ret buf"
    have "shape st' = shape (set_reader r (R\<lparr>pc := reader_pc.Waiting\<rparr>) st)" "queue_of queued st' = queue_of queued (set_reader r (R\<lparr>pc := reader_pc.Waiting\<rparr>) st)"
      "in_hand st' = in_hand (set_reader r (R\<lparr>pc := reader_pc.Waiting\<rparr>) st)" "sent_on_wire L st' = sent_on_wire L st"
      using dataless [OF b] by (simp_all add: st1(2) t shape_def queue_of_def in_hand_def sent_on_wire_def fun_eq_iff)
    with idle show ?thesis by (simp add: quiet_def st1(2) t)
  qed (use idle st1(2) in simp)
qed

lemma reader_step_quiet:
  assumes "reader_step L K st st'" "ok st" "listening st = {}"
  shows "quiet L queued st st'"
  using assms
proof (induction rule: reader_step.induct)
  case (reader_purges st r R st')
  then obtain t b where "st' = set_reader r (R\<lparr>cache := (cache R)(t := None), purge := b\<rparr>) st"
    by (auto simp: reader_purge_def split: option.splits)
  with reader_purges show ?case by (auto intro!: quiet_set_reader)
qed (simp_all add: quiet_dies reader_act_quiet)

lemma reader_reads_effect:
  assumes "ok st" "readers st r = Some R" "pc R = reader_pc.Waiting" "reader_recv L (Inr b) r R st = Ret st'"
  shows "shape st' = shape st \<and> next_id st' = next_id st \<and> listening st' = listening st
    \<and> sent_on_wire L st' = sent_on_wire L st \<and> queue_of queued st' i = queue_of queued st i
    \<and> in_hand st i = [] \<and> (in_hand st' i = [] \<or> in_hand st' i = [b])"
proof -
  note d = reader_set_effect [OF assms(1,2)]
  have h: "in_hand st i = []" using in_hand_one [OF d assms(2)] assms(3) by simp
  from reader_recv_frame [OF assms(4)] show ?thesis
    by (elim disjE exE conjE) (use h in_hand_set [OF d, of _ i] in
      \<open>auto simp: shape_def sent_on_wire_def queue_of_def fun_eq_iff\<close>)
qed

end
section \<open>What the forwarder's steps record\<close>

fun sent_of :: "fw_event \<Rightarrow> (nat \<times> bytes) list" where
  "sent_of (Tcp_send c d) = (if d = [] then [] else [(c, d)])"
| "sent_of _ = []"

fun recv_of :: "nat \<Rightarrow> fw_event \<Rightarrow> bytes list" where
  "recv_of c (Tcp_recv e d) = (if e = c then [d] else [])"
| "recv_of c _ = []"

definition sends :: "Fwd \<Rightarrow> (nat \<times> bytes) list" where
  "sends f = concat (map sent_of (events f))"

definition recvs :: "nat \<Rightarrow> Fwd \<Rightarrow> bytes list" where
  "recvs c f = concat (map (recv_of c) (events f))"

definition alives :: "Fwd \<Rightarrow> bool list" where
  "alives f = map alive (conns f)"

lemma sends_emit [simp]: "sends (emit e f) = sends f @ sent_of e"
  and recvs_emit [simp]: "recvs c (emit e f) = recvs c f @ recv_of c e"
  and alives_emit [simp]: "alives (emit e f) = alives f"
  by (simp_all add: sends_def recvs_def alives_def)

lemma records_frame:
  "events f' = events f \<Longrightarrow> sends f' = sends f \<and> recvs c f' = recvs c f"
  by (simp add: sends_def recvs_def)

lemma alives_set: "alive C = alive (conns f ! c) \<Longrightarrow> alives (set_conn c C f) = alives f"
  by (cases "c < length (conns f)")
    (auto simp: alives_def set_conn_def map_update list_update_same_conv list_update_beyond)

lemma alives_simps [simp]:
  "alives (cancel c f) = alives f" "alives (notify c f) = alives f" "alives (set_worker c w p f) = alives f"
  "alives (stop_timer c f) = alives f" "alives (timer_resets c f) = alives f" "alives (remove_entry x f) = alives f"
  "alives (f\<lparr>main := m\<rparr>) = alives f" "alives (f\<lparr>table := t\<rparr>) = alives f"
  by (simp_all add: cancel_def notify_def set_worker_def stop_timer_def timer_resets_def Let_def alives_set)
    (simp_all add: alives_def remove_entry_def)

lemma record_simps [simp]:
  "sends (f\<lparr>main := m\<rparr>) = sends f" "sends (f\<lparr>table := t\<rparr>) = sends f" "sends (set_conn c C f) = sends f"
  "recvs e (f\<lparr>main := m\<rparr>) = recvs e f" "recvs e (f\<lparr>table := t\<rparr>) = recvs e f" "recvs e (set_conn c C f) = recvs e f"
  by (simp_all add: sends_def recvs_def)

lemma record_task_simps [simp]:
  "sends (cancel c f) = sends f" "sends (notify c f) = sends f" "sends (set_worker c w p f) = sends f"
  "sends (stop_timer c f) = sends f" "sends (timer_resets c f) = sends f" "sends (remove_entry x f) = sends f"
  "recvs e (cancel c f) = recvs e f" "recvs e (notify c f) = recvs e f" "recvs e (set_worker c w p f) = recvs e f"
  "recvs e (stop_timer c f) = recvs e f" "recvs e (timer_resets c f) = recvs e f" "recvs e (remove_entry x f) = recvs e f"
  by (simp_all add: sends_def recvs_def)

lemma timer_step_records:
  "timer_step c b f f' \<Longrightarrow> sends f' = sends f \<and> recvs e f' = recvs e f \<and> alives f' = alives f \<and> main f' = main f"
  by (induction rule: timer_step.induct) (simp_all add: timer_expires_def timer_quits_def Let_def split: option.splits)

lemma task_step_records:
  "task_step f f' \<Longrightarrow> sends f' = sends f \<and> recvs e f' = recvs e f \<and> alives f' = alives f
     \<and> (main f = Dialing x d \<longrightarrow> main f' = main f)"
proof (induction rule: task_step.induct)
  case (task_udp f recv_from bound)
  then show ?case by (auto simp: udp_received_def Let_def split: sum.splits option.splits prod.splits)
next
  case (task_deliver c w f d' sent)
  then show ?case by (cases sent) (simp_all add: worker_sent_def Let_def)
next
  case (task_timer c b f f')
  then show ?case using timer_step_records by simp
qed (simp_all add: take_all_connections_def cancel_next_def)

lemma sent_existing_records:
  "sends (sent_existing c d f) = sends f @ sent_of (Tcp_send c d) \<and> recvs e (sent_existing c d f) = recvs e f
     \<and> alives (sent_existing c d f) = alives f \<and> main (sent_existing c d f) = Listening"
  by (simp add: sent_existing_def)

lemma greeted_records:
  assumes "greeted n v x c d f = Ret f'"
  shows "sends f' = sends f @ sent_of (Tcp_send c d) \<and> recvs e f' = recvs e f \<and> alives f' = alives f \<and> main f' = Listening"
proof -
  let ?f = "(emit (Tcp_send c d) f)\<lparr>main := Listening\<rparr>"
  from assms consider "f' = ?f"
    | "f' = set_conn c (spawn_connection_timeout (spawn_connection_workers (max n 1) (conns f ! c))) (?f\<lparr>table := (table f)(x \<mapsto> c)\<rparr>)"
    by (auto simp: greeted_def Let_def emit_def split: option.splits if_splits)
  then show ?thesis
    by cases (simp_all add: alives_set spawn_connection_timeout_def spawn_connection_workers_def)
qed

lemma worker_recv_records:
  "sends (worker_recv r c w f) = sends f \<and> recvs e (worker_recv r c w f) = recvs e f @ (case r of None \<Rightarrow> [] | Some d \<Rightarrow> recv_of e (Tcp_recv c d))
     \<and> alives (worker_recv r c w f) = alives f \<and> main (worker_recv r c w f) = main f"
  by (cases r) (simp_all add: worker_recv_def Let_def)

lemma drop_connection_records:
  "sends (drop_connection c f) = sends f \<and> recvs e (drop_connection c f) = recvs e f \<and> main (drop_connection c f) = main f
     \<and> alives (drop_connection c f) = (alives f)[c := False]"
  by (simp add: drop_connection_def) (simp add: alives_def set_conn_def map_update)

lemma dialed_records:
  "sends (dialed b x d f) = sends f \<and> recvs e (dialed b x d f) = recvs e f
     \<and> alives (dialed b x d f) = alives f @ (if b then [True] else [])"
  by (simp add: dialed_def sends_def recvs_def alives_def fresh_connection_def)

section \<open>Opening a socket\<close>

lemma connect_ports_id: "connect_ports K draw addr ps st = Ret (Some (i, st')) \<Longrightarrow> i = next_id st"
proof (induction ps)
  case (Cons p ps)
  then obtain l where "connect_local addr p st = Ret l" by (auto simp: obind_eq_Ret_iff)
  with Cons show ?case by (auto simp: Let_def split: if_splits option.splits)
qed simp

lemma connect_local_unscoped: "connect_local addr p st = Ret l \<Longrightarrow> strip_scope l = l"
  by (auto simp: connect_local_def strip_scope_def split: if_splits option.splits)

lemma connect_open_effect:
  assumes "connect_open K start draw remote st = Ret (Some (i, st'))"
  shows "i = next_id st \<and> (\<exists>d u. client_end remote u \<and> st' = register K d u None (Connecting 0) st)"
proof -
  note c = assms [unfolded connect_open_def]
  from connect_ports_opened [OF c] obtain p l d where
    "connect_local remote p st = Ret l" "st' = register K d (AddrTuple l remote) None (Connecting 0) st" by blast
  moreover from this(1) have "client_end remote (AddrTuple l remote)"
    by (simp add: client_end_def connect_local_unscoped)
  ultimately show ?thesis using connect_ports_id [OF c] by blast
qed

context stack_laws
begin

lemma beyond_next:
  assumes "ok st" and i: "next_id st \<le> i"
  shows "sockets st i = None" "channels st i = None" "queue_of queued st i = []" "in_hand st i = []"
proof -
  note tab = stack_invD(1) [OF assms(1)]
  have "\<forall>c\<in>dom (sockets st). c < next_id st" using tab unfolding table_ok_def by blast
  with i show s: "sockets st i = None" by (meson domIff leD)
  then show c: "channels st i = None" using tab unfolding table_ok_def by blast
  then show "queue_of queued st i = []" by (simp add: queue_of_def)
  have "held_for i (pc R) = []" if "readers st r = Some R" for r R
    using stack_invD(6) [OF assms(1) that] assms(2)
    by (cases "pc R") (auto simp: reader_ok_def target_ok_def sender_ok_def)
  then show "in_hand st i = []" by (auto simp: in_hand_def split: option.splits)
qed

lemma register_effect:
  assumes "ok st" "st' = register K d u a ro st"
  shows "shape st' = (shape st)(next_id st \<mapsto> (u, ro))" "next_id st' = next_id st + 1" "listening st' = listening st"
    "sent_on_wire L st' = sent_on_wire L st" "queue_of queued st' i = queue_of queued st i" "in_hand st' i = in_hand st i"
proof -
  show "shape st' = (shape st)(next_id st \<mapsto> (u, ro))"
    unfolding assms(2) by (cases u) (auto simp: register_def Let_def shape_def fun_eq_iff socket_tuple_def socket_new_def)
  show "next_id st' = next_id st + 1" "listening st' = listening st"
    unfolding assms(2) by (simp_all add: register_def Let_def)
  show "sent_on_wire L st' = sent_on_wire L st" "in_hand st' i = in_hand st i"
    unfolding assms(2) by (simp_all add: register_def Let_def sent_on_wire_def in_hand_def)
  show "queue_of queued st' i = queue_of queued st i"
    using beyond_next(2) [OF assms(1), of i] unfolding assms(2)
    by (auto simp: register_def Let_def queue_of_def flume_new)
qed

end

end
