(* ===== verification/Session_Invariant.thy ===== *)
theory Session_Invariant
  imports Session
begin

text \<open>
  The invariant of the running client: the forwarder's connections are tied to the sockets of the
  stack, what the sockets took to the packets of the device, and the forwarder's records to the packets
  on the wire. Every step keeps it, and it excludes the panics of the operations the forwarder calls.
\<close>

section \<open>The invariant of a session\<close>

definition session_link :: "ForwarderConfig \<Rightarrow> ('c, 'm, 'b) Session \<Rightarrow> bool" where
  "session_link F S \<longleftrightarrow>
     link_ok (fw_remote_addr F) (shape (stk S)) (next_id (stk S)) (alives (fwd S)) (link S) (dialing S)
     \<and> dial_ok (dialing S) (main (fwd S)) \<and> listening (stk S) = {}"

text \<open>
  For every socket, the packets it took, those in its channel and the one the reader holds for it
  came from the device in this order, and are addressed to it.
\<close>

definition session_fifo ::
  "packet_lib \<Rightarrow> ('c \<Rightarrow> bytes list) \<Rightarrow> ('c, 'm, 'b) Session \<Rightarrow> bool" where
  "session_fifo L queued S \<longleftrightarrow>
     (\<forall>b\<in>set (net_in S). length b \<le> MAX_PACKET_LEN)
     \<and> (\<forall>i\<ge>next_id (stk S). taken S i = [])
     \<and> (\<forall>i. subseq (taken S i @ queue_of queued (stk S) i @ in_hand (stk S) i) (net_in S))
     \<and> (\<forall>i u ro. shape (stk S) i = Some (u, ro) \<longrightarrow> list_all (packet_for L u) (taken S i))
     \<and> (\<forall>(i, u)\<in>set (link S). list_all (packet_for L u) (taken S i))"

definition payload_is :: "packet_lib \<Rightarrow> bytes \<Rightarrow> bytes \<Rightarrow> bool" where
  "payload_is L b d \<longleftrightarrow> (\<exists>Sg. carries L b Sg \<and> seg_data Sg = d)"

text \<open>What the workers of a connection received are payloads of packets its socket took, in order.\<close>

definition session_recvs :: "packet_lib \<Rightarrow> ('c, 'm, 'b) Session \<Rightarrow> bool" where
  "session_recvs L S \<longleftrightarrow>
     (\<forall>c<length (link S). \<exists>bs. subseq bs (taken S (conn_socket S c)) \<and> list_all2 (payload_is L) bs (recvs c (fwd S)))"

definition local_of :: "('c, 'm, 'b) Session \<Rightarrow> nat \<Rightarrow> socket_addr" where
  "local_of S c = tuple_local (snd (link S ! c))"

definition session_wire :: "packet_lib \<Rightarrow> ('c, 'm, 'b) Session \<Rightarrow> bool" where
  "session_wire L S \<longleftrightarrow>
     (\<forall>(c, d)\<in>set (sends (fwd S)). c < length (link S))
     \<and> sent_on_wire L (stk S) = map (\<lambda>(c, d). (local_of S c, d)) (sends (fwd S))"

lemma session_link_alive:
  assumes "session_link F S" "c < length (conns (fwd S))" "alive (conns (fwd S) ! c)"
  shows "\<exists>s. owns S c s \<and> socket_tuple s = snd (link S ! c)"
proof -
  have "shape (stk S) (fst (link S ! c)) = Some (snd (link S ! c), Owned)"
    using assms by (simp add: session_link_def link_ok_def alives_def)
  then show ?thesis by (simp add: shape_Some owns_def conn_socket_def)
qed

lemma session_link_owns:
  "session_link F S \<Longrightarrow> fw_inv (fwd S) \<Longrightarrow> c < length (conns (fwd S)) \<Longrightarrow> referenced c (fwd S)
    \<Longrightarrow> \<exists>s. owns S c s \<and> socket_tuple s = snd (link S ! c)"
  by (rule session_link_alive) (auto intro: referenced_alive)

lemma owns_shape: "owns S c s \<Longrightarrow> shape (stk S) (conn_socket S c) = Some (socket_tuple s, Owned)"
  by (simp add: owns_def shape_Some)

lemma owns_put_shape:
  "owns S c s \<Longrightarrow> same_ends s s' \<Longrightarrow> sockets st1 = sockets (stk S)
    \<Longrightarrow> shape (put_socket (conn_socket S c) s' Owned out st1) = shape (stk S)"
  using owns_shape [of S c s] by (auto simp: same_ends_def shape_def fun_eq_iff)

lemma owns_linked:
  assumes "session_link F S" "owns S c s" "c < length (link S)"
  shows "socket_tuple s = snd (link S ! c) \<and> conn_socket S c < next_id (stk S) \<and> dialing S \<noteq> Some (conn_socket S c)"
  using assms owns_shape [OF assms(2)] by (auto simp: session_link_def link_ok_def conn_socket_def split: if_splits)

context stack_laws
begin

lemma session_link_polled:
  assumes "main (fwd S) = Dialing x d" "dialing S = Some i" "sockets (stk S) i = Some (s, Connecting m)"
    "connect_poll L K False res i s m (stk S) = Ret st'"
    and "session_link F S"
  shows "session_link F (handshake_result i x d st' (take_packet i (handshake_input K i s m (stk S)) S))"
proof -
  have sh: "shape (stk S) i = Some (socket_tuple s, Connecting m)" using assms(3) by (simp add: shape_def)
  have lk: "link_ok (fw_remote_addr F) (shape (stk S)) (next_id (stk S)) (alives (fwd S)) (link S) (Some i)"
    using assms(2,5) by (simp add: session_link_def)
  note e = connect_poll_effect [OF assms(4)]
  have fr: "next_id st' = next_id (stk S)" "listening st' = {}" using e(2) assms(5) by (simp_all add: session_link_def)
  from e(1) consider (go) m' where "shape st' = (shape (stk S))(i \<mapsto> (socket_tuple s, Connecting m'))"
    | (own) "shape st' = (shape (stk S))(i \<mapsto> (socket_tuple s, Owned))" | (gone) "shape st' = (shape (stk S))(i := None)" by blast
  then show ?thesis
  proof cases
    case go
    then obtain s' where "sockets st' i = Some (s', Connecting m')" using shape_Some [of st' i] by auto
    with go link_ok_poll [OF lk sh, of m'] fr assms(1,2) show ?thesis
      by (simp add: handshake_result_def take_packet_in session_link_def dial_ok_def)
  next
    case own
    then obtain s' where "sockets st' i = Some (s', Owned)" "socket_tuple s' = socket_tuple s" using shape_Some [of st' i] by auto
    with own link_ok_connected [OF lk sh] fr dialed_records [of True x d "fwd S"] show ?thesis
      by (simp add: handshake_result_def take_packet_in session_link_def dial_ok_def)
  next
    case gone
    then have "sockets st' i = None" using shape_None [of st' i] by simp
    with gone link_ok_fail [OF lk] fr dialed_records [of False x d "fwd S"] show ?thesis
      by (simp add: handshake_result_def take_packet_in session_link_def dial_ok_def)
  qed
qed

lemma forward_link_step:
  assumes "forward_step L K F S S'" "session_link F S" "ok (stk S)" "fw_inv (fwd S)"
  shows "session_link F S'"
  using assms
proof (induction rule: forward_step.induct)
  case (fwd_task S f')
  then show ?case
    using task_step_records [OF fwd_task(1)] by (auto simp: session_link_def dial_ok_def)
next
  case (dial_opens S x d start draw i st')
  from connect_open_effect [OF dial_opens(5)] obtain dv u where
    i: "i = next_id (stk S)" and u: "client_end (fw_remote_addr F) u" and st': "st' = register K dv u None (Connecting 0) (stk S)" by blast
  have "link_ok (fw_remote_addr F) ((shape (stk S))(i \<mapsto> (u, Connecting 0))) (i + 1) (alives (fwd S)) (link S) (Some i)"
    unfolding i using dial_opens(2,6) beyond_next(1) [OF dial_opens(7)]
    by (intro link_ok_open [OF _ u]) (simp_all add: session_link_def)
  with register_effect [OF dial_opens(7) st'] dial_opens i show ?case
    by (simp add: session_link_def dial_ok_def)
next
  case (dial_exhausts S x d start draw)
  then show ?case using dialed_records [of False x d "fwd S"] by (simp add: session_link_def dial_ok_def)
next
  case (dial_aborts S x d start draw p)
  then show ?case by (simp add: session_link_def dial_ok_def sends_def recvs_def alives_def)
next
  case (dial_polls S x d i s m res st')
  show ?case by (rule session_link_polled [OF dial_polls(1-5)])
next
  case (sends_existing S x c d s res v s' buf)
  have "dialing S = None" using sends_existing by (auto simp: session_link_def dial_ok_def)
  with owns_put_shape [OF sends_existing(2), of s' "stk S" "[buf]"] socket_send_ends [OF sends_existing(3)] sends_existing
    sent_existing_records [of c d "fwd S"] show ?case by (simp add: session_link_def dial_ok_def)
next
  case (sends_first S x c d s res v s' buf f')
  have "dialing S = None" using sends_first by (auto simp: session_link_def dial_ok_def)
  with owns_put_shape [OF sends_first(2), of s' "stk S" "[buf]"] socket_send_ends [OF sends_first(3)] sends_first
    greeted_records [OF sends_first(4)] show ?case by (simp add: session_link_def dial_ok_def)
next
  case (worker_recvs c w S s ev st1 buf v s' buf' out)
  note fr = poll_channel_frame [OF worker_recvs(3)]
  with owns_put_shape [OF worker_recvs(2), of s' st1 out] socket_recv_ends [OF worker_recvs(6)] worker_recvs
    worker_recv_records [of "map_option (\<lambda>k. take k buf') v" c w "fwd S"] show ?case
    by (simp add: session_link_def take_packet_in)
next
  case (drops_conn c S s st')
  have c: "c < length (link S)" using drops_conn(1,6) by (simp add: session_link_def link_ok_def alives_def)
  note e = socket_drop_effect [OF drops_conn(5)]
  from link_ok_drop [OF _ c] drops_conn e(1,2,3) drop_connection_records [of c "fwd S"] show ?case
    by (simp add: session_link_def conn_socket_def)
qed

lemma session_link_step:
  assumes "session_step L K F S S'" "session_link F S" "ok (stk S)" "fw_inv (fwd S)"
  shows "session_link F S'"
  using assms
proof (induction rule: session_step.induct)
  case (net_reads S r R b st')
  from reader_reads_effect [OF net_reads(6,1,2,4), of undefined] net_reads(5) show ?case
    by (simp add: session_link_def)
next
  case (net_reader S st')
  then have "listening (stk S) = {}" by (simp add: session_link_def)
  from reader_step_quiet [OF net_reader(1,3) this] net_reader(2) show ?case
    by (simp add: session_link_def quiet_def)
next
  case (forwards S S')
  then show ?case by (rule forward_link_step)
qed

end

lemma subseq_set: "subseq xs ys \<Longrightarrow> set xs \<subseteq> set ys"
  by (auto dest: list_emb_set)

lemma subseq_middle:
  assumes "subseq (a @ q @ h) n" "q = p @ q' \<or> q' = [] \<and> (\<exists>r. q = p @ r)"
  shows "subseq ((a @ p) @ q' @ h) n"
  using assms(2)
proof (elim disjE conjE exE)
  fix r assume "q' = []" "q = p @ r"
  moreover have "subseq ((a @ p) @ h) ((a @ p) @ (r @ h))"
    by (rule list_emb_append_mono) (simp_all add: list_emb_append2)
  ultimately show ?thesis using assms(1) by (auto intro: subseq_order.trans)
qed (use assms(1) in simp)

lemma session_fifo_sub: "session_fifo L queued S \<Longrightarrow> subseq (taken S i @ queue_of queued (stk S) i @ in_hand (stk S) i) (net_in S)"
  by (simp add: session_fifo_def)

lemma packets_taken:
  "queues_ok L queued st \<Longrightarrow> shape st i = Some (u, ro) \<Longrightarrow> queue_of queued st i = p @ r \<Longrightarrow> list_all (packet_for L u) p"
  by (cases "channels st i") (auto simp: queue_of_def shape_Some dest: queues_okD)

lemma session_fifo_taken:
  assumes "session_fifo L queued S" "list_all (packet_for L u) p"
    and "\<forall>v ro. shape (stk S) i = Some (v, ro) \<longrightarrow> v = u" "\<forall>v. (i, v) \<in> set (link S) \<longrightarrow> v = u"
  shows "shape (stk S) j = Some (v, ro) \<Longrightarrow> list_all (packet_for L v) (((taken S)(i := taken S i @ p)) j)"
    and "(j, v) \<in> set (link S) \<Longrightarrow> list_all (packet_for L v) (((taken S)(i := taken S i @ p)) j)"
  using assms by (auto simp: session_fifo_def)

lemma socket_recv_payload:
  assumes "socket_recv L (Some b) buf s = Ret (Some k, s', buf', out)"
  shows "payload_is L b (take k buf')"
proof -
  have e: "state s = Established" using assms by (cases "state s") (simp_all add: socket_recv_def)
  from assms e obtain ip t where p: "parse_unwrap L b = Ret (ip, t)" by (auto simp: socket_recv_def obind_eq_Ret_iff)
  from assms e p have "k = length (tcp_payload (tcp L) t)" "buf' = write_at 0 (tcp_payload (tcp L) t) buf"
    by (auto simp: socket_recv_def Let_def obind_eq_Ret_iff split: if_splits)
  then have "take k buf' = seg_data (segment_of L ip t)" by (simp add: write_at_def segment_of_def)
  with parse_unwrap_carries [OF p] show ?thesis unfolding payload_is_def by metis
qed

lemma recvs_new: "traffic_ok f \<Longrightarrow> length (conns f) \<le> c \<Longrightarrow> recvs c f = []"
proof -
  assume t: "traffic_ok f" and c: "length (conns f) \<le> c"
  have "recv_of c e = []" if "e \<in> set (events f)" for e
    using t c that by (cases e) (auto simp: traffic_def)
  then show ?thesis by (simp add: recvs_def)
qed

lemma sends_bound: "traffic_ok f \<Longrightarrow> (c, d) \<in> set (sends f) \<Longrightarrow> c < length (conns f)"
proof -
  assume t: "traffic_ok f" and "(c, d) \<in> set (sends f)"
  then obtain e where "e \<in> set (events f)" "(c, d) \<in> set (sent_of e)" by (auto simp: sends_def)
  with t show ?thesis by (cases e) (auto simp: traffic_def split: if_splits)
qed

lemma fifo_other:
  "session_fifo L queued (S\<lparr>stk := st, fwd := f, dialing := dl\<rparr>) \<longleftrightarrow> session_fifo L queued (S\<lparr>stk := st\<rparr>)"
  "session_fifo L queued (S\<lparr>stk := st, fwd := f, dialing := dl, link := link S @ [(i, u)]\<rparr>)
     \<longleftrightarrow> session_fifo L queued (S\<lparr>stk := st\<rparr>) \<and> list_all (packet_for L u) (taken S i)"
  by (auto simp: session_fifo_def)

text \<open>Taking the next packet of one socket's channel.\<close>

lemma session_fifo_take:
  assumes fifo: "session_fifo L queued S" and i: "i < next_id (stk S)"
    and new: "list_all (packet_for L u) (packet_in ev)"
    and one: "\<forall>v ro. shape (stk S) i = Some (v, ro) \<longrightarrow> v = u" and two: "\<forall>v. (i, v) \<in> set (link S) \<longrightarrow> v = u"
    and nxt: "next_id st' = next_id (stk S)" and hand: "\<And>j. in_hand st' j = in_hand (stk S) j"
    and que: "\<And>j. j \<noteq> i \<Longrightarrow> queue_of queued st' j = queue_of queued (stk S) j"
    and quei: "queue_of queued (stk S) i = packet_in ev @ queue_of queued st' i
      \<or> queue_of queued st' i = [] \<and> (\<exists>r. queue_of queued (stk S) i = packet_in ev @ r)"
    and sh: "\<And>j v ro. shape st' j = Some (v, ro) \<Longrightarrow> \<exists>ro'. shape (stk S) j = Some (v, ro')"
  shows "session_fifo L queued ((take_packet i ev S)\<lparr>stk := st'\<rparr>)"
proof -
  let ?t = "(taken S)(i := taken S i @ packet_in ev)"
  note tk = session_fifo_taken [OF fifo new one two]
  have "subseq (?t j @ queue_of queued st' j @ in_hand st' j) (net_in S)" for j
    using session_fifo_sub [OF fifo, of j] que [of j] hand [of j] subseq_middle [OF _ quei]
    by (cases "j = i") (auto simp: hand)
  moreover have "list_all (packet_for L v) (?t j)" if "shape st' j = Some (v, ro)" for j v ro
    using sh [OF that] tk(1) by blast
  moreover have "\<forall>j\<ge>next_id st'. ?t j = []" "\<forall>b\<in>set (net_in S). length b \<le> MAX_PACKET_LEN"
    using fifo nxt i by (auto simp: session_fifo_def)
  ultimately show ?thesis using tk(2) by (auto simp: session_fifo_def take_packet_in)
qed

lemma link_unique:
  assumes "session_link F S" "c < length (link S)" "(conn_socket S c, u) \<in> set (link S)"
  shows "u = snd (link S ! c)"
proof -
  from assms(3) obtain e where e: "e < length (link S)" "link S ! e = (conn_socket S c, u)" by (auto simp: in_set_conv_nth)
  with assms(1,2) have "e = c"
    using nth_eq_iff_index_eq [of "map fst (link S)" e c] by (simp add: session_link_def link_ok_def conn_socket_def)
  with e show ?thesis by simp
qed

context stack_laws
begin

lemma session_fifo_polled:
  assumes "main (fwd S) = Dialing x d" "dialing S = Some i" "sockets (stk S) i = Some (s, Connecting m)"
    "connect_poll L K False res i s m (stk S) = Ret st'"
    and "session_fifo L queued S" "session_link F S" "ok (stk S)"
  shows "session_fifo L queued (handshake_result i x d st' (take_packet i (handshake_input K i s m (stk S)) S))"
proof -
  let ?ev = "handshake_input K i s m (stk S)"
  have sh: "shape (stk S) i = Some (socket_tuple s, Connecting m)" using assms(3) by (simp add: shape_def)
  note e = connect_poll_effect [OF assms(4)]
  have i: "i < next_id (stk S)" "i \<notin> fst ` set (link S)"
    using assms(2,6) by (fastforce simp: session_link_def link_ok_def in_set_conv_nth)+
  have two: "\<forall>v. (i, v) \<notin> set (link S)" using i(2) by force
  have "\<exists>r. queue_of queued (stk S) i = packet_in ?ev @ r" using e(3) [of i] by auto
  then have new: "list_all (packet_for L (socket_tuple s)) (packet_in ?ev)"
    using packets_taken [OF stack_invD(4) [OF assms(7)] sh] by blast
  have "\<exists>ro'. shape (stk S) j = Some (v, ro')" if "shape st' j = Some (v, ro)" for j v ro
    using that e(1) sh by (auto split: if_splits)
  moreover have "queue_of queued (stk S) i = packet_in ?ev @ queue_of queued st' i
      \<or> queue_of queued st' i = [] \<and> (\<exists>r. queue_of queued (stk S) i = packet_in ?ev @ r)" using e(3) [of i] by auto
  moreover have "queue_of queued st' j = queue_of queued (stk S) j" if "j \<noteq> i" for j using e(3) [of j] that by auto
  ultimately have base: "session_fifo L queued ((take_packet i ?ev S)\<lparr>stk := st'\<rparr>)"
    using sh two e(2) by (intro session_fifo_take [OF assms(5) i(1) new]) auto
  then have "list_all (packet_for L (socket_tuple s')) (taken (take_packet i ?ev S) i)" if "sockets st' i = Some (s', ro)" for s' ro
    using that shape_Some [of st' i "socket_tuple s'" ro] by (auto simp: session_fifo_def)
  with base show ?thesis
    unfolding handshake_result_def by (auto simp: fifo_other split: option.splits)
qed

lemma session_fifo_received:
  assumes "worker_at c w (fwd S) Waiting" "owns S c s" "poll_channel K (conn_socket S c) s (stk S) = (ev, st1)" "ev \<noteq> Timeout"
    "length buf = MAX_PACKET_LEN" "socket_recv L (received ev) buf s = Ret (v, s', buf', out)"
    and "session_fifo L queued S" "session_link F S" "ok (stk S)"
  shows "session_fifo L queued ((take_packet (conn_socket S c) ev S)
      \<lparr>stk := put_socket (conn_socket S c) s' Owned out st1,
       fwd := worker_recv (map_option (\<lambda>k. take k buf') v) c w (fwd S)\<rparr>)"
proof -
  let ?i = "conn_socket S c"
  let ?st = "put_socket ?i s' Owned out st1"
  note fr = poll_channel_frame [OF assms(3)] and q = poll_channel_queue [OF assms(3)]
  have c: "c < length (link S)" using assms(1,8) by (auto simp: worker_at_def session_link_def link_ok_def alives_def)
  note ol = owns_linked [OF assms(8,2) c]
  have new: "list_all (packet_for L (socket_tuple s)) (packet_in ev)"
    using packets_taken [OF stack_invD(4) [OF assms(9)] owns_shape [OF assms(2)]] q [of ?i] by simp
  have shp: "shape ?st = shape (stk S)"
    using owns_put_shape [OF assms(2), of s' st1 out] socket_recv_ends [OF assms(6)] fr by simp
  have "queue_of queued ?st j = queue_of queued st1 j" "in_hand ?st j = in_hand (stk S) j" "next_id ?st = next_id (stk S)" for j
    using fr by (simp_all add: queue_of_def in_hand_def)
  then have "session_fifo L queued ((take_packet ?i ev S)\<lparr>stk := ?st\<rparr>)"
    using owns_shape [OF assms(2)] ol q shp link_unique [OF assms(8) c]
    by (intro session_fifo_take [OF assms(7) _ new]) auto
  then show ?thesis by (simp add: session_fifo_def)
qed

lemma forward_fifo_step:
  assumes "forward_step L K F S S'" "session_fifo L queued S" "session_link F S" "ok (stk S)" "fw_inv (fwd S)"
  shows "session_fifo L queued S'"
  using assms
proof (induction rule: forward_step.induct)
  case (dial_opens S x d start draw i st')
  from connect_open_effect [OF dial_opens(5)] obtain dv u where
    i: "i = next_id (stk S)" and st': "st' = register K dv u None (Connecting 0) (stk S)" by blast
  from register_effect [OF dial_opens(8) st'] dial_opens(6) i show ?case
    by (auto simp: session_fifo_def split: if_splits)
next
  case (dial_polls S x d i s m res st')
  show ?case by (rule session_fifo_polled [OF dial_polls(1-7)])
next
  case (sends_existing S x c d s res v s' buf)
  with owns_put_shape [OF sends_existing(2), of s' "stk S" "[buf]"] socket_send_ends [OF sends_existing(3)] show ?case
    by (simp add: session_fifo_def queue_of_def in_hand_def)
next
  case (sends_first S x c d s res v s' buf f')
  with owns_put_shape [OF sends_first(2), of s' "stk S" "[buf]"] socket_send_ends [OF sends_first(3)] show ?case
    by (simp add: session_fifo_def queue_of_def in_hand_def)
next
  case (worker_recvs c w S s ev st1 buf v s' buf' out)
  show ?case by (rule session_fifo_received [OF worker_recvs(1-9)])
next
  case (drops_conn c S s st')
  note e = socket_drop_effect [OF drops_conn(5)]
  have "subseq (taken S j @ queue_of queued st' j @ in_hand st' j) (net_in S)" for j
  proof -
    have "subseq (queue_of queued st' j) (queue_of queued (stk S) j)" using e(4) [of j] by simp
    then have "subseq (taken S j @ queue_of queued st' j @ in_hand st' j) (taken S j @ queue_of queued (stk S) j @ in_hand (stk S) j)"
      using e(5) [of j] by (intro list_emb_append_mono) simp_all
    with drops_conn(6) show ?thesis unfolding session_fifo_def by (blast intro: subseq_order.trans)
  qed
  with drops_conn(6) e(1,2) show ?case by (auto simp: session_fifo_def split: if_splits)
qed (simp_all add: session_fifo_def)

lemma session_fifo_step:
  assumes "session_step L K F S S'" "session_fifo L queued S" "session_link F S" "ok (stk S)" "fw_inv (fwd S)"
  shows "session_fifo L queued S'"
  using assms
proof (induction rule: session_step.induct)
  case (net_reads S r R b st')
  note e = reader_reads_effect [OF net_reads(7,1,2,4)]
  have "subseq (taken S i @ queue_of queued st' i @ in_hand st' i) (net_in S @ [b])" for i
  proof -
    have "subseq (taken S i @ queue_of queued st' i) (net_in S)"
      using net_reads(5) e [of i] unfolding session_fifo_def by (metis append_Nil2)
    then have "subseq ((taken S i @ queue_of queued st' i) @ in_hand st' i) (net_in S @ [b])"
      using e [of i] by (intro list_emb_append_mono) auto
    then show ?thesis by simp
  qed
  with net_reads(3,5) e show ?case by (auto simp: session_fifo_def)
next
  case (net_reader S st')
  then have "listening (stk S) = {}" by (simp add: session_link_def)
  note q = reader_step_quiet [OF net_reader(1,4) this]
  have "subseq (taken S i @ queue_of queued st' i @ in_hand st' i) (net_in S)" for i
    using net_reader(2) q unfolding session_fifo_def quiet_def
    by (meson list_emb_append_mono subseq_order.refl subseq_order.trans)
  with net_reader(2) q show ?case by (auto simp: session_fifo_def quiet_def)
next
  case (forwards S S')
  then show ?case by (rule forward_fifo_step)
qed

end

lemma conn_of_append: "c < length (link S) \<Longrightarrow> (link S @ [z]) ! c = link S ! c"
  by (simp add: nth_append)

text \<open>The workers' record only grows together with what the socket took.\<close>

lemma session_recvs_mono:
  assumes "session_recvs L S" "\<And>c. c < length (link S) \<Longrightarrow> recvs c f' = recvs c (fwd S)"
    and "\<And>i. subseq (taken S i) (tk i)" "link S' = link S" "taken S' = tk" "fwd S' = f'"
  shows "session_recvs L S'"
proof -
  have "\<exists>bs. subseq bs (taken S' (conn_socket S' c)) \<and> list_all2 (payload_is L) bs (recvs c (fwd S'))" if c: "c < length (link S)" for c
  proof -
    from assms(1) c obtain bs where "subseq bs (taken S (conn_socket S c))" "list_all2 (payload_is L) bs (recvs c (fwd S))"
      unfolding session_recvs_def by blast
    with assms(2) [OF c] assms(3) [of "conn_socket S c"] assms(4-6) show ?thesis
      by (auto simp: conn_socket_def intro: subseq_order.trans)
  qed
  then show ?thesis using assms(4) by (simp add: session_recvs_def)
qed

lemma session_recvs_linked:
  assumes "session_recvs L S" "link S' = link S @ [z]" "taken S' = taken S" "recvs (length (link S)) (fwd S') = []"
    "\<And>c. recvs c (fwd S') = recvs c (fwd S)"
  shows "session_recvs L S'"
  using assms by (auto simp: session_recvs_def conn_socket_def less_Suc_eq nth_append)

lemma subseq_extend [simp]: "subseq a (a @ p)"
  by (simp add: list_emb_prefix)

lemma session_recvs_polled:
  assumes "main (fwd S) = Dialing x d" "dialing S = Some i" "sockets (stk S) i = Some (s, Connecting m)"
    "connect_poll L K False res i s m (stk S) = Ret st'"
    and "session_recvs L S" "session_link F S" "traffic_ok (fwd S)"
  shows "session_recvs L (handshake_result i x d st' (take_packet i (handshake_input K i s m (stk S)) S))"
proof -
  define T where "T = take_packet i (handshake_input K i s m (stk S)) S"
  have T: "link T = link S" "fwd T = fwd S" by (simp_all add: T_def take_packet_in)
  have rT: "session_recvs L T"
    by (rule session_recvs_mono [OF assms(5)]) (simp_all add: T_def take_packet_in)
  have new: "recvs (length (link S)) (fwd S) = []"
    using assms(6) by (intro recvs_new [OF assms(7)]) (simp add: session_link_def link_ok_def alives_def)
  have own: "session_recvs L (T\<lparr>stk := st', fwd := dialed True x d (fwd T), dialing := None, link := link T @ [z]\<rparr>)" for z
    using new dialed_records [of True x d "fwd S"] T by (intro session_recvs_linked [OF rT]) simp_all
  have gone: "session_recvs L (T\<lparr>stk := st', fwd := dialed False x d (fwd T), dialing := None\<rparr>)"
    using dialed_records [of False x d "fwd S"] T by (intro session_recvs_mono [OF rT]) simp_all
  have "session_recvs L (T\<lparr>stk := st'\<rparr>)" by (rule session_recvs_mono [OF rT]) simp_all
  with own gone show ?thesis
    unfolding T_def [symmetric] handshake_result_def by (auto split: option.splits)
qed

lemma session_recvs_received:
  assumes "worker_at c w (fwd S) Waiting" "owns S c s" "poll_channel K (conn_socket S c) s (stk S) = (ev, st1)" "ev \<noteq> Timeout"
    "length buf = MAX_PACKET_LEN" "socket_recv L (received ev) buf s = Ret (v, s', buf', out)"
    and "session_recvs L S"
  shows "session_recvs L ((take_packet (conn_socket S c) ev S)
      \<lparr>stk := put_socket (conn_socket S c) s' Owned out st1,
       fwd := worker_recv (map_option (\<lambda>k. take k buf') v) c w (fwd S)\<rparr>)"
proof -
  let ?r = "map_option (\<lambda>k. take k buf') v" and ?i = "conn_socket S c"
  note rec = worker_recv_records [of ?r c w "fwd S"]
  have "\<exists>bs. subseq bs (((taken S)(?i := taken S ?i @ packet_in ev)) (conn_socket S e))
      \<and> list_all2 (payload_is L) bs (recvs e (worker_recv ?r c w (fwd S)))" if e: "e < length (link S)" for e
  proof -
    from assms(7) e obtain bs where bs: "subseq bs (taken S (conn_socket S e))" "list_all2 (payload_is L) bs (recvs e (fwd S))"
      unfolding session_recvs_def by blast
    show ?thesis
    proof (cases "e = c \<and> v \<noteq> None")
      case False
      then have "recvs e (worker_recv ?r c w (fwd S)) = recvs e (fwd S)" using rec [of e] by (cases v) auto
      with bs show ?thesis by (intro exI [of _ bs]) (auto intro: list_emb_append2 list_emb_prefix)
    next
      case True
      then obtain k where v: "v = Some k" "e = c" by auto
      with assms(6) obtain b where b: "ev = Received b"
        by (cases ev) (auto simp: socket_recv_def split: State.splits)
      with assms(6) v have "payload_is L b (take k buf')" by (auto intro: socket_recv_payload)
      with bs v rec [of c] have "list_all2 (payload_is L) (bs @ [b]) (recvs e (worker_recv ?r c w (fwd S)))"
        by (simp add: list_all2_appendI)
      moreover have "subseq (bs @ [b]) (taken S ?i @ packet_in ev)" using bs v b by (auto intro: list_emb_append_mono)
      ultimately show ?thesis using v by (intro exI [of _ "bs @ [b]"]) simp
    qed
  qed
  then show ?thesis by (simp add: session_recvs_def take_packet_in conn_socket_def)
qed

lemma forward_recvs_step:
  assumes "forward_step L K F S S'" "session_recvs L S" "session_link F S" "traffic_ok (fwd S)"
  shows "session_recvs L S'"
  using assms
proof (induction rule: forward_step.induct)
  case (fwd_task S f')
  then show ?case
    using task_step_records [OF fwd_task(1)] by (intro session_recvs_mono [OF fwd_task(2)]) simp_all
next
  case (dial_exhausts S x d start draw)
  then show ?case
    using dialed_records [of False x d "fwd S"] by (intro session_recvs_mono [OF dial_exhausts(6)]) simp_all
next
  case (dial_aborts S x d start draw p)
  then show ?case by (intro session_recvs_mono [OF dial_aborts(6)]) (simp_all add: sends_def recvs_def alives_def)
next
  case (dial_polls S x d i s m res st')
  show ?case by (rule session_recvs_polled [OF dial_polls(1-7)])
next
  case (sends_existing S x c d s res v s' buf)
  then show ?case
    using sent_existing_records [of c d "fwd S"] by (intro session_recvs_mono [OF sends_existing(4)]) simp_all
next
  case (sends_first S x c d s res v s' buf f')
  then show ?case
    using greeted_records [OF sends_first(4)] by (intro session_recvs_mono [OF sends_first(5)]) simp_all
next
  case (worker_recvs c w S s ev st1 buf v s' buf' out)
  show ?case by (rule session_recvs_received [OF worker_recvs(1-7)])
next
  case (drops_conn c S s st')
  then show ?case
    using drop_connection_records [of c "fwd S"] by (intro session_recvs_mono [OF drops_conn(6)]) simp_all
qed (erule session_recvs_mono; simp)+

lemma session_recvs_step:
  assumes "session_step L K F S S'" "session_recvs L S" "session_link F S" "traffic_ok (fwd S)"
  shows "session_recvs L S'"
  using assms
proof (induction rule: session_step.induct)
  case (forwards S S')
  then show ?case by (rule forward_recvs_step)
qed (erule session_recvs_mono; simp)+

text \<open>The invariants together.\<close>

definition session_inv ::
  "packet_lib \<Rightarrow> ('c \<Rightarrow> bytes list) \<Rightarrow> ('m \<Rightarrow> nat list) \<Rightarrow> ('b \<Rightarrow> AddrTuple list) \<Rightarrow> ForwarderConfig
     \<Rightarrow> ('c, 'm, 'b) Session \<Rightarrow> bool" where
  "session_inv L queued backlog pending F S \<longleftrightarrow> stack_inv L queued backlog pending (stk S) \<and> fw_all (fwd S)
     \<and> session_link F S \<and> session_fifo L queued S \<and> session_recvs L S \<and> session_wire L S"

lemma session_wire_mono:
  assumes "session_wire L S" "sends (fwd S') = sends (fwd S)" "sent_on_wire L (stk S') = sent_on_wire L (stk S)"
    and "link S' = link S \<or> (\<exists>z. link S' = link S @ [z])"
  shows "session_wire L S'"
proof -
  have "map (\<lambda>(c, d). (local_of S' c, d)) (sends (fwd S)) = map (\<lambda>(c, d). (local_of S c, d)) (sends (fwd S))"
    using assms(1,4) by (auto simp: session_wire_def local_of_def nth_append)
  moreover have "length (link S) \<le> length (link S')" using assms(4) by auto
  ultimately show ?thesis using assms(1-3) by (auto simp: session_wire_def)
qed

context stack_laws
begin

lemma session_wire_send:
  assumes w: "session_wire L S" and lk: "session_link F S" and o: "owns S c s" and c: "c < length (link S)"
    and snd: "socket_send L res d s = Ret (v, s', buf)" and f: "sends f' = sends (fwd S) @ sent_of (Tcp_send c d)"
  shows "session_wire L (S\<lparr>stk := put_socket (conn_socket S c) s' Owned [buf] (stk S), fwd := f'\<rparr>)"
proof -
  have est: "state s = Established" using snd by (cases "state s") (simp_all add: socket_send_def)
  from snd est obtain s1 where "socket_build L s (ACK L) (Some d) = Ret (buf, s1)"
    by (auto simp: socket_send_def obind_eq_Ret_iff Let_def)
  then have "carries L buf (out_segment s (ACK L) (Some d))" using socket_build_wf by blast
  then have data: "wire_data L buf = (if d = [] then [] else [(strip_scope (local_addr s), d)])"
    by (simp add: carries_wire_data)
  have u: "socket_tuple s = snd (link S ! c)" using owns_linked [OF lk o c] by blast
  have "client_end (fw_remote_addr F) (snd (link S ! c))" using lk c by (auto simp: session_link_def link_ok_def)
  with u have "strip_scope (local_addr s) = local_of S c"
    by (simp add: client_end_def local_of_def socket_tuple_def) (metis AddrTuple.sel(1))
  with w c data f show ?thesis
    by (auto simp: session_wire_def sent_put local_of_def)
qed

lemma forward_wire_step:
  assumes "forward_step L K F S S'" "session_wire L S" "session_link F S" "ok (stk S)" "fw_inv (fwd S)"
  shows "session_wire L S'"
  using assms
proof (induction rule: forward_step.induct)
  case (fwd_task S f')
  from task_step_records [OF fwd_task(1)] show ?case by (intro session_wire_mono [OF fwd_task(2)]) simp_all
next
  case (dial_opens S x d start draw i st')
  from connect_open_effect [OF dial_opens(5)] obtain dv u where
    "st' = register K dv u None (Connecting 0) (stk S)" by blast
  from register_effect(4) [OF dial_opens(8) this] show ?case by (intro session_wire_mono [OF dial_opens(6)]) simp_all
next
  case (dial_exhausts S x d start draw)
  from dialed_records [of False x d "fwd S"] show ?case by (intro session_wire_mono [OF dial_exhausts(6)]) simp_all
next
  case (dial_aborts S x d start draw p)
  show ?case by (intro session_wire_mono [OF dial_aborts(6)]) (simp_all add: sends_def recvs_def alives_def)
next
  case (dial_polls S x d i s m res st')
  from connect_poll_effect(2) [OF dial_polls(4)] dialed_records [of _ x d "fwd S"] show ?case
    by (intro session_wire_mono [OF dial_polls(5)])
      (auto simp: handshake_result_def take_packet_in split: option.splits)
next
  case (sends_existing S x c d s res v s' buf)
  then have "c < length (link S)" by (auto simp: fw_inv_def session_link_def link_ok_def alives_def)
  with sends_existing sent_existing_records [of c d "fwd S"] show ?case by (blast intro: session_wire_send)
next
  case (sends_first S x c d s res v s' buf f')
  then have "c < length (link S)" by (auto simp: fw_inv_def session_link_def link_ok_def alives_def)
  with sends_first greeted_records [OF sends_first(4)] show ?case by (blast intro: session_wire_send)
next
  case (worker_recvs c w S s ev st1 buf v s' buf' out)
  have "sent_on_wire L (put_socket (conn_socket S c) s' Owned out st1) = sent_on_wire L (stk S)"
    using poll_channel_frame [OF worker_recvs(3)] socket_recv_dataless [OF worker_recvs(6)]
    by (simp add: sent_put) (simp add: sent_on_wire_def)
  with worker_recv_records [of "map_option (\<lambda>k. take k buf') v" c w "fwd S"] show ?case
    by (intro session_wire_mono [OF worker_recvs(7)]) (simp_all add: take_packet_in)
next
  case (drops_conn c S s st')
  from socket_drop_effect(6) [OF drops_conn(5)] drop_connection_records [of c "fwd S"] show ?case
    by (intro session_wire_mono [OF drops_conn(6)]) simp_all
qed

lemma session_wire_step:
  assumes "session_step L K F S S'" "session_wire L S" "session_link F S" "ok (stk S)" "fw_inv (fwd S)"
  shows "session_wire L S'"
  using assms
proof (induction rule: session_step.induct)
  case (net_reads S r R b st')
  from reader_reads_effect [OF net_reads(7,1,2,4), of undefined] show ?case
    by (intro session_wire_mono [OF net_reads(5)]) simp_all
next
  case (net_reader S st')
  then have "listening (stk S) = {}" by (simp add: session_link_def)
  from reader_step_quiet [OF net_reader(1,4) this] show ?case
    by (intro session_wire_mono [OF net_reader(2)]) (simp_all add: quiet_def)
next
  case (forwards S S')
  then show ?case by (rule forward_wire_step)
qed

abbreviation session_ok where "session_ok \<equiv> session_inv L queued backlog pending"

lemma session_new_ok: "session_ok F (session_new K d F)"
proof -
  have "fw_all fwd_new" by (rule fwd.start_inv [OF refl])
  moreover have "ok (stk (session_new K d F))" by (simp add: session_new_def new_ok)
  moreover have "session_link F (session_new K d F)"
    by (simp add: session_new_def session_link_def link_ok_def dial_ok_def shape_def stack_new_def alives_def fwd_new_def)
  moreover have "session_fifo L queued (session_new K d F)"
    by (simp add: session_new_def session_fifo_def queue_of_def in_hand_def stack_new_def shape_def)
  moreover have "session_recvs L (session_new K d F)" by (simp add: session_new_def session_recvs_def)
  moreover have "session_wire L (session_new K d F)"
    by (simp add: session_new_def session_wire_def sends_def fwd_new_def sent_on_wire_def stack_new_def)
  ultimately show ?thesis by (simp add: session_inv_def session_new_def)
qed

lemma session_ok_step:
  assumes "session_ok F S" "session_step L K F S S'"
  shows "session_ok F S'"
proof -
  have parts: "ok (stk S)" "fw_all (fwd S)" "session_link F S" "session_fifo L queued S" "session_recvs L S" "session_wire L S"
    using assms(1) by (simp_all add: session_inv_def)
  have f: "fw_inv (fwd S)" "traffic_ok (fwd S)" using parts(2) by (simp_all add: fw_all_def)
  have "ok (stk S')" using session_step_stack [OF assms(2)] step_ok parts(1) by auto
  moreover have "fw_all (fwd S')" using session_step_fwd [OF assms(2)] fwd.step_inv parts(2) by auto
  ultimately show ?thesis
    using session_link_step [OF assms(2) parts(3,1) f(1)] session_fifo_step [OF assms(2) parts(4,3,1) f(1)]
      session_recvs_step [OF assms(2) parts(5,3) f(2)] session_wire_step [OF assms(2) parts(6,3,1) f(1)]
    by (simp add: session_inv_def)
qed

end

sublocale stack_laws \<subseteq> session: step_invariant "\<lambda>S. \<exists>d. S = session_new K d F" "session_step L K F" "session_ok F" for F
  by unfold_locales (auto intro: session_new_ok session_ok_step)

section \<open>Nothing panics while the reader runs\<close>

context packet_layout
begin

lemma carries_data_length:
  assumes "carries L b Sg"
  shows "length (seg_data Sg) \<le> length b"
proof -
  from assms obtain ip t where p: "parse_ip_packet L b = Ret (Some (ip, t))" "segment_of L ip t = Sg" by (rule carries_parse)
  have tcp: "20 \<le> length t \<and> length t \<le> length b" if "parse_tcp L n b = Ret t" for n
    using that by (auto simp: parse_tcp_def slice_from_def obind_eq_Ret_iff tcp_new split: if_splits)
  from p(1) have "20 \<le> length t \<and> length t \<le> length b"
    by (auto simp: parse_ip_packet_def obind_eq_Ret_iff dest: tcp split: if_splits)
  with tcp_payload_bound [of t] p(2) show ?thesis by (auto simp: segment_of_def)
qed

end

lemma datagram_fits: "length d \<le> MAX_PACKET_LEN \<Longrightarrow> fits l 16 (Some d)"
  by (auto simp: fits_def tcp_wire_len_def MAX_PACKET_LEN_def has_syn_def)

lemma held_fits:
  assumes "fw_all f" "(x, d) \<in> set (held (main f))"
  shows "length d \<le> MAX_PACKET_LEN"
proof -
  have "subseq (concat (map (tcp_sent (map peer (conns f))) (events f)) @ held (main f)) (concat (map from_client (events f)))"
    and fit: "datagrams_fit (events f)" using assms(1) by (simp_all add: fw_all_def traffic_def)
  from subseq_set [OF this(1)] assms(2) have "(x, d) \<in> set (concat (map from_client (events f)))" by auto
  then obtain e where e: "e \<in> set (events f)" "(x, d) \<in> set (from_client e)" by auto
  have "e = From_client x d" by (cases e) (use e(2) in auto)
  with e fit show ?thesis by (auto simp: datagrams_fit_def)
qed

context stack_laws
begin

lemma owned_ready:
  assumes "ok st" "sockets st i = Some (s, Owned)"
  shows "state s = Established \<and> wf_socket s"
  using sockets_okD [OF stack_invD(2) [OF assms(1)] assms(2)] by (simp add: wf_socket_def tuple_family_def socket_tuple_def)

lemma send_total:
  assumes "ok st" "sockets st i = Some (s, Owned)" "length d \<le> MAX_PACKET_LEN"
  shows "\<exists>v s' buf. socket_send L res d s = Ret (v, s', buf)"
proof -
  have "fits (local_addr s) 16 (Some d)" using assms(3) by (rule datagram_fits)
  then show ?thesis using send_ok [of s d res] owned_ready [OF assms(1,2)] by blast
qed

lemma recv_total:
  assumes "ok st" "sockets st i = Some (s, Owned)" "ev \<noteq> Timeout" "length buf = MAX_PACKET_LEN"
    and "\<And>b. ev = Received b \<Longrightarrow> packet_for L (socket_tuple s) b \<and> length b \<le> MAX_PACKET_LEN"
  shows "\<exists>v s' buf' out. socket_recv L (received ev) buf s = Ret (v, s', buf', out)"
proof -
  have e: "state s = Established" "wf_socket s" using owned_ready [OF assms(1,2)] by simp_all
  show ?thesis
  proof (cases ev)
    case (Received b)
    with assms(5) obtain Sg where Sg: "carries L b Sg" "length b \<le> MAX_PACKET_LEN" using packet_for_carries by blast
    then have "length (seg_data Sg) \<le> length buf" using carries_data_length [OF Sg(1)] assms(4) by simp
    with recv_data [OF e Sg(1) _ _ refl, of buf] recv_reset [OF e(1) Sg(1), of buf] Received show ?thesis
      by (cases "seg_flags Sg AND 4 = 0") auto
  qed (use assms(3) e in \<open>simp_all add: socket_recv_def\<close>)
qed

lemma received_short:
  assumes "session_fifo L queued S" "ok (stk S)" "sockets (stk S) i = Some (s, ro)" "poll_channel K i s (stk S) = (ev, st1)" "ev = Received b"
  shows "packet_for L (socket_tuple s) b \<and> length b \<le> MAX_PACKET_LEN"
proof -
  have "packet_for L (socket_tuple s) b" using poll_channel_inv [OF assms(2,4,3)] assms(5) by blast
  moreover have "b \<in> set (queue_of queued (stk S) i)" using poll_channel_queue [OF assms(4), of i] assms(5) by simp
  then have "b \<in> set (net_in S)" using subseq_set [OF session_fifo_sub [OF assms(1), of i]] by auto
  ultimately show ?thesis using assms(1) by (auto simp: session_fifo_def)
qed

lemma session_total:
  assumes "session_ok F S"
  shows "main (fwd S) = Sending x c d \<or> main (fwd S) = Greeting x c d
      \<Longrightarrow> \<exists>s v s' buf. owns S c s \<and> socket_send L res d s = Ret (v, s', buf)"
    and "worker_at c w (fwd S) Waiting \<Longrightarrow> \<exists>s. owns S c s \<and> (\<forall>ev st1 buf. poll_channel K (conn_socket S c) s (stk S) = (ev, st1)
        \<and> ev \<noteq> Timeout \<and> length buf = MAX_PACKET_LEN \<longrightarrow> \<not> panics (socket_recv L (received ev) buf s))"
    and "c < length (conns (fwd S)) \<Longrightarrow> alive (conns (fwd S) ! c) \<Longrightarrow> some_reader (stk S)
      \<Longrightarrow> \<exists>s st'. owns S c s \<and> socket_drop L K (conn_socket S c) s (stk S) = Ret st'"
    and "dialing S = Some i \<Longrightarrow> some_reader (stk S)
      \<Longrightarrow> \<exists>s m st'. sockets (stk S) i = Some (s, Connecting m) \<and> connect_poll L K False res i s m (stk S) = Ret st'"
proof -
  have p: "ok (stk S)" "fw_all (fwd S)" "session_link F S" "session_fifo L queued S" using assms by (simp_all add: session_inv_def)
  have f: "fw_inv (fwd S)" using p(2) by (simp add: fw_all_def)
  {
    assume m: "main (fwd S) = Sending x c d \<or> main (fwd S) = Greeting x c d"
    then have "c < length (conns (fwd S))" "referenced c (fwd S)" using f by (auto simp: fw_inv_def referenced_def)
    with session_link_owns [OF p(3) f] obtain s where s: "owns S c s" by blast
    have "length d \<le> MAX_PACKET_LEN" using m held_fits [OF p(2), of x d] by auto
    with send_total [OF p(1), of "conn_socket S c" s] s
    show "\<exists>s v s' buf. owns S c s \<and> socket_send L res d s = Ret (v, s', buf)" by (auto simp: owns_def)
  next
    assume "worker_at c w (fwd S) Waiting"
    with session_link_owns [OF p(3) f] worker_referenced [of c w "fwd S" Waiting] obtain s where s: "owns S c s" by auto
    have "\<not> panics (socket_recv L (received ev) buf s)"
      if "poll_channel K (conn_socket S c) s (stk S) = (ev, st1)" "ev \<noteq> Timeout" "length buf = MAX_PACKET_LEN" for ev st1 buf
      using recv_total [OF p(1) s [unfolded owns_def] that(2,3)] received_short [OF p(4,1) s [unfolded owns_def] that(1)]
      unfolding not_panics_iff by blast
    with s show "\<exists>s. owns S c s \<and> (\<forall>ev st1 buf. poll_channel K (conn_socket S c) s (stk S) = (ev, st1)
        \<and> ev \<noteq> Timeout \<and> length buf = MAX_PACKET_LEN \<longrightarrow> \<not> panics (socket_recv L (received ev) buf s))" by blast
  next
    assume c: "c < length (conns (fwd S))" "alive (conns (fwd S) ! c)" and r: "some_reader (stk S)"
    with session_link_alive [OF p(3)] obtain s where s: "owns S c s" by blast
    from socket_drop_total [OF p(1) s [unfolded owns_def] r] s
    show "\<exists>s st'. owns S c s \<and> socket_drop L K (conn_socket S c) s (stk S) = Ret st'" by blast
  next
    assume i: "dialing S = Some i" and r: "some_reader (stk S)"
    then obtain s m where s: "sockets (stk S) i = Some (s, Connecting m)"
      using p(3) by (auto simp: session_link_def link_ok_def shape_Some)
    from connect_poll_total [OF p(1) s r, of res] s
    show "\<exists>s m st'. sockets (stk S) i = Some (s, Connecting m) \<and> connect_poll L K False res i s m (stk S) = Ret st'" by blast
  }
qed

end

section \<open>Reachable sessions\<close>

context stack_laws
begin

lemma session_reachable_ok: "session_reachable L K F S \<Longrightarrow> session_ok F S"
proof -
  assume "session_reachable L K F S"
  then obtain d where "(session_step L K F)\<^sup>*\<^sup>* (session_new K d F) S" unfolding session_reachable_def by blast
  from session.reachable_inv [OF _ this] show "session_ok F S" by blast
qed

lemma locals_distinct:
  assumes "session_ok F S" "c < length (conns (fwd S))" "e < length (conns (fwd S))" "alive (conns (fwd S) ! c)"
    "alive (conns (fwd S) ! e)" "local_of S c = local_of S e"
  shows "c = e"
proof -
  have p: "ok (stk S)" "session_link F S" using assms(1) by (simp_all add: session_inv_def)
  obtain s s' where s: "owns S c s" "socket_tuple s = snd (link S ! c)" and s': "owns S e s'" "socket_tuple s' = snd (link S ! e)"
    using session_link_alive [OF p(2) assms(2,4)] session_link_alive [OF p(2) assms(3,5)] by blast
  have "client_end (fw_remote_addr F) (snd (link S ! c))" "client_end (fw_remote_addr F) (snd (link S ! e))"
    using p(2) assms(2,3) by (simp_all add: session_link_def link_ok_def alives_def)
  with s(2) s'(2) assms(6) have "socket_tuple s = socket_tuple s'"
    by (intro AddrTuple.expand) (simp add: client_end_def local_of_def)
  then have "conn_socket S c = conn_socket S e"
    using table_okD(1) [OF stack_invD(1) [OF p(1)] s(1) [unfolded owns_def]]
      table_okD(1) [OF stack_invD(1) [OF p(1)] s'(1) [unfolded owns_def]] by simp
  with p(2) assms(2,3) show ?thesis
    using nth_eq_iff_index_eq [of "map fst (link S)" c e]
    by (simp add: session_link_def link_ok_def conn_socket_def alives_def)
qed

end

lemma sends_peers:
  "map (\<lambda>(c, d). (ps ! c, d)) (concat (map sent_of es)) = filter (\<lambda>(x, d). d \<noteq> []) (concat (map (tcp_sent ps) es))"
proof (induction es)
  case (Cons e es)
  then show ?case by (cases e) simp_all
qed simp

lemma session_sends_subseq:
  assumes "fw_all f"
  shows "subseq (map (\<lambda>(c, d). (peer (conns f ! c), d)) (sends f)) (concat (map from_client (events f)))"
proof -
  have t: "traffic_ok f" using assms by (simp add: fw_all_def)
  have "map (\<lambda>(c, d). (peer (conns f ! c), d)) (sends f) = map (\<lambda>(c, d). (map peer (conns f) ! c, d)) (sends f)"
    using sends_bound [OF t] by auto
  also have "\<dots> = filter (\<lambda>(x, d). d \<noteq> []) (concat (map (tcp_sent (map peer (conns f))) (events f)))"
    unfolding sends_def by (rule sends_peers)
  also have "subseq \<dots> (concat (map (tcp_sent (map peer (conns f))) (events f)))" by (rule subseq_filter_left)
  also have "subseq \<dots> (concat (map from_client (events f)))"
    using traffic_lose [OF t] by (simp add: traffic_def)
  finally show ?thesis .
qed

lemma answers_received:
  assumes "fw_all f" "To_client x d \<in> set (events f)"
  shows "\<exists>c<length (conns f). peer (conns f ! c) = x \<and> d \<in> set (recvs c f)"
proof -
  have t: "traffic_ok f" using assms(1) by (simp add: fw_all_def)
  have "(x, d) \<in> set (concat (map to_client (events f)))" using assms(2) by force
  then have "(x, d) \<in># mset (concat (map (tcp_received (map peer (conns f))) (events f)))"
    using t unfolding traffic_def by (metis set_mset_mset union_iff)
  then obtain e where e: "e \<in> set (events f)" "(x, d) \<in> set (tcp_received (map peer (conns f)) e)" by auto
  obtain c where c: "e = Tcp_recv c d" "map peer (conns f) ! c = x" by (cases e) (use e(2) in \<open>auto split: if_splits\<close>)
  have "c < length (conns f)" using t e(1) c(1) by (auto simp: traffic_def)
  moreover have "d \<in> set (recvs c f)" using e(1) c(1) by (force simp: recvs_def)
  ultimately show ?thesis using c(2) by auto
qed

lemma recvs_packets:
  assumes "session_link F S" "session_fifo L queued S" "session_recvs L S" "c < length (conns (fwd S))" "packet_layout L"
  shows "\<exists>bs. subseq bs (net_in S) \<and> list_all2 (\<lambda>b d. \<exists>Sg. carries L b Sg \<and> seg_src Sg = fw_remote_addr F
     \<and> seg_dst Sg = local_of S c \<and> seg_data Sg = d) bs (recvs c (fwd S))"
proof -
  have c: "c < length (link S)" using assms(1,4) by (simp add: session_link_def link_ok_def alives_def)
  with assms(3) obtain bs where bs: "subseq bs (taken S (conn_socket S c))" "list_all2 (payload_is L) bs (recvs c (fwd S))"
    unfolding session_recvs_def by blast
  have "subseq (taken S (conn_socket S c)) (net_in S)"
    using session_fifo_sub [OF assms(2), of "conn_socket S c"] subseq_extend subseq_order.trans by blast
  with bs(1) have sub: "subseq bs (net_in S)" by (rule subseq_order.trans)
  have "list_all (packet_for L (snd (link S ! c))) (taken S (conn_socket S c))"
    using assms(2) nth_mem [OF c] unfolding session_fifo_def conn_socket_def by (metis (no_types, lifting) case_prodE prod.sel split_beta)
  with subseq_set [OF bs(1)] have "\<forall>b\<in>set bs. packet_for L (snd (link S ! c)) b" by (auto simp: list_all_iff)
  with bs(2) have both: "list_all2 (\<lambda>b d. packet_for L (snd (link S ! c)) b \<and> payload_is L b d) bs (recvs c (fwd S))"
    by (auto simp: list_all2_conv_all_nth)
  have "tuple_remote (snd (link S ! c)) = fw_remote_addr F" using assms(1) c by (auto simp: session_link_def link_ok_def client_end_def)
  then have "list_all2 (\<lambda>b d. \<exists>Sg. carries L b Sg \<and> seg_src Sg = fw_remote_addr F
     \<and> seg_dst Sg = local_of S c \<and> seg_data Sg = d) bs (recvs c (fwd S))"
    by (intro list_all2_mono [OF both])
      (auto simp: payload_is_def packet_for_def carries_def packet_tuple_def local_of_def segment_of_def)
  with sub show ?thesis by blast
qed

end
