(* ===== verification/Session_Properties.thy ===== *)
theory Session_Properties
  imports Session_Invariant
begin

text \<open>
  Runs of the client, from a datagram of a new client over the handshake to the server's answer, and the
  properties of the client as one system.
\<close>

section \<open>The addresses of the stack\<close>

text \<open>No step changes the device list or the local IPv6 address of the stack.\<close>

definition config_kept :: "('c, 'm, 'b) Stack \<Rightarrow> ('c, 'm, 'b) Stack \<Rightarrow> bool" where
  "config_kept st st' \<longleftrightarrow> local_ip6 st' = local_ip6 st \<and> devices st' = devices st"

lemma config_refl [simp]: "config_kept st st"
  by (simp add: config_kept_def)

lemma config_trans: "config_kept a b \<Longrightarrow> config_kept b c \<Longrightarrow> config_kept a c"
  by (simp add: config_kept_def)

lemma reader_unknown_config: "reader_unknown L K checks res r u t st = Ret st' \<Longrightarrow> config_kept st st'"
  by (auto simp: config_kept_def reader_unknown_def obind_eq_Ret_iff Let_def register_def dest!: reply_rst_frame split: if_splits option.splits)

lemma poll_channel_config: "poll_channel K i s st = (ev, st1) \<Longrightarrow> config_kept st st1"
  by (auto simp: config_kept_def poll_channel_def split: option.splits)

lemma poll_when_config: "poll_when b K i s st = (ev, st1) \<Longrightarrow> config_kept st st1"
  by (cases b) (auto simp: poll_when_def dest: poll_channel_config)

lemma put_socket_config [simp]: "config_kept st (put_socket i s ro out st1) \<longleftrightarrow> config_kept st st1"
  by (simp add: config_kept_def put_socket_def)

lemma channels_config [simp]: "config_kept st (st1\<lparr>channels := ch\<rparr>) \<longleftrightarrow> config_kept st st1"
  by (simp add: config_kept_def)

lemma set_reader_config [simp]: "config_kept st (set_reader r R st1) \<longleftrightarrow> config_kept st st1"
  by (simp add: config_kept_def set_reader_def)

lemma socket_drop_config: "socket_drop L K i s st = Ret st' \<Longrightarrow> config_kept st st'"
  by (auto simp: config_kept_def socket_drop_def purge_send_def obind_eq_Ret_iff Let_def split: if_splits)

lemma connect_poll_config:
  assumes "connect_poll L K checks res i s n st = Ret st'"
  shows "config_kept st st'"
proof (cases "n = RETRIES")
  case True
  with assms show ?thesis by (simp add: connect_poll_def socket_drop_config)
next
  case False
  obtain ev st1 where poll: "poll_when (state s = SynSent) K i s st = (ev, st1)" by fastforce
  from assms False poll obtain v :: "unit option option" and s' out where
    "(case v of None \<Rightarrow> Ret (put_socket i s' (Connecting (n + 1)) out st1) | Some (Some _) \<Rightarrow> Ret (put_socket i s' Owned out st1)
      | Some None \<Rightarrow> socket_drop L K i s' (put_socket i s' (Connecting n) out st1)) = Ret st'"
    by (auto simp: connect_poll_def obind_eq_Ret_iff)
  then have "st' = put_socket i s' (Connecting (n + 1)) out st1 \<or> st' = put_socket i s' Owned out st1
    \<or> socket_drop L K i s' (put_socket i s' (Connecting n) out st1) = Ret st'"
    by (cases v; cases "the v") auto
  with poll_when_config [OF poll] show ?thesis
    by (auto dest!: socket_drop_config intro: config_trans simp: config_trans [of st "put_socket i s' (Connecting n) out st1"])
qed

lemma reader_step_config: "reader_step L K st st' \<Longrightarrow> config_kept st st'"
proof (induction rule: reader_step.induct)
  case (reader_acts st r R try_res st')
  then show ?case
    by (cases "pc R") (auto simp: reader_act_def Let_def channel_send_def obind_eq_Ret_iff
      dest!: reader_unknown_config split: option.splits if_splits)
next
  case (reader_purges st r R st')
  then show ?case by (auto simp: reader_purge_def split: option.splits)
qed (simp_all add: config_kept_def reader_dies_def)

lemma forward_step_config: "forward_step L K F S S' \<Longrightarrow> config_kept (stk S) (stk S')"
proof (induction rule: forward_step.induct)
  case (dial_opens S x d start draw i st')
  then show ?case by (auto simp: config_kept_def register_def Let_def dest!: connect_open_effect)
next
  case (dial_polls S x d i s m res st')
  then show ?case by (auto simp: handshake_result_def take_packet_def connect_poll_config split: option.splits)
qed (auto simp: poll_channel_config socket_drop_config)

lemma session_step_config: "session_step L K F S S' \<Longrightarrow> config_kept (stk S) (stk S')"
proof (induction rule: session_step.induct)
  case (net_reads S r R b st')
  then show ?case by (auto dest!: reader_recv_frame)
qed (auto simp: reader_step_config forward_step_config)

lemma session_config:
  assumes "session_reachable L K F S"
  shows "local_ip6 (stk S) = fake_tcp_local_ipv6 F \<and> devices (stk S) \<noteq> []"
proof -
  obtain d where "(session_step L K F)\<^sup>*\<^sup>* (session_new K d F) S" using assms by (auto simp: session_reachable_def)
  then have "config_kept (stk (session_new K d F)) (stk S)"
    by (induction rule: rtranclp_induct) (auto intro: config_trans session_step_config)
  then show ?thesis by (simp add: config_kept_def session_new_def stack_new_def)
qed

text \<open>Opening a socket panics exactly for an IPv6 server without a local IPv6 address.\<close>

lemma session_open_panics:
  assumes "session_reachable L K F S" "start \<le> 60999"
  shows "panics (connect_open K start draw (fw_remote_addr F) (stk S))
    \<longleftrightarrow> \<not> is_ipv4 (fw_remote_addr F) \<and> fake_tcp_local_ipv6 F = None"
proof (cases "can_reach (fw_remote_addr F) (stk S)")
  case True
  with session_config [OF assms(1)] connect_ports_eq [OF True, of K draw "port_range start"] show ?thesis
    by (auto simp: connect_open_def can_reach_def)
next
  case False
  obtain p ps where "port_range start = p # ps" using assms(2) by (cases "port_range start") (auto simp: port_range_def)
  with False session_config [OF assms(1)] show ?thesis
    by (simp add: connect_open_def can_reach_def connect_local_def)
qed

section \<open>What a run adds to the wire\<close>

lemma session_step_link: "session_step L K F S S' \<Longrightarrow> \<exists>xs. link S' = link S @ xs"
proof (induction rule: session_step.induct)
  case (forwards S S')
  then show ?case
    by (induction rule: forward_step.induct) (auto simp: handshake_result_def take_packet_def split: option.splits)
qed simp_all

lemma session_run_link: "(session_step L K F)\<^sup>*\<^sup>* S S' \<Longrightarrow> \<exists>xs. link S' = link S @ xs"
  by (induction rule: rtranclp_induct) (auto dest: session_step_link)

lemma local_of_kept: "(session_step L K F)\<^sup>*\<^sup>* S S' \<Longrightarrow> c < length (link S) \<Longrightarrow> local_of S' c = local_of S c"
  by (auto simp: local_of_def nth_append dest!: session_run_link)

lemma run_sends_one:
  assumes "session_wire L S" "session_wire L S'" "(session_step L K F)\<^sup>*\<^sup>* S S'"
    and "sends (fwd S') = sends (fwd S) @ sent_of (Tcp_send c d)" "local_of S' c = l"
  shows "sent_on_wire L (stk S') = sent_on_wire L (stk S) @ (if d = [] then [] else [(l, d)])"
proof -
  have "map (\<lambda>(e, d). (local_of S' e, d)) (sends (fwd S)) = map (\<lambda>(e, d). (local_of S e, d)) (sends (fwd S))"
    using assms(1) local_of_kept [OF assms(3)] by (auto simp: session_wire_def)
  with assms(1,2,4,5) show ?thesis by (simp add: session_wire_def)
qed

section \<open>Runs\<close>

text \<open>Reader \<open>r\<close> waits for a packet and has read all its purge messages.\<close>

definition reader_idle :: "('b \<Rightarrow> AddrTuple list) \<Rightarrow> nat \<Rightarrow> ('c, 'm, 'b) Stack \<Rightarrow> bool" where
  "reader_idle pending r st \<longleftrightarrow> (\<exists>R. readers st r = Some R \<and> pc R = reader_pc.Waiting \<and> pending (purge R) = [])"

lemma reader_idle_readers: "readers st' = readers st \<Longrightarrow> reader_idle pending r st' = reader_idle pending r st"
  by (simp add: reader_idle_def)

lemma packet_for_segment:
  "carries L b Sg \<Longrightarrow> packet_for L (AddrTuple (seg_dst Sg) (seg_src Sg)) b"
  by (auto simp: carries_def packet_for_def packet_tuple_def segment_of_def split: outcome.splits option.splits)

text \<open>
  The runs below are calm: readers only read and dispatch packets, without purge messages and failures.
\<close>

inductive calm_step ::
  "packet_lib \<Rightarrow> ('c, 'm, 'b) chan_lib \<Rightarrow> ForwarderConfig \<Rightarrow> ('c, 'm, 'b) Session \<Rightarrow> ('c, 'm, 'b) Session \<Rightarrow> bool"
  for L :: packet_lib and K :: "('c, 'm, 'b) chan_lib" and F :: ForwarderConfig
where
  calm_reads: "readers (stk S) r = Some R \<Longrightarrow> pc R = reader_pc.Waiting \<Longrightarrow> length b \<le> MAX_PACKET_LEN
    \<Longrightarrow> reader_recv L (Inr b) r R (stk S) = Ret st'
    \<Longrightarrow> calm_step L K F S (S\<lparr>stk := st', net_in := net_in S @ [b]\<rparr>)"
| calm_acts: "readers (stk S) r = Some R \<Longrightarrow> reader_act L K False try_res r R (stk S) = Some (Ret st')
    \<Longrightarrow> calm_step L K F S (S\<lparr>stk := st'\<rparr>)"
| calm_forwards: "forward_step L K F S S' \<Longrightarrow> calm_step L K F S S'"

lemma calm_session: "calm_step L K F S S' \<Longrightarrow> session_step L K F S S'"
  by (induction rule: calm_step.induct) (blast intro: session_step.intros reader_step.intros)+

lemma calm_run: "(calm_step L K F)\<^sup>*\<^sup>* S S' \<Longrightarrow> (session_step L K F)\<^sup>*\<^sup>* S S'"
  by (induction rule: rtranclp_induct) (auto intro: calm_session rtranclp.rtrancl_into_rtrancl)

lemma run_two: "R a b \<Longrightarrow> R b c \<Longrightarrow> R\<^sup>*\<^sup>* a c" by auto

lemma run_three: "R a b \<Longrightarrow> R b c \<Longrightarrow> R c d \<Longrightarrow> R\<^sup>*\<^sup>* a d" by auto

context stack_laws
begin

lemma session_push:
  assumes "readers (stk S) r = Some R" "pc R = Cached i b \<or> pc R = reader_pc.Sending i b"
    and "channels (stk S) i = Some q" "flume_send K b q = Some q'"
  shows "calm_step L K F S
    (S\<lparr>stk := set_reader r (R\<lparr>pc := reader_pc.Waiting\<rparr>) (stk S\<lparr>channels := (channels (stk S))(i \<mapsto> q')\<rparr>)\<rparr>)"
  by (rule calm_acts [OF assms(1), where try_res = "Inr ()"])
    (use assms in \<open>auto simp: reader_act_def Let_def channel_send_def\<close>)

lemma session_deliver:
  assumes inv: "ok (stk S)" and R: "readers (stk S) r = Some R" "pc R = reader_pc.Waiting" "pending (purge R) = []"
    and b: "packet_for L u b" "tuples (stk S) u = Some i" "length b \<le> MAX_PACKET_LEN"
    and q: "channels (stk S) i = Some q" "flume_send K b q = Some q'"
  shows "\<exists>R'. pc R' = reader_pc.Waiting \<and> purge R' = purge R \<and> (calm_step L K F)\<^sup>*\<^sup>* S
    (S\<lparr>net_in := net_in S @ [b], stk := set_reader r R' (stk S\<lparr>channels := (channels (stk S))(i \<mapsto> q')\<rparr>)\<rparr>)"
proof -
  from b(1) obtain ip t where p: "parse_ip_packet L b = Ret (Some (ip, t))" "u = packet_tuple L ip t"
    unfolding packet_for_def by blast
  show ?thesis
  proof (cases "cache R u")
    case (Some c)
    let ?R = "R\<lparr>pc := Cached i b\<rparr>"
    let ?S = "S\<lparr>stk := set_reader r ?R (stk S), net_in := net_in S @ [b]\<rparr>"
    from Some have "c = i"
      using stack_invD(6) [OF inv R(1)] R(3) b(2) by (auto simp: reader_ok_def sender_ok_def)
    with Some p have "reader_recv L (Inr b) r R (stk S) = Ret (set_reader r ?R (stk S))"
      by (simp add: reader_recv_def Let_def)
    from calm_reads [OF R(1,2) b(3) this] have 1: "calm_step L K F S ?S" .
    have 2: "calm_step L K F ?S (?S\<lparr>stk := set_reader r (?R\<lparr>pc := reader_pc.Waiting\<rparr>) (stk ?S\<lparr>channels := (channels (stk ?S))(i \<mapsto> q')\<rparr>)\<rparr>)"
      by (rule session_push [of ?S r ?R i b q q']) (simp_all add: q)
    show ?thesis
      by (rule exI [of _ "?R\<lparr>pc := reader_pc.Waiting\<rparr>"]) (use run_two [of "calm_step L K F", OF 1 2] in \<open>simp add: set_reader_def\<close>)
  next
    case None
    let ?R = "R\<lparr>pc := Found u i b\<rparr>" and ?Q = "R\<lparr>cache := (cache R)(u \<mapsto> i), pc := reader_pc.Sending i b\<rparr>"
    let ?S = "S\<lparr>stk := set_reader r ?R (stk S), net_in := net_in S @ [b]\<rparr>"
    let ?T = "S\<lparr>net_in := net_in S @ [b], stk := set_reader r ?Q (stk S)\<rparr>"
    from None p b(2) have "reader_recv L (Inr b) r R (stk S) = Ret (set_reader r ?R (stk S))"
      by (simp add: reader_recv_def Let_def)
    from calm_reads [OF R(1,2) b(3) this] have 1: "calm_step L K F S ?S" .
    have 2: "calm_step L K F ?S ?T"
      using calm_acts [of ?S r ?R L K "Inr ()" "set_reader r ?Q (stk S)" F] by (simp add: reader_act_def Let_def set_reader_def)
    have 3: "calm_step L K F ?T (?T\<lparr>stk := set_reader r (?Q\<lparr>pc := reader_pc.Waiting\<rparr>) (stk ?T\<lparr>channels := (channels (stk ?T))(i \<mapsto> q')\<rparr>)\<rparr>)"
      by (rule session_push [of ?T r ?Q i b q q']) (simp_all add: q)
    show ?thesis
      by (rule exI [of _ "?Q\<lparr>pc := reader_pc.Waiting\<rparr>"])
        (use run_three [of "calm_step L K F", OF 1 2 3] in \<open>simp add: set_reader_def\<close>)
  qed
qed

end

context stack_laws
begin

text \<open>A waiting worker takes the next packet of its socket and hands the payload to its client.\<close>

lemma worker_forwards:
  assumes inv: "ok (stk S)" and w: "worker_at c w (fwd S) Waiting" and s: "owns S c s"
    and q: "channels (stk S) (conn_socket S c) = Some q" "queued q = b # bs"
    and b: "carries L b Sg" "length b \<le> MAX_PACKET_LEN" "seg_flags Sg AND 4 = 0" "seg_data Sg \<noteq> []"
  shows "\<exists>S'. (calm_step L K F)\<^sup>*\<^sup>* S S' \<and> net_in S' = net_in S
    \<and> events (fwd S') = events (fwd S) @ [Tcp_recv c (seg_data Sg), To_client (peer (conns (fwd S) ! c)) (seg_data Sg)]"
proof -
  let ?buf = "replicate MAX_PACKET_LEN 0" and ?d = "seg_data Sg"
  let ?f = "worker_recv (Some ?d) c w (fwd S)"
  let ?g = "worker_sent (Inr 0) ?d c w ?f"
  obtain q' where q': "flume_recv K q = Some (b, q')"
    using flume_empty [of q] flume_pop [of q] q(2) by (cases "flume_recv K q") auto
  have poll: "poll_channel K (conn_socket S c) s (stk S)
      = (Received b, stk S\<lparr>channels := (channels (stk S))(conn_socket S c \<mapsto> q')\<rparr>)" using q(1) q' by (simp add: poll_channel_def)
  have e: "state s = Established" "wf_socket s" using owned_ready [OF inv s [unfolded owns_def]] by simp_all
  have len: "length ?d \<le> length ?buf" using carries_data_length [OF b(1)] b(2) by simp
  obtain s' sent where recv: "socket_recv L (received (Received b)) ?buf s = Ret (Some (length ?d), s', write_at 0 ?d ?buf, sent)"
    using recv_data [OF e b(1,3) len refl] by auto
  have "take (length ?d) (write_at 0 ?d ?buf) = ?d" by (simp add: write_at_def)
  with calm_forwards [OF worker_recvs [OF w s poll _ _ recv]] obtain U where
    step: "calm_step L K F S U" "fwd U = ?f" "net_in U = net_in S" by (fastforce simp: take_packet_in)
  have wf: "?f = set_worker c w (Delivering ?d) (emit (Tcp_recv c ?d) (fwd S))" using b(4) by (simp add: worker_recv_def Let_def)
  have c: "c < length (conns (fwd S))" using w by (simp add: worker_at_def)
  have "worker_at c w ?f (Delivering ?d)" using w unfolding wf by (auto simp: worker_at_def fw_ops)
  from calm_forwards [OF fwd_task [OF task_deliver [OF this, of "Inr 0", folded step(2)]]]
  have "calm_step L K F U (U\<lparr>fwd := ?g\<rparr>)" using step(2) by simp
  with step(1) have "(calm_step L K F)\<^sup>*\<^sup>* S (U\<lparr>fwd := ?g\<rparr>)" by (rule run_two)
  moreover have "events ?g = events (fwd S) @ [Tcp_recv c ?d, To_client (peer (conns (fwd S) ! c)) ?d]"
    unfolding wf using c by (simp add: fw_ops)
  ultimately show ?thesis using step(3) by (intro exI [of _ "U\<lparr>fwd := ?g\<rparr>"]) simp
qed

text \<open>The same from the moment the reader gets the packet.\<close>

lemma answer_run:
  assumes inv: "session_ok F S" and w: "worker_at c w (fwd S) Waiting" and s: "owns S c s" and r: "reader_idle pending r (stk S)"
    and q: "channels (stk S) (conn_socket S c) = Some q" "queued q = []" "flume_send K b q = Some q'"
    and b: "carries L b Sg" "length b \<le> MAX_PACKET_LEN" "seg_src Sg = fw_remote_addr F" "seg_dst Sg = local_of S c"
    and data: "seg_flags Sg AND 4 = 0" "seg_data Sg \<noteq> []"
  shows "\<exists>S'. (calm_step L K F)\<^sup>*\<^sup>* S S' \<and> net_in S' = net_in S @ [b]
    \<and> events (fwd S') = events (fwd S) @ [Tcp_recv c (seg_data Sg), To_client (peer (conns (fwd S) ! c)) (seg_data Sg)]"
proof -
  have p: "ok (stk S)" "session_link F S" using inv by (simp_all add: session_inv_def)
  let ?i = "conn_socket S c"
  have c: "c < length (link S)"
    using w p(2) by (auto simp: worker_at_def session_link_def link_ok_def alives_def)
  have "socket_tuple s = AddrTuple (seg_dst Sg) (seg_src Sg)"
    using owns_linked [OF p(2) s c] b(3,4) p(2) c
    by (intro AddrTuple.expand) (simp add: local_of_def session_link_def link_ok_def client_end_def)
  then have tup: "tuples (stk S) (AddrTuple (seg_dst Sg) (seg_src Sg)) = Some ?i"
    using table_okD(1) [OF stack_invD(1) [OF p(1)] s [unfolded owns_def]] by simp
  from r obtain R where R: "readers (stk S) r = Some R" "pc R = reader_pc.Waiting" "pending (purge R) = []"
    by (auto simp: reader_idle_def)
  from session_deliver [OF p(1) R packet_for_segment [OF b(1)] tup b(2) q(1,3), of F] obtain R' where
    run: "(calm_step L K F)\<^sup>*\<^sup>* S
      (S\<lparr>net_in := net_in S @ [b], stk := set_reader r R' (stk S\<lparr>channels := (channels (stk S))(?i \<mapsto> q')\<rparr>)\<rparr>)" by blast
  define T where "T = S\<lparr>net_in := net_in S @ [b], stk := set_reader r R' (stk S\<lparr>channels := (channels (stk S))(?i \<mapsto> q')\<rparr>)\<rparr>"
  have T: "owns T c s" "channels (stk T) (conn_socket T c) = Some q'" "fwd T = fwd S" "net_in T = net_in S @ [b]"
    using s by (simp_all add: T_def owns_def conn_socket_def)
  have "queued q' = [b]" using flume_push [OF q(3)] q(2) by simp
  moreover have "ok (stk T)" using session.run_inv [OF calm_run [OF run] inv] by (simp add: session_inv_def T_def)
  ultimately obtain S' where S': "(calm_step L K F)\<^sup>*\<^sup>* T S'" "net_in S' = net_in T"
    "events (fwd S') = events (fwd T) @ [Tcp_recv c (seg_data Sg), To_client (peer (conns (fwd T) ! c)) (seg_data Sg)]"
    using worker_forwards [OF _ w [folded T(3)] T(1,2) _ b(1,2) data] by blast
  have "(calm_step L K F)\<^sup>*\<^sup>* S S'" using run [folded T_def] S'(1) by (rule rtranclp_trans)
  with S' T show ?thesis by (intro exI [of _ S']) simp
qed

end

context stack_laws
begin

text \<open>A datagram of an unknown client makes the main loop open a socket and send its SYN.\<close>

lemma dial_run:
  assumes inv: "session_ok F S" and m: "main (fwd S) = Listening" "table (fwd S) x = None" "length d \<le> MAX_PACKET_LEN"
    and start: "32768 \<le> start" "start \<le> 60999"
    and co: "connect_open K start draw (fw_remote_addr F) (stk S) = Ret (Some (i, st1))" "sockets st1 i = Some (s0, ro)"
  shows "\<exists>S' s. (calm_step L K F)\<^sup>*\<^sup>* S S' \<and> fwd S' = (emit (From_client x d) (fwd S))\<lparr>main := Dialing x d\<rparr>
    \<and> dialing S' = Some i \<and> link S' = link S \<and> net_in S' = net_in S \<and> taken S' = taken S
    \<and> sockets (stk S') i = Some (s, Connecting 1) \<and> state s = SynSent \<and> seq s = 0 \<and> wf_socket s
    \<and> socket_tuple s = AddrTuple (local_addr s0) (fw_remote_addr F)
    \<and> channels (stk S') i = Some (flume_bounded K MPMC_BUFFER_LEN) \<and> readers (stk S') = readers (stk S) \<and> trace (stk S') \<noteq> []"
proof -
  let ?f = "(emit (From_client x d) (fwd S))\<lparr>main := Dialing x d\<rparr>"
  from connect_open_effect [OF co(1)] obtain dv u where
    i: "i = next_id (stk S)" and u: "client_end (fw_remote_addr F) u" and st1: "st1 = register K dv u None (Connecting 0) (stk S)" by blast
  have reg: "sockets st1 i = Some (socket_new dv i (tuple_local u) (tuple_remote u) None Idle, Connecting 0)"
    "channels st1 i = Some (flume_bounded K MPMC_BUFFER_LEN)" "readers st1 = readers (stk S)"
    unfolding st1 i by (simp_all add: register_def Let_def)
  with co(2) have s0: "s0 = socket_new dv i (tuple_local u) (tuple_remote u) None Idle" by simp
  have "ok st1" using connect_open_inv [OF _ co(1) start] inv by (simp add: session_inv_def)
  from sockets_okD [OF stack_invD(2) [OF this] reg(1)] have wf: "wf_socket s0"
    by (simp add: s0 wf_socket_def tuple_family_def socket_tuple_def)
  have "dialing S = None" using inv m(1) by (auto simp: session_inv_def session_link_def dial_ok_def)
  moreover have "calm_step L K F S (S\<lparr>fwd := ?f\<rparr>)"
    using calm_forwards [OF fwd_task [OF task_udp [OF m(1), of "Inr (d, x)" "Inr x"]]] m(2,3)
    by (simp add: udp_received_def udp_recv_pktinfo_def Let_def emit_def)
  moreover note calm_forwards [OF dial_opens [of "S\<lparr>fwd := ?f\<rparr>" x d start K draw F i st1 L]] start co(1)
  ultimately have run: "(calm_step L K F)\<^sup>*\<^sup>* S (S\<lparr>fwd := ?f, stk := st1, dialing := Some i\<rparr>)"
    by (intro run_two [of "calm_step L K F"]) simp_all
  let ?S = "S\<lparr>fwd := ?f, stk := st1, dialing := Some i\<rparr>" and ?s = "s0\<lparr>last_ack := ack s0, state := SynSent\<rparr>"
  have idle: "state s0 = Idle" "seq s0 = 0" by (simp_all add: s0 socket_new_def)
  obtain b where "connect_step L False (Inr 0) Timeout s0 = Ret (None, ?s, [b])" using connect_step_syn [OF idle(1) wf] by blast
  then have cp: "connect_poll L K False (Inr 0) i s0 0 (stk ?S) = Ret (put_socket i ?s (Connecting 1) [b] st1)"
    using idle(1) by (simp add: connect_poll_def poll_when_def RETRIES_def)
  let ?T = "handshake_result i x d (put_socket i ?s (Connecting 1) [b] st1) (take_packet i (handshake_input K i s0 0 (stk ?S)) ?S)"
  have "calm_step L K F ?S ?T"
    by (rule calm_forwards, rule dial_polls [OF _ _ _ cp]) (use reg(1) s0 in simp_all)
  with run have "(calm_step L K F)\<^sup>*\<^sup>* S ?T" by (rule rtranclp.rtrancl_into_rtrancl)
  moreover have "handshake_input K i s0 0 (stk ?S) = Timeout" using idle(1) by (simp add: handshake_input_def poll_when_def RETRIES_def)
  ultimately show ?thesis
    using reg idle wf u by (intro exI [of _ ?T] exI [of _ ?s] conjI)
      (simp_all add: handshake_result_def take_packet_def wf_socket_def socket_tuple_def s0 socket_new_def client_end_def)
qed

text \<open>The server's answer completes the handshake and \<open>connect\<close> returns the socket.\<close>

lemma connected_step:
  assumes m: "main (fwd S) = Dialing x d" "dialing S = Some i" "sockets (stk S) i = Some (s, Connecting m)" "m < RETRIES"
    and s: "state s = SynSent" "seq s = 0" "wf_socket s"
    and q: "channels (stk S) i = Some q" "flume_recv K q = Some (b, q')"
    and b: "carries L b Sg" "seg_flags Sg = 18" "seg_ack Sg = 1"
  shows "\<exists>S' s'. calm_step L K F S S' \<and> fwd S' = dialed True x d (fwd S) \<and> link S' = link S @ [(i, socket_tuple s)]
    \<and> net_in S' = net_in S \<and> sockets (stk S') i = Some (s', Owned) \<and> socket_tuple s' = socket_tuple s
    \<and> channels (stk S') i = Some q' \<and> readers (stk S') = readers (stk S)"
proof -
  let ?s = "synchronised s Sg\<lparr>state := Established\<rparr>" and ?st = "stk S\<lparr>channels := (channels (stk S))(i \<mapsto> q')\<rparr>"
  have poll: "poll_when (state s = SynSent) K i s (stk S) = (Received b, ?st)" using s(1) q by (simp add: poll_when_def poll_channel_def)
  obtain a where "connect_step L False (Inr 0) (Received b) s = Ret (Some (Some ()), ?s, [a])"
    using connect_step_established [OF s(1,3) b(1,2), of False 0] b(3) s(2) by (auto simp: add_u32_def)
  then have cp: "connect_poll L K False (Inr 0) i s m (stk S) = Ret (put_socket i ?s Owned [a] ?st)"
    using poll m(4) by (simp add: connect_poll_def)
  have tup: "socket_tuple ?s = socket_tuple s" by (simp add: socket_tuple_def synchronised_def)
  show ?thesis
    by (rule exI, rule exI [of _ ?s], rule conjI, rule calm_forwards, rule dial_polls [OF m(1-3) cp])
      (use tup in \<open>simp add: handshake_result_def take_packet_def\<close>)
qed

text \<open>The first datagram goes out over the new connection, which is entered into the table.\<close>

lemma greet_step:
  assumes inv: "session_ok F S" and m: "main (fwd S) = Greeting x c d" and s: "owns S c s"
  shows "\<exists>S' s'. calm_step L K F S S' \<and> link S' = link S \<and> net_in S' = net_in S \<and> owns S' c s'
    \<and> events (fwd S') = events (fwd S) @ [Tcp_send c d] \<and> table (fwd S') x = Some c \<and> main (fwd S') = Listening
    \<and> peer (conns (fwd S') ! c) = x \<and> worker_at c 0 (fwd S') Waiting
    \<and> channels (stk S') = channels (stk S) \<and> readers (stk S') = readers (stk S)"
proof -
  have p: "ok (stk S)" "fw_all (fwd S)" using inv by (simp_all add: session_inv_def)
  then have f: "table (fwd S) x = None" "c < length (conns (fwd S))" "peer (conns (fwd S) ! c) = x"
    using m by (auto simp: fw_all_def fw_inv_def fresh_connection_def)
  have "length d \<le> MAX_PACKET_LEN" using m held_fits [OF p(2), of x d] by auto
  then have "fits (local_addr s) 16 (Some d)" by (rule datagram_fits)
  with send_ok [of s d "Inr 0"] owned_ready [OF p(1) s [unfolded owns_def]] obtain s' buf where
    send: "socket_send L (Inr 0) d s = Ret (Some (), s', buf)" by auto
  obtain f' where g: "greeted (worker_count F) (Some ()) x c d (fwd S) = Ret f'"
    "events f' = events (fwd S) @ [Tcp_send c d]" "table f' x = Some c" "main f' = Listening" "peer (conns f' ! c) = x"
    "worker_at c 0 f' Waiting"
    using f by (auto simp: greeted_def Let_def fw_ops worker_at_def spawn_connection_timeout_def spawn_connection_workers_def)
  show ?thesis
    by (rule exI, rule exI [of _ s'], rule conjI, rule calm_forwards, rule sends_first [OF m s send g(1)])
      (use g in \<open>simp add: owns_def conn_socket_def\<close>)
qed

end

context stack_laws
begin

text \<open>The whole handshake with a server that answers.\<close>

lemma connect_run:
  assumes inv: "session_ok F S" and m: "main (fwd S) = Listening" "table (fwd S) x = None" "length d \<le> MAX_PACKET_LEN"
    and start: "32768 \<le> start" "start \<le> 60999"
    and co: "connect_open K start draw (fw_remote_addr F) (stk S) = Ret (Some (i, st1))" "sockets st1 i = Some (s0, ro)"
    and r: "reader_idle pending r (stk S)"
    and q: "flume_send K b (flume_bounded K MPMC_BUFFER_LEN) = Some q1" "flume_recv K q1 = Some (b, q2)"
    and b: "carries L b Sg" "length b \<le> MAX_PACKET_LEN" "seg_src Sg = fw_remote_addr F" "seg_dst Sg = local_addr s0"
      "seg_flags Sg = 18" "seg_ack Sg = 1"
  shows "\<exists>S' s. (calm_step L K F)\<^sup>*\<^sup>* S S' \<and> net_in S' = net_in S @ [b]
    \<and> fwd S' = dialed True x d ((emit (From_client x d) (fwd S))\<lparr>main := Dialing x d\<rparr>)
    \<and> link S' = link S @ [(i, AddrTuple (local_addr s0) (fw_remote_addr F))] \<and> sockets (stk S') i = Some (s, Owned)
    \<and> channels (stk S') i = Some q2 \<and> reader_idle pending r (stk S')"
proof -
  from dial_run [OF inv m start co] obtain S1 s1 where S1: "(calm_step L K F)\<^sup>*\<^sup>* S S1"
      "fwd S1 = (emit (From_client x d) (fwd S))\<lparr>main := Dialing x d\<rparr>" "dialing S1 = Some i" "link S1 = link S" "net_in S1 = net_in S"
    and s1: "sockets (stk S1) i = Some (s1, Connecting 1)" "state s1 = SynSent" "seq s1 = 0" "wf_socket s1"
      "socket_tuple s1 = AddrTuple (local_addr s0) (fw_remote_addr F)"
    and st1: "channels (stk S1) i = Some (flume_bounded K MPMC_BUFFER_LEN)" "readers (stk S1) = readers (stk S)" by blast
  have inv1: "session_ok F S1" by (rule session.run_inv [OF calm_run [OF S1(1)] inv])
  then have ok1: "ok (stk S1)" by (simp add: session_inv_def)
  have tup: "tuples (stk S1) (AddrTuple (seg_dst Sg) (seg_src Sg)) = Some i"
    using table_okD(1) [OF stack_invD(1) [OF ok1] s1(1)] s1(5) b(3,4) by simp
  from r obtain R where R: "readers (stk S1) r = Some R" "pc R = reader_pc.Waiting" "pending (purge R) = []"
    by (auto simp: reader_idle_def st1(2))
  from session_deliver [OF ok1 R packet_for_segment [OF b(1)] tup b(2) st1(1) q(1)] obtain S2 R' where
    S2: "(calm_step L K F)\<^sup>*\<^sup>* S1 S2" "S2 = S1\<lparr>net_in := net_in S1 @ [b],
       stk := set_reader r R' (stk S1\<lparr>channels := (channels (stk S1))(i \<mapsto> q1)\<rparr>)\<rparr>" "pc R' = reader_pc.Waiting" "purge R' = purge R"
    by blast
  have m2: "main (fwd S2) = Dialing x d" "dialing S2 = Some i" "sockets (stk S2) i = Some (s1, Connecting 1)" "(1::nat) < RETRIES"
    "channels (stk S2) i = Some q1" using S1 s1 by (simp_all add: S2(2) RETRIES_def)
  from connected_step [OF m2(1-4) s1(2-4) m2(5) q(2) b(1,5,6), of F] obtain S3 s3 where
    S3: "calm_step L K F S2 S3" "fwd S3 = dialed True x d (fwd S2)" "link S3 = link S2 @ [(i, socket_tuple s1)]" "net_in S3 = net_in S2"
      "sockets (stk S3) i = Some (s3, Owned)" "channels (stk S3) i = Some q2" "readers (stk S3) = readers (stk S2)" by blast
  have "(calm_step L K F)\<^sup>*\<^sup>* S S3" using S1(1) S2(1) S3(1) by (meson rtranclp_trans rtranclp.rtrancl_into_rtrancl)
  moreover have "reader_idle pending r (stk S3)" using S3(7) S2(2-4) R(3) by (simp add: reader_idle_def)
  ultimately show ?thesis
    using S1 S3 s1(5) by (intro exI [of _ S3] exI [of _ s3]) (simp add: S2(2))
qed

lemma open_run:
  assumes inv: "session_ok F S" and m: "main (fwd S) = Listening" "table (fwd S) x = None" "length d \<le> MAX_PACKET_LEN"
    and start: "32768 \<le> start" "start \<le> 60999"
    and co: "connect_open K start draw (fw_remote_addr F) (stk S) = Ret (Some (i, st1))" "sockets st1 i = Some (s0, ro)"
    and r: "reader_idle pending r (stk S)"
    and q: "flume_send K b (flume_bounded K MPMC_BUFFER_LEN) = Some q1" "flume_recv K q1 = Some (b, q2)"
    and b: "carries L b Sg" "length b \<le> MAX_PACKET_LEN" "seg_src Sg = fw_remote_addr F" "seg_dst Sg = local_addr s0"
      "seg_flags Sg = 18" "seg_ack Sg = 1"
  shows "\<exists>S' c s. (calm_step L K F)\<^sup>*\<^sup>* S S' \<and> c = length (conns (fwd S)) \<and> net_in S' = net_in S @ [b]
    \<and> events (fwd S') = events (fwd S) @ [From_client x d, Tcp_send c d] \<and> table (fwd S') x = Some c
    \<and> peer (conns (fwd S') ! c) = x \<and> worker_at c 0 (fwd S') Waiting \<and> owns S' c s \<and> local_of S' c = local_addr s0
    \<and> channels (stk S') (conn_socket S' c) = Some q2 \<and> reader_idle pending r (stk S')"
proof -
  from connect_run [OF inv m start co r q b] obtain S3 s3 where
    S3: "(calm_step L K F)\<^sup>*\<^sup>* S S3" "fwd S3 = dialed True x d ((emit (From_client x d) (fwd S))\<lparr>main := Dialing x d\<rparr>)"
      "link S3 = link S @ [(i, AddrTuple (local_addr s0) (fw_remote_addr F))]" "net_in S3 = net_in S @ [b]"
      "sockets (stk S3) i = Some (s3, Owned)" "channels (stk S3) i = Some q2" "reader_idle pending r (stk S3)" by blast
  have inv3: "session_ok F S3" by (rule session.run_inv [OF calm_run [OF S3(1)] inv])
  let ?c = "length (conns (fwd S))"
  have len: "length (link S) = ?c" using inv by (simp add: session_inv_def session_link_def link_ok_def alives_def)
  then have conn: "link S3 ! ?c = (i, AddrTuple (local_addr s0) (fw_remote_addr F))" "conn_socket S3 ?c = i"
    by (simp_all add: S3(3) nth_append conn_socket_def)
  have m3: "main (fwd S3) = Greeting x ?c d" by (simp add: S3(2) dialed_def emit_def)
  from greet_step [OF inv3 m3, of s3] conn S3(5) obtain S4 s4 where
    S4: "calm_step L K F S3 S4" "link S4 = link S3" "net_in S4 = net_in S3" "owns S4 ?c s4"
      "events (fwd S4) = events (fwd S3) @ [Tcp_send ?c d]" "table (fwd S4) x = Some ?c" "peer (conns (fwd S4) ! ?c) = x"
      "worker_at ?c 0 (fwd S4) Waiting" "channels (stk S4) = channels (stk S3)" "readers (stk S4) = readers (stk S3)"
    by (auto simp: owns_def)
  have "(calm_step L K F)\<^sup>*\<^sup>* S S4" using S3(1) S4(1) by (rule rtranclp.rtrancl_into_rtrancl)
  moreover have "events (fwd S4) = events (fwd S) @ [From_client x d, Tcp_send ?c d]"
    using S4(5) S3(2) by (simp add: dialed_def emit_def)
  moreover have "local_of S4 ?c = local_addr s0" "conn_socket S4 ?c = i"
    using conn S4(2) by (simp_all add: local_of_def conn_socket_def)
  moreover have "reader_idle pending r (stk S4)" using S3(7) S4(10) by (simp add: reader_idle_def)
  ultimately show ?thesis using S4 S3(4,6) by auto
qed

lemma round_trip_run:
  assumes inv: "session_ok F S" and m: "main (fwd S) = Listening" "table (fwd S) x = None" "length d \<le> MAX_PACKET_LEN"
    and start: "32768 \<le> start" "start \<le> 60999"
    and co: "connect_open K start draw (fw_remote_addr F) (stk S) = Ret (Some (i, st1))" "sockets st1 i = Some (s0, ro)"
    and r: "reader_idle pending r (stk S)"
    and q: "flume_send K b (flume_bounded K MPMC_BUFFER_LEN) = Some q1" "flume_recv K q1 = Some (b, q2)" "flume_send K b' q2 = Some q3"
    and b: "carries L b Sg" "length b \<le> MAX_PACKET_LEN" "seg_src Sg = fw_remote_addr F" "seg_dst Sg = local_addr s0"
      "seg_flags Sg = 18" "seg_ack Sg = 1"
    and b': "carries L b' Sg'" "length b' \<le> MAX_PACKET_LEN" "seg_src Sg' = fw_remote_addr F" "seg_dst Sg' = local_addr s0"
      "seg_flags Sg' AND 4 = 0" "seg_data Sg' \<noteq> []"
  shows "\<exists>S' c. (calm_step L K F)\<^sup>*\<^sup>* S S' \<and> net_in S' = net_in S @ [b, b']
    \<and> events (fwd S') = events (fwd S) @ [From_client x d, Tcp_send c d, Tcp_recv c (seg_data Sg'), To_client x (seg_data Sg')]
    \<and> sent_on_wire L (stk S') = sent_on_wire L (stk S) @ (if d = [] then [] else [(local_addr s0, d)])"
proof -
  from open_run [OF inv m start co r q(1,2) b] obtain S1 c s where
    S1: "(calm_step L K F)\<^sup>*\<^sup>* S S1" "net_in S1 = net_in S @ [b]" "events (fwd S1) = events (fwd S) @ [From_client x d, Tcp_send c d]"
      "peer (conns (fwd S1) ! c) = x" "worker_at c 0 (fwd S1) Waiting" "owns S1 c s" "local_of S1 c = local_addr s0"
      "channels (stk S1) (conn_socket S1 c) = Some q2" "reader_idle pending r (stk S1)" by blast
  have inv1: "session_ok F S1" by (rule session.run_inv [OF calm_run [OF S1(1)] inv])
  have "queued q2 = []" using flume_pop [OF q(2)] flume_push [OF q(1)] flume_new by simp
  from answer_run [OF inv1 S1(5,6,9,8) this q(3) b'(1-3) b'(4) [folded S1(7)] b'(5,6)] obtain S' where
    S': "(calm_step L K F)\<^sup>*\<^sup>* S1 S'" "net_in S' = net_in S1 @ [b']"
    "events (fwd S') = events (fwd S1) @ [Tcp_recv c (seg_data Sg'), To_client (peer (conns (fwd S1) ! c)) (seg_data Sg')]" by blast
  have run: "(calm_step L K F)\<^sup>*\<^sup>* S S'" using S1(1) S'(1) by (rule rtranclp_trans)
  have inv': "session_ok F S'" by (rule session.run_inv [OF calm_run [OF run] inv])
  have "c < length (link S1)"
    using S1(5) inv1 by (auto simp: worker_at_def session_inv_def session_link_def link_ok_def alives_def)
  then have "local_of S' c = local_addr s0" using local_of_kept [OF calm_run [OF S'(1)]] S1(7) by simp
  with run_sends_one [OF _ _ calm_run [OF run], of c d] inv inv' S'(3) S1(3)
  have "sent_on_wire L (stk S') = sent_on_wire L (stk S) @ (if d = [] then [] else [(local_addr s0, d)])"
    by (simp add: session_inv_def sends_def)
  with run S1 S' show ?thesis by (intro exI [of _ S'] exI [of _ c]) auto
qed

end

section \<open>A sample session\<close>

definition sample_forwarder :: ForwarderConfig where
  "sample_forwarder = \<lparr>fw_remote_addr = tuple_remote sample_tuple, fake_tcp_local_ipv4 = 3325256714,
     fake_tcp_local_ipv6 = None, worker_count = 2, udp_ttl = 180\<rparr>"

definition sample_session0 :: "(nat \<times> bytes list, nat \<times> nat list, nat \<times> AddrTuple list) Session" where
  "sample_session0 = session_new list_channels 0 sample_forwarder"

text \<open>A packet from the server of the sample to the client's end of its first connection.\<close>

definition server_reply :: "u8 \<Rightarrow> bytes \<Rightarrow> segment \<Rightarrow> bytes \<Rightarrow> bool" where
  "server_reply flags d Sg b \<longleftrightarrow> carries wire_lib b Sg \<and> length b \<le> MAX_PACKET_LEN \<and> seg_src Sg = tuple_remote sample_tuple
     \<and> seg_dst Sg = tuple_local sample_tuple \<and> seg_flags Sg = flags \<and> seg_ack Sg = 1 \<and> seg_data Sg = d"

lemma sample_reply:
  assumes "length d \<le> 1000"
  obtains Sg b where "server_reply flags d Sg b"
proof -
  have "same_family (tuple_remote sample_tuple) (tuple_local sample_tuple)" by (simp add: sample_tuple_def same_family_def)
  moreover have "fits (tuple_remote sample_tuple) flags (Some d)"
    using assms by (simp add: fits_def sample_tuple_def tcp_wire_len_def)
  ultimately obtain b where "carries wire_lib b \<lparr>seg_src = strip_scope (tuple_remote sample_tuple),
       seg_dst = strip_scope (tuple_local sample_tuple), seg_seq = 0, seg_ack = 1, seg_flags = flags, seg_data = d\<rparr>"
    "length b = packet_len (tuple_remote sample_tuple) flags (Some d)"
    using wire.build_carries [where seq = 0 and ack = 1 and payload = "Some d"] by fastforce
  with assms show ?thesis
    by (intro that) (auto simp: server_reply_def strip_scope_def sample_tuple_def packet_len_def tcp_wire_len_def MAX_PACKET_LEN_def)
qed

lemma sample_session0_sel:
  "stk sample_session0 = sample_stack0" "main (fwd sample_session0) = Listening" "table (fwd sample_session0) x = None"
  "conns (fwd sample_session0) = []" "events (fwd sample_session0) = []" "net_in sample_session0 = []"
  "fw_remote_addr sample_forwarder = tuple_remote sample_tuple"
  by (simp_all add: sample_session0_def session_new_def sample_forwarder_def sample_stack0_def fwd_new_def)

lemma sample_session0_idle: "reader_idle snd 0 (stk sample_session0)"
  by (simp add: sample_session0_sel sample_stack0_reader reader_idle_def)

lemma sample_session0_reachable: "session_reachable wire_lib list_channels sample_forwarder sample_session0"
  unfolding session_reachable_def sample_session0_def by blast

lemma sample_session0_opens:
  "connect_open list_channels 40000 0 (fw_remote_addr sample_forwarder) (stk sample_session0) = Ret (Some (0, sample_stack))"
  using sample_opens by (simp add: sample_session0_sel)

lemma sample_channel:
  "flume_send list_channels b (flume_bounded list_channels MPMC_BUFFER_LEN) = Some (512, [b])"
  "flume_recv list_channels (512, [b]) = Some (b, (512, []))" "flume_send list_channels b (512, []) = Some (512, [b])"
  by (simp_all add: list_channels_def MPMC_BUFFER_LEN_def)

lemma sample_session:
  obtains S s where "session_reachable wire_lib list_channels sample_forwarder S" "events (fwd S) = [From_client sample_peer [7], Tcp_send 0 [7]]"
    "table (fwd S) sample_peer = Some 0" "worker_at 0 0 (fwd S) Waiting" "owns S 0 s" "local_of S 0 = tuple_local sample_tuple"
    "peer (conns (fwd S) ! 0) = sample_peer" "channels (stk S) (conn_socket S 0) = Some (512, [])" "reader_idle snd 0 (stk S)"
proof -
  obtain Sg b where b: "server_reply 18 [] Sg b" by (rule sample_reply [of "[]"]) simp
  note b' = b [unfolded server_reply_def]
  have len: "length [7::8 word] \<le> MAX_PACKET_LEN" by (simp add: MAX_PACKET_LEN_def)
  have loc: "local_addr sample_socket = tuple_local sample_tuple" by (simp add: sample_socket_def socket_new_def)
  have "\<exists>S' c s. (calm_step wire_lib list_channels sample_forwarder)\<^sup>*\<^sup>* sample_session0 S' \<and> c = length (conns (fwd sample_session0))
    \<and> net_in S' = net_in sample_session0 @ [b] \<and> events (fwd S') = events (fwd sample_session0) @ [From_client sample_peer [7], Tcp_send c [7]]
    \<and> table (fwd S') sample_peer = Some c \<and> peer (conns (fwd S') ! c) = sample_peer \<and> worker_at c 0 (fwd S') Waiting
    \<and> owns S' c s \<and> local_of S' c = local_addr sample_socket
    \<and> channels (stk S') (conn_socket S' c) = Some (512, []) \<and> reader_idle snd 0 (stk S')"
    by (rule lists.open_run [OF lists.session_reachable_ok [OF sample_session0_reachable] sample_session0_sel(2,3) len _ _
          sample_session0_opens sample_stack_sel(1) sample_session0_idle sample_channel(1,2), where Sg = Sg])
      (use b' loc in \<open>simp_all add: sample_session0_sel\<close>)
  then obtain S s where S: "(calm_step wire_lib list_channels sample_forwarder)\<^sup>*\<^sup>* sample_session0 S"
    "events (fwd S) = [From_client sample_peer [7], Tcp_send 0 [7]]"
    "table (fwd S) sample_peer = Some 0" "peer (conns (fwd S) ! 0) = sample_peer" "worker_at 0 0 (fwd S) Waiting" "owns S 0 s"
    "local_of S 0 = local_addr sample_socket" "channels (stk S) (conn_socket S 0) = Some (512, [])" "reader_idle snd 0 (stk S)"
    by (auto simp: sample_session0_sel)
  have "session_reachable wire_lib list_channels sample_forwarder S"
    using calm_run [OF S(1)] unfolding session_reachable_def sample_session0_def by blast
  with S loc show ?thesis by (intro that) simp_all
qed

lemma idle_some_reader: "stack_inv L queued backlog pending st \<Longrightarrow> reader_idle pending r st \<Longrightarrow> some_reader st"
  unfolding stack_inv_def some_reader_def reader_idle_def by force

lemma sample_exchange:
  obtains S where "session_reachable wire_lib list_channels sample_forwarder S" "To_client sample_peer [8, 9] \<in> set (events (fwd S))"
proof -
  obtain S s where S: "session_reachable wire_lib list_channels sample_forwarder S" "worker_at 0 0 (fwd S) Waiting" "owns S 0 s"
    "local_of S 0 = tuple_local sample_tuple" "peer (conns (fwd S) ! 0) = sample_peer"
    "channels (stk S) (conn_socket S 0) = Some (512, [])" "reader_idle snd 0 (stk S)" by (rule sample_session)
  obtain Sg b where b: "server_reply 16 [8, 9] Sg b" by (rule sample_reply [of "[8, 9]"]) simp
  have "\<exists>S'. (calm_step wire_lib list_channels sample_forwarder)\<^sup>*\<^sup>* S S' \<and> net_in S' = net_in S @ [b]
      \<and> events (fwd S') = events (fwd S) @ [Tcp_recv 0 (seg_data Sg), To_client (peer (conns (fwd S) ! 0)) (seg_data Sg)]"
    by (rule lists.answer_run [OF lists.session_reachable_ok [OF S(1)] S(2,3,7,6) _ sample_channel(3)])
      (use b S(4) in \<open>simp_all add: server_reply_def sample_session0_sel\<close>)
  then obtain S' where S': "(calm_step wire_lib list_channels sample_forwarder)\<^sup>*\<^sup>* S S'"
    "events (fwd S') = events (fwd S) @ [Tcp_recv 0 [8, 9], To_client sample_peer [8, 9]]" using b S(5) by (auto simp: server_reply_def)
  have "session_reachable wire_lib list_channels sample_forwarder S'"
    using S(1) calm_run [OF S'(1)] unfolding session_reachable_def by (meson rtranclp_trans)
  moreover have "To_client sample_peer [8, 9] \<in> set (events (fwd S'))" unfolding S'(2) by simp
  ultimately show ?thesis by (rule that)
qed

lemma link_ok_socket:
  assumes "link_ok remote sh nxt av lk dl" "sh i = Some (u, ro)"
  shows "client_end remote u \<and> ((\<exists>c<length av. av ! c \<and> fst (lk ! c) = i \<and> ro = Owned) \<or> dl = Some i \<and> (\<exists>m. ro = Connecting m))"
proof (cases "dl = Some i")
  case True
  with assms show ?thesis by (auto simp: link_ok_def)
next
  case False
  with assms have "i \<in> fst ` set lk" by (auto simp: link_ok_def)
  then obtain c where "c < length lk" "fst (lk ! c) = i" by (auto simp: in_set_conv_nth)
  with assms have "c < length av" "av ! c" "ro = Owned" "client_end remote u" by (auto simp: link_ok_def split: if_splits)
  with \<open>fst (lk ! c) = i\<close> show ?thesis by blast
qed

section \<open>The client as one system\<close>

text \<open>
  C10: connections and sockets correspond. In every run of the client a connection that is not dropped
  has a socket of the stack, a dropped one has none, and there are no other sockets than that of a
  connection attempt under way. Every socket is connected to the configured server, and no two
  open connections share a local address. No socket is leaked and none is shared.
\<close>

theorem session_sockets_exact:
  assumes "stack_laws L K queued backlog pending capacity" and "session_reachable L K F S"
  shows "(\<forall>c<length (conns (fwd S)). alive (conns (fwd S) ! c) \<longleftrightarrow> (\<exists>s. owns S c s))
    \<and> (\<forall>i s ro. sockets (stk S) i = Some (s, ro) \<longrightarrow> remote_addr s = fw_remote_addr F
         \<and> ((\<exists>c<length (conns (fwd S)). alive (conns (fwd S) ! c) \<and> conn_socket S c = i \<and> ro = Owned)
            \<or> dialing S = Some i \<and> (\<exists>x d m. main (fwd S) = Dialing x d \<and> ro = Connecting m)))
    \<and> (\<forall>c<length (conns (fwd S)). \<forall>e<length (conns (fwd S)). alive (conns (fwd S) ! c) \<longrightarrow> alive (conns (fwd S) ! e)
         \<longrightarrow> local_of S c = local_of S e \<longrightarrow> c = e)"
proof (intro conjI allI impI)
  note ok = stack_laws.session_reachable_ok [OF assms]
  then have lk: "link_ok (fw_remote_addr F) (shape (stk S)) (next_id (stk S)) (alives (fwd S)) (link S) (dialing S)"
    and dl: "dial_ok (dialing S) (main (fwd S))" and sl: "session_link F S" by (simp_all add: session_inv_def session_link_def)
  show "alive (conns (fwd S) ! c) \<longleftrightarrow> (\<exists>s. owns S c s)" if "c < length (conns (fwd S))" for c
    using session_link_alive [OF sl that] lk that
    by (auto simp: link_ok_def alives_def owns_def conn_socket_def split: if_splits)
  fix i s ro assume "sockets (stk S) i = Some (s, ro)"
  then have sh: "shape (stk S) i = Some (socket_tuple s, ro)" by (simp add: shape_def)
  show "remote_addr s = fw_remote_addr F"
    using link_ok_socket [OF lk sh] by (auto simp: client_end_def socket_tuple_def)
  show "(\<exists>c<length (conns (fwd S)). alive (conns (fwd S) ! c) \<and> conn_socket S c = i \<and> ro = Owned)
      \<or> dialing S = Some i \<and> (\<exists>x d m. main (fwd S) = Dialing x d \<and> ro = Connecting m)"
    using link_ok_socket [OF lk sh] dl by (auto simp: alives_def conn_socket_def dial_ok_def)
next
  show "c = e" if "c < length (conns (fwd S))" "e < length (conns (fwd S))" "alive (conns (fwd S) ! c)"
    "alive (conns (fwd S) ! e)" "local_of S c = local_of S e" for c e
    by (rule stack_laws.locals_distinct [OF assms(1) stack_laws.session_reachable_ok [OF assms] that])
qed

theorem session_sockets_exact_witness:
  "\<exists>S s. session_reachable wire_lib list_channels sample_forwarder S \<and> owns S 0 s \<and> remote_addr s = tuple_remote sample_tuple
     \<and> alive (conns (fwd S) ! 0)"
proof -
  obtain S s where S: "session_reachable wire_lib list_channels sample_forwarder S" "worker_at 0 0 (fwd S) Waiting" "owns S 0 s"
    by (rule sample_session)
  from session_sockets_exact [OF stack_laws_lists S(1)] S(2,3)
  have "alive (conns (fwd S) ! 0)" "remote_addr s = fw_remote_addr sample_forwarder" by (auto simp: worker_at_def owns_def)
  with S show ?thesis by (auto simp: sample_session0_sel)
qed

text \<open>
  C2: from the clients to the wire. In every run the payloads that packets on the wire carry to the
  server are exactly the datagrams the forwarder sent, in its order, each from the local address of the
  sender's connection; and these datagrams, with the clients they came from, are a part of the datagrams
  the clients sent, in the order of arrival. Nothing is invented, duplicated, reordered or mixed up
  between clients; a datagram can only be lost.
\<close>

theorem session_upstream:
  assumes "stack_laws L K queued backlog pending capacity" and "session_reachable L K F S"
  shows "sent_on_wire L (stk S) = map (\<lambda>(c, d). (local_of S c, d)) (sends (fwd S))
    \<and> subseq (map (\<lambda>(c, d). (peer (conns (fwd S) ! c), d)) (sends (fwd S))) (concat (map from_client (events (fwd S))))"
  using stack_laws.session_reachable_ok [OF assms] session_sends_subseq
  by (simp add: session_inv_def session_wire_def)

theorem session_upstream_witness:
  "\<exists>S. session_reachable wire_lib list_channels sample_forwarder S
     \<and> sent_on_wire wire_lib (stk S) = [(tuple_local sample_tuple, [7])]
     \<and> subseq [(peer (conns (fwd S) ! 0), [7 :: 8 word])] [(sample_peer, [7])]"
proof -
  obtain S where S: "session_reachable wire_lib list_channels sample_forwarder S" "local_of S 0 = tuple_local sample_tuple"
    "events (fwd S) = [From_client sample_peer [7], Tcp_send 0 [7]]" by (rule sample_session)
  then have "sends (fwd S) = [(0, [7])]" "concat (map from_client (events (fwd S))) = [(sample_peer, [7])]"
    by (simp_all add: sends_def)
  with session_upstream [OF stack_laws_lists S(1)] S(1,2) show ?thesis by (intro exI [of _ S]) (simp del: subseq_Cons2_iff)
qed

text \<open>
  C3: from the wire to the clients. In every run, what the workers of a connection received are the
  payloads of packets that the device delivered, in that order, all of them from the configured
  server to the local address of this connection; and everything a client was sent was received on a
  connection of this client.
\<close>

theorem session_downstream:
  assumes "stack_laws L K queued backlog pending capacity" and "session_reachable L K F S"
  shows "(\<forall>c<length (conns (fwd S)). \<exists>bs. subseq bs (net_in S)
       \<and> list_all2 (\<lambda>b d. \<exists>Sg. carries L b Sg \<and> seg_src Sg = fw_remote_addr F \<and> seg_dst Sg = local_of S c \<and> seg_data Sg = d)
           bs (recvs c (fwd S)))
    \<and> (\<forall>x d. To_client x d \<in> set (events (fwd S))
         \<longrightarrow> (\<exists>c<length (conns (fwd S)). peer (conns (fwd S) ! c) = x \<and> d \<in> set (recvs c (fwd S))))"
proof -
  note ok = stack_laws.session_reachable_ok [OF assms]
  have "session_link F S" "session_fifo L queued S" "session_recvs L S" "fw_all (fwd S)" using ok by (simp_all add: session_inv_def)
  then show ?thesis
    using recvs_packets [OF _ _ _ _ stack_laws.axioms(1) [OF assms(1)]] answers_received by blast
qed

theorem session_downstream_witness:
  "\<exists>S c b Sg. session_reachable wire_lib list_channels sample_forwarder S \<and> peer (conns (fwd S) ! c) = sample_peer
     \<and> b \<in> set (net_in S) \<and> carries wire_lib b Sg \<and> seg_src Sg = tuple_remote sample_tuple \<and> seg_data Sg = [8, 9]"
proof -
  obtain S where S: "session_reachable wire_lib list_channels sample_forwarder S" "To_client sample_peer [8, 9] \<in> set (events (fwd S))"
    by (rule sample_exchange)
  note down = session_downstream [OF stack_laws_lists S(1)]
  from down S(2) obtain c where c: "c < length (conns (fwd S))" "peer (conns (fwd S) ! c) = sample_peer" "[8, 9] \<in> set (recvs c (fwd S))"
    by blast
  from down c(1) obtain bs where bs: "subseq bs (net_in S)" "list_all2 (\<lambda>b d. \<exists>Sg. carries wire_lib b Sg
      \<and> seg_src Sg = fw_remote_addr sample_forwarder \<and> seg_dst Sg = local_of S c \<and> seg_data Sg = d) bs (recvs c (fwd S))" by blast
  from c(3) obtain i where i: "i < length (recvs c (fwd S))" "recvs c (fwd S) ! i = [8, 9]" by (auto simp: in_set_conv_nth)
  with bs(2) obtain Sg where "bs ! i \<in> set bs" "carries wire_lib (bs ! i) Sg" "seg_src Sg = fw_remote_addr sample_forwarder"
    "seg_data Sg = [8, 9]" by (auto simp: list_all2_conv_all_nth)
  with subseq_set [OF bs(1)] c(2) S(1) show ?thesis by (auto simp: sample_session0_sel)
qed

text \<open>
  C21: which operations of the forwarder can panic. In every run of the release build, the sending of a datagram over an existing or a
  new connection returns, and so does every receive of a worker; as long as a reader runs, every iteration of
  a connection attempt and every drop of a socket returns as well. The start of a connection attempt, which
  chooses the local address, panics exactly when the server's address is IPv6 and the configuration has no local IPv6 address.
\<close>

theorem session_never_panics:
  assumes "stack_laws L K queued backlog pending capacity" and "session_reachable L K F S"
  shows "(\<forall>x c d res. main (fwd S) = Sending x c d \<or> main (fwd S) = Greeting x c d
        \<longrightarrow> (\<exists>s v s' buf. owns S c s \<and> socket_send L res d s = Ret (v, s', buf)))
    \<and> (\<forall>c w. worker_at c w (fwd S) Waiting \<longrightarrow> (\<exists>s. owns S c s
        \<and> (\<forall>ev st1 buf. poll_channel K (conn_socket S c) s (stk S) = (ev, st1) \<and> ev \<noteq> Timeout \<and> length buf = MAX_PACKET_LEN
             \<longrightarrow> \<not> panics (socket_recv L (received ev) buf s))))
    \<and> (some_reader (stk S) \<longrightarrow>
        (\<forall>c<length (conns (fwd S)). alive (conns (fwd S) ! c)
          \<longrightarrow> (\<exists>s st'. owns S c s \<and> socket_drop L K (conn_socket S c) s (stk S) = Ret st'))
        \<and> (\<forall>i res. dialing S = Some i
          \<longrightarrow> (\<exists>s m st'. sockets (stk S) i = Some (s, Connecting m) \<and> connect_poll L K False res i s m (stk S) = Ret st')))
    \<and> (\<forall>start\<le>60999. \<forall>draw. panics (connect_open K start draw (fw_remote_addr F) (stk S))
         \<longleftrightarrow> \<not> is_ipv4 (fw_remote_addr F) \<and> fake_tcp_local_ipv6 F = None)"
proof (intro conjI)
  note total = stack_laws.session_total [OF assms(1) stack_laws.session_reachable_ok [OF assms]]
  show "some_reader (stk S) \<longrightarrow>
        (\<forall>c<length (conns (fwd S)). alive (conns (fwd S) ! c)
          \<longrightarrow> (\<exists>s st'. owns S c s \<and> socket_drop L K (conn_socket S c) s (stk S) = Ret st'))
        \<and> (\<forall>i res. dialing S = Some i
          \<longrightarrow> (\<exists>s m st'. sockets (stk S) i = Some (s, Connecting m) \<and> connect_poll L K False res i s m (stk S) = Ret st'))"
    using total(3,4) by blast
qed (use stack_laws.session_total(1,2) [OF assms(1) stack_laws.session_reachable_ok [OF assms]] session_open_panics [OF assms(2)] in blast)+

theorem session_never_panics_witness:
  "\<exists>S s st'. session_reachable wire_lib list_channels sample_forwarder S \<and> owns S 0 s
     \<and> socket_drop wire_lib list_channels (conn_socket S 0) s (stk S) = Ret st'"
proof -
  obtain S s where S: "session_reachable wire_lib list_channels sample_forwarder S" "worker_at 0 0 (fwd S) Waiting" "owns S 0 s"
    "reader_idle snd 0 (stk S)" by (rule sample_session)
  have ok: "session_inv wire_lib snd snd snd sample_forwarder S" by (rule lists.session_reachable_ok [OF S(1)])
  have "alive (conns (fwd S) ! 0)" "0 < length (conns (fwd S))"
    using S(2) ok referenced_alive worker_referenced [OF S(2)] by (auto simp: worker_at_def session_inv_def fw_all_def)
  moreover have "lists.ok (stk S)" using ok by (simp add: session_inv_def)
  then have "some_reader (stk S)" by (rule idle_some_reader [OF _ S(4)])
  ultimately show ?thesis using session_never_panics [OF stack_laws_lists S(1)] S by blast
qed

text \<open>
  C4: a whole exchange. Take a reachable state in which the main loop listens, the reader waits for a packet and has read its
  purge messages, and a local port is free; a datagram of a client that has no connection; and a server that answers the
  connection request with its SYN+ACK and then sends data. When the channel of the new socket takes these two packets, the client
  can run so that it connects, hands the device exactly this datagram for the server, from the address of the new
  connection (nothing for an empty one), and sends the server's data to the client that
  sent the datagram, the device delivering nothing but the server's two packets.
\<close>

theorem session_round_trip:
  assumes "stack_laws L K queued backlog pending capacity" and "session_reachable L K F S"
    and "main (fwd S) = Listening" and "table (fwd S) x = None" and "length d \<le> MAX_PACKET_LEN"
    and "32768 \<le> start" and "start \<le> 60999"
    and "connect_open K start draw (fw_remote_addr F) (stk S) = Ret (Some (i, st1))" and "sockets st1 i = Some (s0, ro)"
    and "reader_idle pending r (stk S)"
    and "flume_send K b (flume_bounded K MPMC_BUFFER_LEN) = Some q1" and "flume_recv K q1 = Some (b, q2)"
    and "flume_send K b' q2 = Some q3"
    and "carries L b Sg" and "length b \<le> MAX_PACKET_LEN" and "seg_src Sg = fw_remote_addr F" and "seg_dst Sg = local_addr s0"
    and "seg_flags Sg = 18" and "seg_ack Sg = 1"
    and "carries L b' Sg'" and "length b' \<le> MAX_PACKET_LEN" and "seg_src Sg' = fw_remote_addr F" and "seg_dst Sg' = local_addr s0"
    and "seg_flags Sg' AND 4 = 0" and "seg_data Sg' \<noteq> []"
  shows "\<exists>S' c. (session_step L K F)\<^sup>*\<^sup>* S S' \<and> net_in S' = net_in S @ [b, b']
    \<and> events (fwd S') = events (fwd S) @ [From_client x d, Tcp_send c d, Tcp_recv c (seg_data Sg'), To_client x (seg_data Sg')]
    \<and> sent_on_wire L (stk S') = sent_on_wire L (stk S) @ (if d = [] then [] else [(local_addr s0, d)])"
  using stack_laws.round_trip_run [OF assms(1) stack_laws.session_reachable_ok [OF assms(1,2)] assms(3-25)] calm_run by blast

theorem session_round_trip_witness:
  "\<exists>S b b'. (session_step wire_lib list_channels sample_forwarder)\<^sup>*\<^sup>* sample_session0 S \<and> net_in S = [b, b']
     \<and> (\<exists>c. events (fwd S) = [From_client sample_peer [7], Tcp_send c [7], Tcp_recv c [8, 9], To_client sample_peer [8, 9]])
     \<and> sent_on_wire wire_lib (stk S) = [(tuple_local sample_tuple, [7])]"
proof -
  obtain Sg b where b: "server_reply 18 [] Sg b" by (rule sample_reply [of "[]"]) simp
  obtain Sg' b' where b': "server_reply 16 [8, 9] Sg' b'" by (rule sample_reply [of "[8, 9]"]) simp
  note bs = b [unfolded server_reply_def] b' [unfolded server_reply_def]
  have len: "length [7::8 word] \<le> MAX_PACKET_LEN" by (simp add: MAX_PACKET_LEN_def)
  have loc: "local_addr sample_socket = tuple_local sample_tuple" by (simp add: sample_socket_def socket_new_def)
  have wire0: "sent_on_wire wire_lib (stk sample_session0) = []"
    by (simp add: sample_session0_def session_new_def stack_new_def sent_on_wire_def)
  have "\<exists>S' c. (session_step wire_lib list_channels sample_forwarder)\<^sup>*\<^sup>* sample_session0 S' \<and> net_in S' = net_in sample_session0 @ [b, b']
    \<and> events (fwd S') = events (fwd sample_session0) @ [From_client sample_peer [7], Tcp_send c [7], Tcp_recv c (seg_data Sg'), To_client sample_peer (seg_data Sg')]
    \<and> sent_on_wire wire_lib (stk S') = sent_on_wire wire_lib (stk sample_session0) @ (if [7::8 word] = [] then [] else [(local_addr sample_socket, [7])])"
    by (rule session_round_trip [OF stack_laws_lists sample_session0_reachable sample_session0_sel(2,3) len _ _
          sample_session0_opens sample_stack_sel(1) sample_session0_idle sample_channel(1,2,3), where Sg = Sg])
      (use bs loc in \<open>simp_all add: sample_session0_sel\<close>)
  with bs loc wire0 show ?thesis by (auto simp: sample_session0_sel)
qed

end
