(* ===== verification/Receive.thy ===== *)
theory Receive
  imports Device "HOL-Library.Multiset" "HOL-Library.Sublist"
begin

text \<open>
  The reader's \<open>select!\<close> between the device and the purge channel (\<open>reader_task\<close> of \<open>lib.rs\<close>) together with
  \<open>BpfCapture::read_packet\<close>: what happens to packets when a receive is dropped half-way. An error of a
  read ends the reader and with it the run.
\<close>

section \<open>The receive branch of the reader loop\<close>

text \<open>
  The reader task waits in \<open>select!\<close> for \<open>tun.recv\<close> and for a purge message. \<open>read_packet\<close> either returns a
  queued packet at once or suspends on a blocking task that reads one buffer of records (\<open>rx_waiting\<close>).
  When the purge message comes first, \<open>select!\<close> drops the suspended call; the blocking task goes on without
  anybody to take its result (\<open>rx_orphans\<close>). \<open>rx_kernel\<close> are the buffers that reads of the BPF device will
  return. The last four fields record what happened: the number of dropped calls, the buffers that
  were read for a waiting call and those read by tasks left behind, and the packets the reader got.
\<close>

record Recv =
  rx_cap :: BpfCapture
  rx_waiting :: bool
  rx_orphans :: nat
  rx_kernel :: "bytes list"
  rx_cancels :: nat
  rx_read :: "bytes list"
  rx_lost :: "bytes list"
  rx_out :: "bytes list"

definition recv_start :: "BpfCapture \<Rightarrow> bytes list \<Rightarrow> Recv" where
  "recv_start cap bufs = \<lparr>rx_cap = cap, rx_waiting = False, rx_orphans = 0, rx_kernel = bufs, rx_cancels = 0,
     rx_read = [], rx_lost = [], rx_out = []\<rparr>"

text \<open>\<open>copy_pending_packet\<close>, and the spawning of the blocking task when there is no packet.\<close>

definition recv_poll :: "Recv \<Rightarrow> Recv" where
  "recv_poll st =
     (case copy_pending_packet (replicate MAX_PACKET_LEN 0) (queue (rx_cap st)) of
        (Some n, buf, q) \<Rightarrow> st\<lparr>rx_cap := (rx_cap st)\<lparr>queue := q\<rparr>, rx_out := rx_out st @ [take n buf]\<rparr>
      | (None, buf, q) \<Rightarrow> st\<lparr>rx_cap := (rx_cap st)\<lparr>queue := q\<rparr>, rx_waiting := True\<rparr>)"

text \<open>The blocking task returned the next buffer; its packets are queued and the loop starts again.\<close>

definition recv_records :: "packet_lib \<Rightarrow> libc_abi \<Rightarrow> Recv \<Rightarrow> Recv option" where
  "recv_records L C st =
     (case rx_kernel st of
        [] \<Rightarrow> None
      | r # rs \<Rightarrow>
          (case decode_records L C r (link_type (rx_cap st)) (cap_remote (rx_cap st)) of
             Ret (Inr packets) \<Rightarrow>
               Some (st\<lparr>rx_cap := (rx_cap st)\<lparr>queue := queue (rx_cap st) @ packets\<rparr>, rx_waiting := False,
                        rx_kernel := rs, rx_read := rx_read st @ [r]\<rparr>)
           | _ \<Rightarrow> None))"

inductive recv_step :: "packet_lib \<Rightarrow> libc_abi \<Rightarrow> Recv \<Rightarrow> Recv \<Rightarrow> bool" for L :: packet_lib and C :: libc_abi where
  polls: "\<not> rx_waiting st \<Longrightarrow> recv_step L C st (recv_poll st)"
| reads_records: "rx_waiting st \<Longrightarrow> recv_records L C st = Some st' \<Longrightarrow> recv_step L C st st'"
| reads_nothing: "rx_waiting st \<Longrightarrow> recv_step L C st (st\<lparr>rx_waiting := False\<rparr>)"
| purge_first: "rx_waiting st \<Longrightarrow>
    recv_step L C st (st\<lparr>rx_waiting := False, rx_orphans := rx_orphans st + 1, rx_cancels := rx_cancels st + 1\<rparr>)"
| orphan_reads: "rx_orphans st = Suc k \<Longrightarrow> rx_kernel st = r # rs \<Longrightarrow>
    recv_step L C st (st\<lparr>rx_orphans := k, rx_kernel := rs, rx_lost := rx_lost st @ [r]\<rparr>)"
| orphan_ends: "rx_orphans st = Suc k \<Longrightarrow> recv_step L C st (st\<lparr>rx_orphans := k\<rparr>)"

section \<open>What the reader gets\<close>

text \<open>The packets of the server in a buffer of records that are not too long for the reader.\<close>

definition packets_in :: "packet_lib \<Rightarrow> libc_abi \<Rightarrow> BpfCapture \<Rightarrow> bytes \<Rightarrow> bytes list" where
  "packets_in L C cap r = (case decode_records L C r (link_type cap) (cap_remote cap) of Ret (Inr ps) \<Rightarrow> ps | _ \<Rightarrow> [])"

abbreviation fitting :: "bytes list \<Rightarrow> bytes list" where
  "fitting ps \<equiv> filter (\<lambda>p. length p \<le> MAX_PACKET_LEN) ps"

definition recv_inv :: "packet_lib \<Rightarrow> libc_abi \<Rightarrow> BpfCapture \<Rightarrow> bytes list \<Rightarrow> Recv \<Rightarrow> bool" where
  "recv_inv L C cap bufs st \<longleftrightarrow>
     link_type (rx_cap st) = link_type cap \<and> cap_remote (rx_cap st) = cap_remote cap
     \<and> rx_out st @ fitting (queue (rx_cap st)) = fitting (queue cap @ concat (map (packets_in L C cap) (rx_read st)))
     \<and> mset bufs = mset (rx_read st) + mset (rx_lost st) + mset (rx_kernel st)
     \<and> (\<exists>used. bufs = used @ rx_kernel st \<and> subseq (rx_read st) used)
     \<and> length (rx_lost st) + rx_orphans st \<le> rx_cancels st"

lemma copy_pending_fitting:
  "copy_pending_packet (replicate MAX_PACKET_LEN 0) ps = (Some n, buf, q) \<Longrightarrow> fitting ps = take n buf # fitting q"
  "copy_pending_packet (replicate MAX_PACKET_LEN 0) ps = (None, buf, q) \<Longrightarrow> fitting ps = [] \<and> q = []"
  by (induction ps) (auto simp: write_at_def split: if_splits)

lemma recv_inv_start: "recv_inv L C cap bufs (recv_start cap bufs)"
  by (simp add: recv_inv_def recv_start_def)

lemma recv_inv_poll:
  assumes "recv_inv L C cap bufs st"
  shows "recv_inv L C cap bufs (recv_poll st)"
proof -
  obtain m buf q where c: "copy_pending_packet (replicate MAX_PACKET_LEN 0) (queue (rx_cap st)) = (m, buf, q)"
    by (cases "copy_pending_packet (replicate MAX_PACKET_LEN 0) (queue (rx_cap st))") auto
  with assms copy_pending_fitting [of "queue (rx_cap st)"] show ?thesis
    by (cases m) (auto simp: recv_inv_def recv_poll_def)
qed

lemma recv_inv_step:
  assumes "recv_inv L C cap bufs st" "recv_step L C st st'"
  shows "recv_inv L C cap bufs st'"
  using assms(2,1)
proof (induction rule: recv_step.induct)
  case (polls st)
  then show ?case by (simp add: recv_inv_poll)
next
  case (reads_records st st')
  then obtain r rs ps where r: "rx_kernel st = r # rs"
    "decode_records L C r (link_type (rx_cap st)) (cap_remote (rx_cap st)) = Ret (Inr ps)"
    "st' = st\<lparr>rx_cap := (rx_cap st)\<lparr>queue := queue (rx_cap st) @ ps\<rparr>, rx_waiting := False,
                        rx_kernel := rs, rx_read := rx_read st @ [r]\<rparr>"
    by (auto simp: recv_records_def split: list.splits outcome.splits sum.splits)
  moreover have "packets_in L C cap r = ps" using r(2) reads_records(3) by (simp add: recv_inv_def packets_in_def)
  moreover obtain used where "bufs = used @ r # rs" "subseq (rx_read st) used" using reads_records(3) r(1) by (auto simp: recv_inv_def)
  moreover from this have "bufs = (used @ [r]) @ rs" "subseq (rx_read st @ [r]) (used @ [r])"
    by (auto intro: list_emb_append_mono)
  ultimately show ?case using reads_records(3) by (fastforce simp: recv_inv_def simp flip: append_assoc)
next
  case (orphan_reads st k r rs)
  then obtain used where "bufs = used @ r # rs" "subseq (rx_read st) used" by (auto simp: recv_inv_def)
  then have "bufs = (used @ [r]) @ rs" "subseq (rx_read st) (used @ [r])" by (auto intro: list_emb_append2)
  with orphan_reads show ?case by (fastforce simp: recv_inv_def)
qed (auto simp: recv_inv_def)

interpretation recv: step_invariant "\<lambda>st. st = recv_start cap bufs" "recv_step L C" "recv_inv L C cap bufs"
  for cap bufs L C
  by unfold_locales (auto intro: recv_inv_start recv_inv_step)

section \<open>A call of the device is a run\<close>

definition records_in :: "bytes option list \<Rightarrow> bytes list" where
  "records_in xs = concat (map (\<lambda>x. case x of None \<Rightarrow> [] | Some r \<Rightarrow> [r]) xs)"

lemma records_in_simps [simp]:
  "records_in [] = []" "records_in (None # xs) = records_in xs" "records_in (Some r # xs) = r # records_in xs"
  by (simp_all add: records_in_def)

lemma poll_waits:
  assumes "copy_pending_packet (replicate MAX_PACKET_LEN 0) (queue (rx_cap st)) = (None, buf, q)" "\<not> rx_waiting st"
  shows "recv_step L C st (st\<lparr>rx_cap := (rx_cap st)\<lparr>queue := []\<rparr>, rx_waiting := True\<rparr>)"
  using polls [OF assms(2), of L C] copy_pending_None [OF assms(1)] assms(1) by (simp add: recv_poll_def)

text \<open>One iteration of the loop of \<open>read_packet\<close> in which the queue holds no packet.\<close>

lemma recv_round:
  assumes c: "copy_pending_packet (replicate MAX_PACKET_LEN 0) (queue (rx_cap st)) = (None, b, q)"
    and rd: "read_packet L C (Inr (Inr x) # rounds) (replicate MAX_PACKET_LEN 0) (rx_cap st) = Some (Ret (Inr n, buf, cap'))"
    and st: "\<not> rx_waiting st" "rx_kernel st = records_in [x] @ ks"
  shows "\<exists>st1. (recv_step L C)\<^sup>*\<^sup>* st st1 \<and> \<not> rx_waiting st1 \<and> rx_kernel st1 = ks \<and> rx_out st1 = rx_out st \<and> rx_cancels st1 = rx_cancels st
    \<and> read_packet L C rounds (replicate MAX_PACKET_LEN 0) (rx_cap st1) = Some (Ret (Inr n, buf, cap'))"
proof -
  let ?w = "st\<lparr>rx_cap := (rx_cap st)\<lparr>queue := []\<rparr>, rx_waiting := True\<rparr>"
  have w: "recv_step L C st ?w" by (rule poll_waits [OF c st(1)])
  have q: "q = []" "b = replicate MAX_PACKET_LEN 0" using copy_pending_None [OF c] by simp_all
  show ?thesis
  proof (cases x)
    case None
    have "(recv_step L C)\<^sup>*\<^sup>* st (?w\<lparr>rx_waiting := False\<rparr>)" using w reads_nothing [of ?w L C] by auto
    with None rd c q st show ?thesis
      by (intro exI [of _ "?w\<lparr>rx_waiting := False\<rparr>"]) (simp add: read_packet.simps [of _ _ "_ # _"])
  next
    case (Some r)
    with rd c q obtain ps where ps: "decode_records L C r (link_type (rx_cap st)) (cap_remote (rx_cap st)) = Ret (Inr ps)"
      "read_packet L C rounds (replicate MAX_PACKET_LEN 0) ((rx_cap st)\<lparr>queue := ps\<rparr>) = Some (Ret (Inr n, buf, cap'))"
      by (auto simp: read_packet.simps [of _ _ "_ # _"] Let_def split: outcome.splits sum.splits)
    let ?s = "?w\<lparr>rx_cap := (rx_cap st)\<lparr>queue := ps\<rparr>, rx_waiting := False, rx_kernel := ks, rx_read := rx_read st @ [r]\<rparr>"
    have "recv_records L C ?w = Some ?s" using ps(1) Some st(2) by (simp add: recv_records_def)
    with w reads_records [of ?w L C ?s] have "(recv_step L C)\<^sup>*\<^sup>* st ?s" by auto
    with ps(2) show ?thesis by (intro exI [of _ ?s]) simp
  qed
qed

text \<open>
  A call of \<open>read_packet\<close> that returns a packet is a run without cancellation that consumes some of the
  buffers and hands the same packet to the reader.
\<close>

lemma read_packet_run:
  assumes "read_packet L C (map (\<lambda>x. Inr (Inr x)) xs) (replicate MAX_PACKET_LEN 0) (rx_cap st) = Some (Ret (Inr n, buf, cap'))"
    and "\<not> rx_waiting st" "rx_kernel st = records_in xs @ rest"
  shows "\<exists>st' ys zs. (recv_step L C)\<^sup>*\<^sup>* st st' \<and> xs = ys @ zs \<and> rx_kernel st' = records_in zs @ rest \<and> \<not> rx_waiting st'
    \<and> rx_cap st' = cap' \<and> rx_out st' = rx_out st @ [take n buf] \<and> rx_cancels st' = rx_cancels st"
  using assms
proof (induction xs arbitrary: st)
  case Nil
  then have "recv_poll st = st\<lparr>rx_cap := cap', rx_out := rx_out st @ [take n buf]\<rparr>"
    by (auto simp: read_packet.simps [of _ _ "[]"] recv_poll_def split: prod.splits option.splits)
  with polls [OF Nil(2), of L C] Nil show ?case
    by (intro exI [of _ "st\<lparr>rx_cap := cap', rx_out := rx_out st @ [take n buf]\<rparr>"] exI [of _ "[]"]) auto
next
  case (Cons x xs)
  obtain m b q where c: "copy_pending_packet (replicate MAX_PACKET_LEN 0) (queue (rx_cap st)) = (m, b, q)"
    by (cases "copy_pending_packet (replicate MAX_PACKET_LEN 0) (queue (rx_cap st))") auto
  show ?case
  proof (cases m)
    case (Some k)
    let ?s = "st\<lparr>rx_cap := (rx_cap st)\<lparr>queue := q\<rparr>, rx_out := rx_out st @ [take k b]\<rparr>"
    have "recv_step L C st ?s" using polls [OF Cons.prems(2), of L C] Some c by (simp add: recv_poll_def)
    with Some c Cons.prems show ?thesis
      by (intro exI [of _ ?s] exI [of _ "[]"] exI [of _ "x # xs"]) (auto simp: read_packet.simps [of _ _ "_ # _"])
  next
    case None
    have "rx_kernel st = records_in [x] @ records_in xs @ rest" using Cons.prems(3) by (cases x) simp_all
    from recv_round [OF c [unfolded None] Cons.prems(1) [unfolded list.map] Cons.prems(2) this] obtain st1 where
      st1: "(recv_step L C)\<^sup>*\<^sup>* st st1" "\<not> rx_waiting st1" "rx_kernel st1 = records_in xs @ rest" "rx_out st1 = rx_out st"
        "rx_cancels st1 = rx_cancels st"
      and rd: "read_packet L C (map (\<lambda>x. Inr (Inr x)) xs) (replicate MAX_PACKET_LEN 0) (rx_cap st1) = Some (Ret (Inr n, buf, cap'))" by blast
    from Cons.IH [OF rd st1(2,3)] obtain st' ys zs where
      st': "(recv_step L C)\<^sup>*\<^sup>* st1 st'" "xs = ys @ zs" "rx_kernel st' = records_in zs @ rest" "\<not> rx_waiting st'"
        "rx_cap st' = cap'" "rx_out st' = rx_out st1 @ [take n buf]" "rx_cancels st' = rx_cancels st1" by blast
    have "(recv_step L C)\<^sup>*\<^sup>* st st'" using st1(1) st'(1) by (rule rtranclp_trans)
    with st' st1(4,5) show ?thesis by (intro exI [of _ st'] exI [of _ "x # ys"] exI [of _ zs]) simp
  qed
qed

section \<open>Properties\<close>

text \<open>
  C24: packets are lost only to cancelled reads. In every run of the reader's receive branch the packets the
  reader has got, followed by those still queued, are exactly the packets of the server that fit its
  buffer, from the buffers read for it, in the order of the device; every buffer the kernel delivered
  was read for the reader, is still to be read, or was taken by a task whose call was dropped; and
  there are at most as many of the last kind as there were dropped calls, so none in a run without them.
\<close>

theorem recv_loses_only_cancelled:
  assumes "(recv_step L C)\<^sup>*\<^sup>* (recv_start cap bufs) st"
  shows "rx_out st @ fitting (queue (rx_cap st)) = fitting (queue cap @ concat (map (packets_in L C cap) (rx_read st)))
    \<and> mset bufs = mset (rx_read st) + mset (rx_lost st) + mset (rx_kernel st) \<and> subseq (rx_read st) bufs
    \<and> length (rx_lost st) \<le> rx_cancels st"
  using recv.reachable_inv [OF refl assms] by (auto simp: recv_inv_def)

text \<open>
  What a dropped call can cost. From every state in which a call waits and a buffer is to be read, the
  purge message of any closed connection can lead to the loss of this whole buffer: the task that was left
  behind reads it, and the reader gets none of its packets.
\<close>

theorem cancelled_read_loses:
  assumes "rx_waiting st" and "rx_kernel st = r # rs"
  shows "\<exists>st'. (recv_step L C)\<^sup>*\<^sup>* st st' \<and> rx_kernel st' = rs \<and> rx_lost st' = rx_lost st @ [r]
    \<and> rx_read st' = rx_read st \<and> rx_out st' = rx_out st \<and> queue (rx_cap st') = queue (rx_cap st)"
proof -
  let ?s = "st\<lparr>rx_waiting := False, rx_orphans := rx_orphans st + 1, rx_cancels := rx_cancels st + 1\<rparr>"
  have "recv_step L C st ?s" by (rule purge_first [OF assms(1)])
  moreover have "recv_step L C ?s (?s\<lparr>rx_orphans := rx_orphans st, rx_kernel := rs, rx_lost := rx_lost st @ [r]\<rparr>)"
    using orphan_reads [of ?s "rx_orphans st" r rs L C] assms(2) by simp
  ultimately show ?thesis
    by (intro exI [of _ "?s\<lparr>rx_orphans := rx_orphans st, rx_kernel := rs, rx_lost := rx_lost st @ [r]\<rparr>"]) simp
qed


lemma sample_records:
  obtains b r where "length b = 44" "decode_records wire_lib darwin_libc r (link_type sample_capture) (cap_remote sample_capture) = Ret (Inr [b])"
proof -
  obtain b where b: "build_tcp_packet wire_lib (V4 (SocketAddrV4 3405803796 65009)) (V4 (SocketAddrV4 3325256714 40000))
      0 1 18 None = Ret b" "length b = 44" by (rule sample_built)
  have "framed darwin_libc Raw b b" by (simp add: framed_def)
  from server_record_decoded [OF bpf_decoder_mac b(1) _ this] b(2)
  have "decode_records wire_lib darwin_libc (stream [record_of b] None) (link_type sample_capture)
      (cap_remote sample_capture) = Ret (Inr [b])" by (simp add: sample_capture_def)
  with b(2) show ?thesis by (rule that)
qed

theorem recv_loses_only_cancelled_witness:
  "\<exists>b r st. (recv_step wire_lib darwin_libc)\<^sup>*\<^sup>* (recv_start sample_capture [r]) st \<and> rx_out st = [b] \<and> rx_cancels st = 0
     \<and> rx_out st @ fitting (queue (rx_cap st)) = fitting (concat (map (packets_in wire_lib darwin_libc sample_capture) (rx_read st)))
     \<and> rx_lost st = []"
proof -
  obtain b r where b: "length b = 44" "decode_records wire_lib darwin_libc r (link_type sample_capture) (cap_remote sample_capture) = Ret (Inr [b])"
    by (rule sample_records)
  let ?st = "recv_start sample_capture [r]"
  have q: "queue sample_capture = []" by (simp add: sample_capture_def)
  have "read_packet wire_lib darwin_libc (map (\<lambda>x. Inr (Inr x)) [None, Some r]) (replicate MAX_PACKET_LEN 0) (rx_cap ?st)
      = Some (Ret (Inr (length b), write_at 0 b (replicate MAX_PACKET_LEN 0), sample_capture\<lparr>queue := []\<rparr>))"
    using read_packet_first [OF q _ b(2), of "[Inr (Inr None)]" "replicate MAX_PACKET_LEN 0" b "[]" "[]"] b(1)
    by (simp add: recv_start_def MAX_PACKET_LEN_def)
  from read_packet_run [OF this, of "[]"] obtain st where
    st: "(recv_step wire_lib darwin_libc)\<^sup>*\<^sup>* ?st st" "rx_out st = [b]" "rx_cancels st = 0"
    by (auto simp: recv_start_def write_at_def)
  from recv_loses_only_cancelled [OF st(1)] st q show ?thesis
    by (intro exI [of _ b] exI [of _ r] exI [of _ st]) simp
qed

theorem cancelled_read_loses_witness:
  "\<exists>st. (recv_step wire_lib darwin_libc)\<^sup>*\<^sup>* (recv_poll (recv_start sample_capture [[1, 2, 3]])) st \<and> rx_lost st = [[1, 2, 3]] \<and> rx_out st = []"
  using cancelled_read_loses [of "recv_poll (recv_start sample_capture [[1, 2, 3]])" "[1, 2, 3]" "[]" wire_lib darwin_libc]
  by (auto simp: recv_poll_def recv_start_def sample_capture_def)

end
