(* ===== verification/MacClient.thy ===== *)
theory MacClient
  imports Session_Properties Receive
begin

unbundle bit_operations_syntax

text \<open>
  The client as \<open>main.rs\<close> puts it together: the session of the forwarder and the stack (\<open>Session\<close>) on the macOS
  packet device (\<open>Receive\<close>). The reader gets its packets from \<open>BpfCapture::read_packet\<close> and from nowhere else.
\<close>

section \<open>The session on the macOS device\<close>

text \<open>
  The client that \<open>main\<close> starts: the session of the forwarder and the stack, and the receive side of the
  device on which its reader waits.
\<close>

record ('c, 'm, 'b) MacClient =
  ses :: "('c, 'm, 'b) Session"
  rx :: Recv

definition mac_new ::
  "('c, 'm, 'b) chan_lib \<Rightarrow> nat \<Rightarrow> MacPacketDevice \<Rightarrow> bytes list \<Rightarrow> ForwarderConfig \<Rightarrow> ('c, 'm, 'b) MacClient" where
  "mac_new K d dev bufs F = \<lparr>ses = session_new K d F, rx = recv_start (dev_capture dev) bufs\<rparr>"

text \<open>Reader \<open>r\<close> is in \<open>select!\<close>.\<close>

definition selects :: "nat \<Rightarrow> 'b Reader \<Rightarrow> ('c, 'm, 'b) MacClient \<Rightarrow> bool" where
  "selects r R M \<longleftrightarrow> readers (stk (ses M)) r = Some R \<and> pc R = reader_pc.Waiting"

text \<open>\<open>select!\<close> completes with the purge message and drops the call of \<open>recv\<close>, if it was suspended.\<close>

definition drop_receive :: "Recv \<Rightarrow> Recv" where
  "drop_receive x =
     (if rx_waiting x then x\<lparr>rx_waiting := False, rx_orphans := rx_orphans x + 1, rx_cancels := rx_cancels x + 1\<rparr> else x)"

definition set_stk :: "('c, 'm, 'b) Stack \<Rightarrow> ('c, 'm, 'b) MacClient \<Rightarrow> ('c, 'm, 'b) MacClient" where
  "set_stk st M = M\<lparr>ses := (ses M)\<lparr>stk := st\<rparr>\<rparr>"

text \<open>
  The steps of the client. A poll of \<open>recv\<close> returns a queued packet, which the reader takes to the dispatcher
  (\<open>mac_gets\<close>, or \<open>mac_chokes\<close> if that panics), or suspends (\<open>mac_suspends\<close>). A suspended call goes on when the
  blocking task returns: with a buffer of records (\<open>mac_records\<close>), with nothing (\<open>mac_nothing\<close>) or with an error,
  of the read or of the decoder, on which \<open>size.unwrap()\<close> panics (\<open>mac_fails\<close>; a buffer that the decoder rejects
  stays in the list, where nothing but a task left behind can take it any more). When the purge channel is first
  the call is dropped (\<open>mac_purges\<close>; \<open>mac_lags\<close> if \<open>tuple.unwrap()\<close> panics). Between two receives the reader
  delivers what it has got (\<open>mac_acts\<close>, \<open>mac_panics\<close>). Tasks left behind read on alone (\<open>mac_left_behind\<close>), and
  the forwarder takes its own steps (\<open>mac_forwards\<close>).
\<close>

inductive mac_step ::
  "packet_lib \<Rightarrow> libc_abi \<Rightarrow> ('c, 'm, 'b) chan_lib \<Rightarrow> ForwarderConfig \<Rightarrow> ('c, 'm, 'b) MacClient \<Rightarrow> ('c, 'm, 'b) MacClient \<Rightarrow> bool"
  for L :: packet_lib and C :: libc_abi and K :: "('c, 'm, 'b) chan_lib" and F :: ForwarderConfig
where
  mac_gets: "selects r R M \<Longrightarrow> \<not> rx_waiting (rx M) \<Longrightarrow> rx_out (recv_poll (rx M)) = rx_out (rx M) @ [b]
    \<Longrightarrow> reader_recv L (Inr b) r R (stk (ses M)) = Ret st'
    \<Longrightarrow> mac_step L C K F M (M\<lparr>ses := (ses M)\<lparr>stk := st', net_in := net_in (ses M) @ [b]\<rparr>, rx := recv_poll (rx M)\<rparr>)"
| mac_chokes: "selects r R M \<Longrightarrow> \<not> rx_waiting (rx M) \<Longrightarrow> rx_out (recv_poll (rx M)) = rx_out (rx M) @ [b]
    \<Longrightarrow> reader_recv L (Inr b) r R (stk (ses M)) = Panic p
    \<Longrightarrow> mac_step L C K F M (set_stk (reader_dies r (stk (ses M))) (M\<lparr>rx := recv_poll (rx M)\<rparr>))"
| mac_suspends: "selects r R M \<Longrightarrow> \<not> rx_waiting (rx M) \<Longrightarrow> rx_out (recv_poll (rx M)) = rx_out (rx M)
    \<Longrightarrow> mac_step L C K F M (M\<lparr>rx := recv_poll (rx M)\<rparr>)"
| mac_records: "selects r R M \<Longrightarrow> rx_waiting (rx M) \<Longrightarrow> recv_records L C (rx M) = Some x
    \<Longrightarrow> mac_step L C K F M (M\<lparr>rx := x\<rparr>)"
| mac_nothing: "selects r R M \<Longrightarrow> rx_waiting (rx M) \<Longrightarrow> mac_step L C K F M (M\<lparr>rx := (rx M)\<lparr>rx_waiting := False\<rparr>\<rparr>)"
| mac_fails: "selects r R M \<Longrightarrow> rx_waiting (rx M)
    \<Longrightarrow> mac_step L C K F M (set_stk (reader_dies r (stk (ses M))) (M\<lparr>rx := (rx M)\<lparr>rx_waiting := False\<rparr>\<rparr>))"
| mac_purges: "selects r R M \<Longrightarrow> reader_purge K r R (stk (ses M)) = Some (Ret st')
    \<Longrightarrow> mac_step L C K F M (set_stk st' (M\<lparr>rx := drop_receive (rx M)\<rparr>))"
| mac_lags: "selects r R M \<Longrightarrow> reader_purge K r R (stk (ses M)) = Some (Panic p)
    \<Longrightarrow> mac_step L C K F M (set_stk (reader_dies r (stk (ses M))) (M\<lparr>rx := drop_receive (rx M)\<rparr>))"
| mac_acts: "readers (stk (ses M)) r = Some R \<Longrightarrow> reader_act L K False try_res r R (stk (ses M)) = Some (Ret st')
    \<Longrightarrow> mac_step L C K F M (set_stk st' M)"
| mac_panics: "readers (stk (ses M)) r = Some R \<Longrightarrow> reader_act L K False try_res r R (stk (ses M)) = Some (Panic p)
    \<Longrightarrow> p \<noteq> Assertion_failed \<Longrightarrow> mac_step L C K F M (set_stk (reader_dies r (stk (ses M))) M)"
| mac_left_behind: "recv_step L C (rx M) x \<Longrightarrow> rx_orphans x < rx_orphans (rx M) \<Longrightarrow> mac_step L C K F M (M\<lparr>rx := x\<rparr>)"
| mac_forwards: "forward_step L K F (ses M) S' \<Longrightarrow> mac_step L C K F M (M\<lparr>ses := S'\<rparr>)"

text \<open>\<open>bufs\<close> are the buffers that the kernel supplies to the reads of the BPF device during the run.\<close>

definition mac_reachable ::
  "packet_lib \<Rightarrow> libc_abi \<Rightarrow> ('c, 'm, 'b) chan_lib \<Rightarrow> MacPacketDevice \<Rightarrow> bytes list \<Rightarrow> ForwarderConfig \<Rightarrow> ('c, 'm, 'b) MacClient \<Rightarrow> bool" where
  "mac_reachable L C K dev bufs F M \<longleftrightarrow> (\<exists>d. (mac_step L C K F)\<^sup>*\<^sup>* (mac_new K d dev bufs F) M)"

section \<open>Projections\<close>

lemma set_stk_sel [simp]: "ses (set_stk st M) = (ses M)\<lparr>stk := st\<rparr>" "rx (set_stk st M) = rx M"
  by (simp_all add: set_stk_def)

lemma recv_poll_cases: "rx_out (recv_poll x) = rx_out x \<or> (\<exists>b. rx_out (recv_poll x) = rx_out x @ [b] \<and> length b \<le> MAX_PACKET_LEN)"
proof -
  obtain m buf q where c: "copy_pending_packet (replicate MAX_PACKET_LEN 0) (queue (rx_cap x)) = (m, buf, q)"
    by (cases "copy_pending_packet (replicate MAX_PACKET_LEN 0) (queue (rx_cap x))") auto
  show ?thesis
  proof (cases m)
    case (Some n)
    from copy_pending_Some [OF c [unfolded Some]] have "n \<le> MAX_PACKET_LEN" by (metis length_replicate)
    with Some c show ?thesis by (simp add: recv_poll_def)
  qed (use c in \<open>simp add: recv_poll_def\<close>)
qed

lemma recv_poll_short: "rx_out (recv_poll x) = rx_out x @ [b] \<Longrightarrow> length b \<le> MAX_PACKET_LEN"
  using recv_poll_cases [of x] by auto

lemma drop_receive_step: "(recv_step L C)\<^sup>=\<^sup>= x (drop_receive x)"
  using purge_first [of x L C] by (auto simp: drop_receive_def)

lemma mac_step_session: "mac_step L C K F M M' \<Longrightarrow> (session_step L K F)\<^sup>=\<^sup>= (ses M) (ses M')"
proof (induction rule: mac_step.induct)
  case (mac_gets r R M b st')
  then have "session_step L K F (ses M) ((ses M)\<lparr>stk := st', net_in := net_in (ses M) @ [b]\<rparr>)"
    using recv_poll_short by (intro net_reads) (auto simp: selects_def)
  then show ?case by simp
qed (auto simp: selects_def intro!: net_reader intro: reader_step.intros forwards reader_fails [where rcv = "Inl (Os 0)" and p = Unwrap_failed] simp: reader_recv_def)

lemma mac_step_recv: "mac_step L C K F M M' \<Longrightarrow> (recv_step L C)\<^sup>=\<^sup>= (rx M) (rx M')"
proof (induction rule: mac_step.induct)
  case (mac_purges r R M st')
  then show ?case using drop_receive_step by simp
next
  case (mac_lags r R M p)
  then show ?case using drop_receive_step by simp
qed (auto intro: recv_step.intros)

section \<open>Where packets go\<close>

text \<open>A packet that \<open>build_tcp_packet\<close> made for the given destination.\<close>

definition built_for :: "packet_lib \<Rightarrow> socket_addr \<Rightarrow> bytes \<Rightarrow> bool" where
  "built_for L remote b \<longleftrightarrow> (\<exists>l sq ak flags payload. build_tcp_packet L l remote sq ak flags payload = Ret b)"

lemma built_forI: "build_tcp_packet L l remote sq ak flags payload = Ret b \<Longrightarrow> built_for L remote b"
  unfolding built_for_def by blast

lemma remote_of_tuple: "tuple_remote (socket_tuple s) = remote_addr s"
  by (simp add: socket_tuple_def)

text \<open>From \<open>st\<close> to \<open>st'\<close> only packets for \<open>remote\<close> were sent, and no reader has moved.\<close>

definition sends_for :: "packet_lib \<Rightarrow> socket_addr \<Rightarrow> ('c, 'm, 'b) Stack \<Rightarrow> ('c, 'm, 'b) Stack \<Rightarrow> bool" where
  "sends_for L remote st st' \<longleftrightarrow>
     (\<exists>new. trace st' = trace st @ new \<and> (\<forall>x\<in>set new. built_for L remote (snd x)))
     \<and> (\<forall>r. map_option pc (readers st' r) = map_option pc (readers st r))"

lemma sends_for_refl: "trace st' = trace st \<Longrightarrow> readers st' = readers st \<Longrightarrow> sends_for L remote st st'"
  by (simp add: sends_for_def)

lemma sends_for_trans: "sends_for L remote st st1 \<Longrightarrow> sends_for L remote st1 st' \<Longrightarrow> sends_for L remote st st'"
  by (auto simp: sends_for_def)

lemma socket_build_for: "socket_build L s flags payload = Ret (b, s') \<Longrightarrow> built_for L (remote_addr s) b \<and> remote_addr s' = remote_addr s"
  by (auto simp: socket_build_def Let_def obind_eq_Ret_iff intro: built_forI)

lemma socket_send_for: "socket_send L res d s = Ret (v, s', b) \<Longrightarrow> built_for L (remote_addr s) b"
  by (auto simp: socket_send_def obind_eq_Ret_iff Let_def dest: socket_build_for split: State.splits)

lemma connect_step_for:
  "connect_step L ck res ev s = Ret (r, s', out) \<Longrightarrow> list_all (built_for L (remote_addr s)) out \<and> remote_addr s' = remote_addr s"
  by (cases res)
    (auto simp: connect_step_def obind_eq_Ret_iff Let_def dest!: socket_build_for split: State.splits recv_event.splits if_splits)

lemma socket_recv_for: "socket_recv L raw buf s = Ret (v, s', buf', out) \<Longrightarrow> list_all (built_for L (remote_addr s)) out"
  by (auto simp: socket_recv_def obind_eq_Ret_iff Let_def dest!: socket_build_for split: State.splits option.splits if_splits)

lemma put_socket_for:
  "list_all (built_for L remote) out \<Longrightarrow> sends_for L remote st (put_socket i s ro out st)"
  by (auto simp: sends_for_def list_all_iff)

lemma socket_drop_for: "socket_drop L K i s st = Ret st' \<Longrightarrow> sends_for L (remote_addr s) st st'"
  by (auto simp: socket_drop_Ret dropped_def sends_for_def option.map_comp comp_def intro: built_forI)

lemma poll_channel_for: "poll_channel K i s st = (ev, st1) \<Longrightarrow> sends_for L remote st st1"
  using poll_channel_frame [of K i s st ev st1] by (intro sends_for_refl) simp_all

lemma connect_poll_for:
  assumes "connect_poll L K ck res i s m st = Ret st'"
  shows "sends_for L (remote_addr s) st st'"
proof (cases "m = RETRIES")
  case True
  with assms show ?thesis by (auto simp: connect_poll_def intro: socket_drop_for)
next
  case False
  obtain ev st1 where p: "poll_when (state s = SynSent) K i s st = (ev, st1)" by fastforce
  with assms False obtain r s' out where c: "connect_step L ck res ev s = Ret (r, s', out)"
    and st': "(case r of None \<Rightarrow> Ret (put_socket i s' (Connecting (m + 1)) out st1)
        | Some (Some _) \<Rightarrow> Ret (put_socket i s' Owned out st1)
        | Some None \<Rightarrow> socket_drop L K i s' (put_socket i s' (Connecting m) out st1)) = Ret st'"
    by (auto simp: connect_poll_def obind_eq_Ret_iff)
  note out = connect_step_for [OF c]
  have "sends_for L (remote_addr s) st st1" using poll_when_frame [OF p] by (intro sends_for_refl) simp_all
  then have put: "sends_for L (remote_addr s) st (put_socket i s' ro out st1)" for ro
    using put_socket_for [of L "remote_addr s" out] out by (blast intro: sends_for_trans)
  show ?thesis
  proof (cases r)
    case None
    with st' put show ?thesis by auto
  next
    case (Some v)
    with st' put out socket_drop_for [of L K i s' _ st'] show ?thesis
      by (cases v) (auto intro: sends_for_trans)
  qed
qed

text \<open>Everything the forwarder sends goes to the server it is configured for.\<close>

lemma owns_remote:
  assumes "session_link F S" "owns S c s" "c < length (conns (fwd S))"
  shows "remote_addr s = fw_remote_addr F"
proof -
  have c: "c < length (link S)" using assms(1,3) by (simp add: session_link_def link_ok_def alives_def)
  then have "client_end (fw_remote_addr F) (snd (link S ! c))" using assms(1) by (auto simp: session_link_def link_ok_def)
  with owns_linked [OF assms(1,2) c] show ?thesis by (auto simp: client_end_def simp flip: remote_of_tuple)
qed

lemma dialing_remote:
  assumes "session_link F S" "dialing S = Some i" "sockets (stk S) i = Some (s, ro)"
  shows "remote_addr s = fw_remote_addr F"
  using assms by (auto simp: session_link_def link_ok_def shape_Some client_end_def simp flip: remote_of_tuple)

lemma forward_step_for:
  assumes "forward_step L K F S S'" "session_link F S" "fw_inv (fwd S)"
  shows "sends_for L (fw_remote_addr F) (stk S) (stk S')"
  using assms
proof (induction rule: forward_step.induct)
  case (dial_opens S x d start draw i st')
  from connect_open_effect [OF dial_opens(5)] obtain dv u where "st' = register K dv u None (Connecting 0) (stk S)" by blast
  then show ?case by (auto simp: register_def Let_def intro: sends_for_refl)
next
  case (dial_polls S x d i s m res st')
  from connect_poll_for [OF dial_polls(4)] dialing_remote [OF dial_polls(5,2,3)] show ?case
    by (simp add: handshake_result_def take_packet_def split: option.splits)
next
  case (sends_existing S x c d s res v s' buf)
  then have "remote_addr s = fw_remote_addr F" by (intro owns_remote) (auto simp: fw_inv_def)
  with socket_send_for [OF sends_existing(3)] show ?case by (simp add: put_socket_for)
next
  case (sends_first S x c d s res v s' buf f')
  then have "remote_addr s = fw_remote_addr F" by (intro owns_remote) (auto simp: fw_inv_def)
  with socket_send_for [OF sends_first(3)] show ?case by (simp add: put_socket_for)
next
  case (worker_recvs c w S s ev st1 buf v s' buf' out)
  then have "remote_addr s = fw_remote_addr F" by (intro owns_remote) (auto simp: worker_at_def)
  with socket_recv_for [OF worker_recvs(6)] have "sends_for L (fw_remote_addr F) st1 (put_socket (conn_socket S c) s' Owned out st1)"
    by (simp add: put_socket_for)
  with poll_channel_for [OF worker_recvs(3)] show ?case by (auto intro: sends_for_trans)
next
  case (drops_conn c S s st')
  then have "remote_addr s = fw_remote_addr F" by (intro owns_remote)
  with socket_drop_for [OF drops_conn(5)] show ?case by simp
qed (auto intro: sends_for_refl)

section \<open>The invariant\<close>

text \<open>The reader resets only segments of the server, and all packets sent so far were made for the server.\<close>

definition answers_server :: "socket_addr \<Rightarrow> ('c, 'm, 'b) Stack \<Rightarrow> bool" where
  "answers_server remote st \<longleftrightarrow> (\<forall>r R u t. readers st r = Some R \<longrightarrow> pc R = Missing u t \<longrightarrow> tuple_remote u = remote)"

definition sent_to :: "packet_lib \<Rightarrow> socket_addr \<Rightarrow> ('c, 'm, 'b) Stack \<Rightarrow> bool" where
  "sent_to L remote st \<longleftrightarrow> (\<forall>x\<in>set (trace st). built_for L remote (snd x))"

lemma sends_for_keeps:
  assumes "sends_for L remote st st'" "answers_server remote st" "sent_to L remote st"
  shows "answers_server remote st' \<and> sent_to L remote st'"
proof -
  have "\<exists>R. readers st r = Some R \<and> pc R = pc R'" if "readers st' r = Some R'" for r R'
    using assms(1) that unfolding sends_for_def by (metis (mono_tags, lifting) map_option_eq_Some)
  with assms show ?thesis unfolding answers_server_def sent_to_def sends_for_def by fastforce
qed

lemma reader_dies_keeps [simp]:
  "answers_server remote st \<Longrightarrow> answers_server remote (reader_dies r st)" "sent_to L remote (reader_dies r st) = sent_to L remote st"
  by (auto simp: reader_dies_def answers_server_def sent_to_def)

lemma set_reader_keeps:
  "answers_server remote st \<Longrightarrow> (\<forall>u t. pc R = Missing u t \<longrightarrow> tuple_remote u = remote) \<Longrightarrow> answers_server remote (set_reader r R st)"
  "sent_to L remote (set_reader r R st) = sent_to L remote st"
  by (auto simp: answers_server_def sent_to_def)

lemma reader_recv_keeps:
  assumes "reader_recv L (Inr b) r R st = Ret st'" "carries L b Sg" "seg_src Sg = remote" "answers_server remote st" "sent_to L remote st"
  shows "answers_server remote st' \<and> sent_to L remote st'"
proof -
  from assms(2) obtain ip t where p: "parse_ip_packet L b = Ret (Some (ip, t))" "segment_of L ip t = Sg" by (rule carries_parse)
  then have "tuple_remote (packet_tuple L ip t) = remote" using assms(3) by (simp add: packet_tuple_segment)
  with assms(1,4,5) p(1) show ?thesis
    by (auto simp: reader_recv_def Let_def set_reader_keeps split: option.splits)
qed

lemma reader_purge_keeps:
  "reader_purge K r R st = Some (Ret st') \<Longrightarrow> pc R = reader_pc.Waiting \<Longrightarrow> answers_server remote st \<Longrightarrow> sent_to L remote st
    \<Longrightarrow> answers_server remote st' \<and> sent_to L remote st'"
  by (auto simp: reader_purge_def set_reader_keeps split: option.splits prod.splits)

lemma channel_send_keeps:
  assumes "channel_send K c b st = Some (Some st')" "answers_server remote st" "sent_to L remote st"
  shows "answers_server remote st' \<and> sent_to L remote st'"
  using assms channel_send_frame [OF assms(1)] by (auto simp: answers_server_def sent_to_def)

lemma reply_rst_keeps:
  assumes "reply_rst L res u sq ak st = Ret st'" "answers_server (tuple_remote u) st" "sent_to L (tuple_remote u) st"
  shows "answers_server (tuple_remote u) st' \<and> sent_to L (tuple_remote u) st'"
proof -
  from assms(1) obtain dv b where b: "build_tcp_packet L (tuple_local u) (tuple_remote u) sq ak (RST L OR ACK L) None = Ret b"
    "st' = st\<lparr>trace := trace st @ [(dv, b)]\<rparr>"
    by (cases "devices st"; cases res) (auto simp: reply_rst_def obind_eq_Ret_iff)
  with built_forI [OF b(1)] assms(2,3) show ?thesis by (simp add: answers_server_def sent_to_def)
qed

lemma reader_unknown_keeps:
  assumes "reader_unknown L K ck res r u t st = Ret st'" "listening st = {}" "answers_server (tuple_remote u) st" "sent_to L (tuple_remote u) st"
  shows "answers_server (tuple_remote u) st' \<and> sent_to L (tuple_remote u) st'"
  using assms by (auto simp: reader_unknown_def Let_def obind_eq_Ret_iff dest: reply_rst_keeps split: if_splits)

lemma reader_act_keeps:
  assumes "reader_act L K ck res r R st = Some (Ret st')" "readers st r = Some R" "listening st = {}"
    and inv: "answers_server remote st" "sent_to L remote st"
  shows "answers_server remote st' \<and> sent_to L remote st'"
proof (cases "pc R")
  case (Missing u t)
  with inv(1) assms(2) have u: "tuple_remote u = remote" by (auto simp: answers_server_def)
  from assms(1) Missing obtain st1 where "reader_unknown L K ck res r u t st = Ret st1" "st' = set_reader r (R\<lparr>pc := reader_pc.Waiting\<rparr>) st1"
    by (auto simp: reader_act_def Let_def obind_eq_Ret_iff)
  with reader_unknown_keeps [of L K ck res r u t st st1] assms(3) inv u show ?thesis by (simp add: set_reader_keeps)
qed (use assms channel_send_keeps [of K _ _ st] in
    \<open>auto simp: reader_act_def Let_def set_reader_keeps split: option.splits\<close>)

text \<open>The invariants of the parts, and the packets the reader has got are those the device has delivered.\<close>

definition mac_inv ::
  "packet_lib \<Rightarrow> libc_abi \<Rightarrow> ('c \<Rightarrow> bytes list) \<Rightarrow> ('m \<Rightarrow> nat list) \<Rightarrow> ('b \<Rightarrow> AddrTuple list) \<Rightarrow> MacPacketDevice \<Rightarrow> bytes list
     \<Rightarrow> ForwarderConfig \<Rightarrow> ('c, 'm, 'b) MacClient \<Rightarrow> bool" where
  "mac_inv L C queued backlog pending dev bufs F M \<longleftrightarrow>
     session_inv L queued backlog pending F (ses M) \<and> recv_inv L C (dev_capture dev) bufs (rx M)
     \<and> net_in (ses M) = rx_out (rx M)
     \<and> answers_server (fw_remote_addr F) (stk (ses M)) \<and> sent_to L (fw_remote_addr F) (stk (ses M))"

text \<open>A device as \<open>main\<close> opens it for the forwarder's server.\<close>

definition wired :: "MacPacketDevice \<Rightarrow> ForwarderConfig \<Rightarrow> bool" where
  "wired dev F \<longleftrightarrow> cap_remote (dev_capture dev) = fw_remote_addr F \<and> queue (dev_capture dev) = []"

lemma forward_step_net_in: "forward_step L K F S S' \<Longrightarrow> net_in S' = net_in S"
  by (induction rule: forward_step.induct) (simp_all add: handshake_result_def take_packet_def split: option.splits)

locale mac_laws = stack_laws L K queued backlog pending capacity + bpf_decoder L C
  for L K queued backlog pending capacity C
begin

abbreviation mac_ok where "mac_ok \<equiv> mac_inv L C queued backlog pending"

lemma packets_in_server: "b \<in> set (packets_in L C cap r) \<Longrightarrow> from_server L C (cap_remote cap) b"
  using decoded_ok [OF refl, of r "link_type cap" "cap_remote cap"]
  by (auto simp: packets_in_def list_all_iff split: outcome.splits sum.splits)

lemma delivered_server:
  assumes "recv_inv L C (dev_capture dev) bufs x" "wired dev F" "b \<in> set (rx_out x)"
  shows "from_server L C (fw_remote_addr F) b"
proof -
  have "b \<in> set (fitting (queue (dev_capture dev) @ concat (map (packets_in L C (dev_capture dev)) (rx_read x))))"
    using assms(1,3) unfolding recv_inv_def by (metis Un_iff set_append)
  then show ?thesis using assms(2) packets_in_server [of b "dev_capture dev"] by (auto simp: wired_def)
qed

lemma polled_server:
  assumes "recv_inv L C (dev_capture dev) bufs x" "wired dev F" "rx_out (recv_poll x) = rx_out x @ [b]"
  shows "\<exists>Sg. carries L b Sg \<and> seg_src Sg = fw_remote_addr F"
proof -
  have "b \<in> set (rx_out (recv_poll x))" using assms(3) by simp
  from delivered_server [OF recv_inv_poll [OF assms(1)] assms(2) this] show ?thesis by (auto simp: from_server_def)
qed

lemma never_chokes:
  assumes "mac_ok dev bufs F M" "wired dev F" "rx_out (recv_poll (rx M)) = rx_out (rx M) @ [b]"
  shows "\<not> panics (reader_recv L (Inr b) r R (stk (ses M)))"
proof -
  obtain Sg where "carries L b Sg" using polled_server [OF _ assms(2,3)] assms(1) by (auto simp: mac_inv_def)
  then obtain ip t where "parse_ip_packet L b = Ret (Some (ip, t))" by (rule carries_parse_ip)
  then show ?thesis by (simp add: reader_recv_def Let_def split: option.splits)
qed

lemma mac_ok_traffic:
  assumes "mac_step L C K F M M'" "mac_ok dev bufs F M" "wired dev F"
  shows "net_in (ses M') = rx_out (rx M') \<and> answers_server (fw_remote_addr F) (stk (ses M')) \<and> sent_to L (fw_remote_addr F) (stk (ses M'))"
  using assms
proof (induction rule: mac_step.induct)
  case (mac_gets r R M b st')
  then obtain Sg where "carries L b Sg" "seg_src Sg = fw_remote_addr F" using polled_server [OF _ mac_gets(6,3)] by (auto simp: mac_inv_def)
  with reader_recv_keeps [OF mac_gets(4)] mac_gets show ?case by (simp add: mac_inv_def)
next
  case (mac_chokes r R M b p)
  with never_chokes [OF mac_chokes(5,6,3), of r R] show ?case by simp
next
  case (mac_records r R M x)
  then show ?case by (auto simp: mac_inv_def recv_records_def split: list.splits outcome.splits sum.splits)
next
  case (mac_purges r R M st')
  with reader_purge_keeps [OF mac_purges(2), of "fw_remote_addr F" L] show ?case by (simp add: mac_inv_def selects_def drop_receive_def)
next
  case (mac_acts M r R try_res st')
  with reader_act_keeps [OF mac_acts(2,1)] show ?case by (auto simp: mac_inv_def session_inv_def session_link_def)
next
  case (mac_left_behind M x)
  from mac_left_behind(1,2) have "rx_out x = rx_out (rx M)"
    by (cases rule: recv_step.cases) (auto simp: recv_poll_def recv_records_def split: prod.splits option.splits list.splits outcome.splits sum.splits)
  with mac_left_behind show ?case by (simp add: mac_inv_def)
next
  case (mac_forwards M S')
  then have "session_link F (ses M)" "fw_inv (fwd (ses M))" by (simp_all add: mac_inv_def session_inv_def fw_all_def)
  from sends_for_keeps [OF forward_step_for [OF mac_forwards(1) this]] mac_forwards forward_step_net_in [OF mac_forwards(1)]
  show ?case by (simp add: mac_inv_def)
qed (simp_all add: mac_inv_def drop_receive_def)

lemma mac_ok_step:
  assumes "mac_ok dev bufs F M" "wired dev F" "mac_step L C K F M M'"
  shows "mac_ok dev bufs F M'"
proof -
  have "session_inv L queued backlog pending F (ses M')"
    using mac_step_session [OF assms(3)] assms(1) session_ok_step by (auto simp: mac_inv_def)
  moreover have "recv_inv L C (dev_capture dev) bufs (rx M')"
    using mac_step_recv [OF assms(3)] assms(1) recv_inv_step by (auto simp: mac_inv_def)
  ultimately show ?thesis using mac_ok_traffic [OF assms(3,1,2)] by (simp add: mac_inv_def)
qed

lemma mac_new_ok: "mac_ok dev bufs F (mac_new K d dev bufs F)"
proof -
  have "answers_server (fw_remote_addr F) (stk (session_new K d F))" "sent_to L (fw_remote_addr F) (stk (session_new K d F))"
    by (auto simp: session_new_def stack_new_def answers_server_def sent_to_def split: if_splits)
  then show ?thesis
    using session_new_ok recv_inv_start by (simp add: mac_inv_def mac_new_def) (simp add: session_new_def recv_start_def)
qed

end

sublocale mac_laws \<subseteq> mac: step_invariant "\<lambda>M. wired dev F \<and> (\<exists>d. M = mac_new K d dev bufs F)" "mac_step L C K F"
  "\<lambda>M. wired dev F \<and> mac_ok dev bufs F M" for dev bufs F
  by unfold_locales (auto intro: mac_new_ok mac_ok_step)

interpretation mac_lists: mac_laws wire_lib list_channels snd snd snd fst darwin_libc
  by unfold_locales

lemma mac_laws_lists: "mac_laws wire_lib list_channels snd snd snd fst darwin_libc"
  by (rule mac_lists.mac_laws_axioms)

section \<open>Calm runs on the device\<close>

text \<open>No call of \<open>recv\<close> is suspended and no packet is queued.\<close>

definition rx_quiet :: "Recv \<Rightarrow> bool" where
  "rx_quiet x \<longleftrightarrow> \<not> rx_waiting x \<and> queue (rx_cap x) = []"

text \<open>Two states of the receive side with the same link and server.\<close>

definition same_capture :: "Recv \<Rightarrow> Recv \<Rightarrow> bool" where
  "same_capture x y \<longleftrightarrow> link_type (rx_cap x) = link_type (rx_cap y) \<and> cap_remote (rx_cap x) = cap_remote (rx_cap y)"

text \<open>The buffer \<open>rec\<close> holds exactly the packet \<open>b\<close> of the server.\<close>

definition holds_packet :: "packet_lib \<Rightarrow> libc_abi \<Rightarrow> Recv \<Rightarrow> bytes \<Rightarrow> bytes \<Rightarrow> bool" where
  "holds_packet L C x rec b \<longleftrightarrow> decode_records L C rec (link_type (rx_cap x)) (cap_remote (rx_cap x)) = Ret (Inr [b])"

lemma holds_packet_same: "same_capture x y \<Longrightarrow> holds_packet L C x = holds_packet L C y"
  by (auto simp: same_capture_def holds_packet_def fun_eq_iff)

lemma mac_feed:
  assumes "selects r R M" "rx_quiet (rx M)" "rx_kernel (rx M) = rec # rest" "holds_packet L C (rx M) rec b" "length b \<le> MAX_PACKET_LEN"
    and "reader_recv L (Inr b) r R (stk (ses M)) = Ret st'"
  shows "\<exists>M'. (mac_step L C K F)\<^sup>*\<^sup>* M M' \<and> ses M' = (ses M)\<lparr>stk := st', net_in := net_in (ses M) @ [b]\<rparr>
    \<and> rx_quiet (rx M') \<and> rx_kernel (rx M') = rest \<and> same_capture (rx M') (rx M)"
proof -
  define x where "x = (rx M)\<lparr>rx_cap := (rx_cap (rx M))\<lparr>queue := []\<rparr>, rx_waiting := True\<rparr>"
  define y where "y = x\<lparr>rx_cap := (rx_cap x)\<lparr>queue := [b]\<rparr>, rx_waiting := False, rx_kernel := rest, rx_read := rx_read x @ [rec]\<rparr>"
  have x: "recv_poll (rx M) = x" "rx_out x = rx_out (rx M)" using assms(2) by (simp_all add: recv_poll_def rx_quiet_def x_def)
  have "recv_records L C x = Some y" using assms(3,4) by (simp add: recv_records_def holds_packet_def x_def y_def)
  moreover have "selects r R (M\<lparr>rx := x\<rparr>)" "selects r R (M\<lparr>rx := y\<rparr>)" using assms(1) by (simp_all add: selects_def)
  moreover have poll: "recv_poll y = y\<lparr>rx_cap := (rx_cap y)\<lparr>queue := []\<rparr>, rx_out := rx_out y @ [b]\<rparr>"
    using assms(5) by (simp add: recv_poll_def y_def write_at_def)
  ultimately have steps: "mac_step L C K F M (M\<lparr>rx := x\<rparr>)" "mac_step L C K F (M\<lparr>rx := x\<rparr>) (M\<lparr>rx := y\<rparr>)"
    "mac_step L C K F (M\<lparr>rx := y\<rparr>) (M\<lparr>rx := y, ses := (ses M)\<lparr>stk := st', net_in := net_in (ses M) @ [b]\<rparr>, rx := recv_poll y\<rparr>)"
    using mac_suspends [OF assms(1), of L C K F] mac_records [of r R "M\<lparr>rx := x\<rparr>" L C y K F]
      mac_gets [of r R "M\<lparr>rx := y\<rparr>" b L st' C K F] assms(2,6) x by (simp_all add: rx_quiet_def x_def y_def)
  have "(mac_step L C K F)\<^sup>*\<^sup>* M (M\<lparr>rx := y, ses := (ses M)\<lparr>stk := st', net_in := net_in (ses M) @ [b]\<rparr>, rx := recv_poll y\<rparr>)"
    by (rule run_three [of "mac_step L C K F", OF steps])
  then show ?thesis
    by (rule_tac exI, intro conjI, assumption) (simp_all add: poll, simp_all add: rx_quiet_def same_capture_def x_def y_def)
qed

lemma calm_net_in: "calm_step L K F S T \<Longrightarrow> \<exists>bs. net_in T = net_in S @ bs"
  by (induction rule: calm_step.induct) (auto dest: forward_step_net_in)

lemma calm_run_net_in: "(calm_step L K F)\<^sup>*\<^sup>* S T \<Longrightarrow> \<exists>bs. net_in T = net_in S @ bs"
proof (induction rule: rtranclp_induct)
  case (step T U)
  with calm_net_in [OF step(2)] show ?case by auto
qed simp

text \<open>A calm run of the session is a run on the device, if the kernel supplies its packets.\<close>

lemma mac_simulates:
  assumes "(calm_step L K F)\<^sup>*\<^sup>* S S'" "ses M = S" "rx_quiet (rx M)" "net_in S' = net_in S @ bs"
    and "rx_kernel (rx M) = recs @ rest" "list_all2 (holds_packet L C (rx M)) recs bs"
  shows "\<exists>M'. (mac_step L C K F)\<^sup>*\<^sup>* M M' \<and> ses M' = S' \<and> rx_quiet (rx M') \<and> rx_kernel (rx M') = rest \<and> same_capture (rx M') (rx M)"
  using assms
proof (induction arbitrary: bs recs rest rule: rtranclp_induct)
  case base
  then show ?case by (intro exI [of _ M]) (simp add: same_capture_def)
next
  case (step T U)
  obtain bs1 where bs1: "net_in T = net_in S @ bs1" using calm_run_net_in [OF step(1)] by blast
  have stay: ?case if "bs = bs1" "\<And>M1. ses M1 = T \<Longrightarrow> mac_step L C K F M1 (M1\<lparr>ses := U\<rparr>)"
  proof -
    from step.IH [OF step(4,5), of bs1 recs rest] bs1 step(7,8) that(1) obtain M1 where
      M1: "(mac_step L C K F)\<^sup>*\<^sup>* M M1" "ses M1 = T" "rx_quiet (rx M1)" "rx_kernel (rx M1) = rest" "same_capture (rx M1) (rx M)" by auto
    from rtranclp.rtrancl_into_rtrancl [OF M1(1) that(2) [OF M1(2)]] M1(3-5) show ?thesis by (intro exI [of _ "M1\<lparr>ses := U\<rparr>"]) simp
  qed
  from step(2) show ?case
  proof cases
    case (calm_reads r R b st')
    then have bs: "bs = bs1 @ [b]" using step(6) bs1 by simp
    with step(8) obtain recs1 rec where recs: "recs = recs1 @ [rec]" "list_all2 (holds_packet L C (rx M)) recs1 bs1" "holds_packet L C (rx M) rec b"
      by (auto simp: list_all2_append2 list_all2_Cons2)
    from step.IH [OF step(4,5) bs1, of recs1 "rec # rest"] recs step(7) obtain M1 where
      M1: "(mac_step L C K F)\<^sup>*\<^sup>* M M1" "ses M1 = T" "rx_quiet (rx M1)" "rx_kernel (rx M1) = rec # rest" "same_capture (rx M1) (rx M)" by auto
    have sel: "selects r R M1" "reader_recv L (Inr b) r R (stk (ses M1)) = Ret st'" using calm_reads M1(2) by (simp_all add: selects_def)
    have "holds_packet L C (rx M1) rec b" using recs(3) holds_packet_same [OF M1(5)] by simp
    from mac_feed [OF sel(1) M1(3,4) this calm_reads(4) sel(2), of K F] obtain M2 where
      "(mac_step L C K F)\<^sup>*\<^sup>* M1 M2" "ses M2 = (ses M1)\<lparr>stk := st', net_in := net_in (ses M1) @ [b]\<rparr>"
      "rx_quiet (rx M2)" "rx_kernel (rx M2) = rest" "same_capture (rx M2) (rx M1)" by blast
    with M1 calm_reads(1) show ?thesis by (intro exI [of _ M2]) (auto simp: same_capture_def intro: rtranclp_trans)
  next
    case (calm_acts r R try_res st')
    then show ?thesis
      using step(6) bs1 mac_acts [of _ r R L K try_res st' C F] by (intro stay) (auto simp: set_stk_def)
  next
    case calm_forwards
    then show ?thesis
      using step(6) bs1 forward_step_net_in [OF calm_forwards] mac_forwards [of L K F _ U C] by (intro stay) auto
  qed
qed

end
