(* ===== verification/MacClient_Properties.thy ===== *)
theory MacClient_Properties
  imports MacClient
begin

text \<open>
  The client from \<open>main\<close> on: properties of all runs of a client whose start has succeeded, from the buffers the
  kernel delivers to the packets the raw socket is given.
\<close>

section \<open>The started client\<close>

text \<open>\<open>main\<close> has got as far as the forwarder, with this device and this configuration.\<close>

definition client_started ::
  "libc_abi \<Rightarrow> sock_abi \<Rightarrow> bpf_abi \<Rightarrow> ('p, 'w) invocation \<Rightarrow> 'w \<Rightarrow> MacPacketDevice \<Rightarrow> ForwarderConfig \<Rightarrow> bool" where
  "client_started C A B I w dev F \<longleftrightarrow> (\<exists>sk w'. client_main C A B I w = Some (Ret (Inr (Forwarding sk dev F)), w'))"

lemma client_started_device:
  assumes "client_started C A B I w dev F"
  obtains l6 w' where "device_new C A B (platform_of I) (fw_remote_addr F) l6 w = (Inr dev, w')"
proof -
  have env: "env_vars I CLEANUP_MODE_ENV = None"
  proof (rule ccontr)
    assume "env_vars I CLEANUP_MODE_ENV \<noteq> None"
    with assms show False
      by (cases "cleanup_parameters (env_vars I)")
        (auto simp: client_started_def client_main_def run_cleanup_helper_if_requested_def Let_def split: if_splits)
  qed
  from assms that show ?thesis
    by (auto simp: client_started_def client_main_normal [OF env] split: outcome.splits prod.splits sum.splits)
qed

lemma client_started_wired: "client_started C A B I w dev F \<Longrightarrow> wired dev F"
  by (elim client_started_device) (auto simp: wired_def dest!: device_new_parts(1) opened_capture)

lemma client_started_sender:
  assumes "client_started C A B I w dev F"
  obtains l6 where "raw_sender_new A C (p_raw (platform_of I)) (fw_remote_addr F) l6 = Inr (dev_sender dev)"
  using assms that by (elim client_started_device) (blast dest: device_new_parts(2))

context mac_laws
begin

lemma mac_reachable_ok:
  assumes "client_started C A B I w dev F" "mac_reachable L C K dev bufs F M"
  shows "mac_ok dev bufs F M"
proof -
  from assms(2) obtain d where "(mac_step L C K F)\<^sup>*\<^sup>* (mac_new K d dev bufs F) M" by (auto simp: mac_reachable_def)
  from mac.reachable_inv [OF _ this, of dev bufs] client_started_wired [OF assms(1)] show ?thesis by blast
qed

end

lemma concat_map_subseq: "subseq xs ys \<Longrightarrow> subseq (concat (map f xs)) (concat (map f ys))"
  by (induction rule: list_emb.induct) (auto intro: list_emb_append_mono subseq_extend)

text \<open>What the reader got is what the kernel delivered, up to packets that are lost with a whole buffer.\<close>

lemma delivered_subseq:
  assumes "recv_inv L C cap bufs x" "queue cap = []"
  shows "subseq (rx_out x) (fitting (concat (map (packets_in L C cap) bufs)))"
proof -
  have "subseq (rx_read x) bufs" using assms(1) by (auto simp: recv_inv_def)
  then have "subseq (fitting (concat (map (packets_in L C cap) (rx_read x)))) (fitting (concat (map (packets_in L C cap) bufs)))"
    by (intro subseq_filter concat_map_subseq)
  moreover have "subseq (rx_out x) (fitting (concat (map (packets_in L C cap) (rx_read x))))"
    using assms unfolding recv_inv_def by (simp flip: append_assoc) (metis subseq_rev_drop_many subseq_order.refl)
  ultimately show ?thesis by (blast intro: subseq_order.trans)
qed

lemma reader_recv_kept: "reader_recv L rcv r R st = Ret st' \<Longrightarrow> readers st q = Some Q \<Longrightarrow> readers st' q \<noteq> None"
  by (cases rcv; cases "parse_ip_packet L (projr rcv)") (auto simp: reader_recv_def Let_def split: option.splits)

lemma reader_purge_kept: "reader_purge K r R st = Some (Ret st') \<Longrightarrow> readers st q = Some Q \<Longrightarrow> readers st' q \<noteq> None"
  by (auto simp: reader_purge_def split: option.splits)

lemma reply_rst_readers: "reply_rst L res u sq ak st = Ret st' \<Longrightarrow> readers st' = readers st"
  by (cases "devices st"; cases res) (auto simp: reply_rst_def obind_eq_Ret_iff)

lemma reader_unknown_readers: "reader_unknown L K ck res r u t st = Ret st' \<Longrightarrow> readers st' = readers st"
  by (auto simp: reader_unknown_def register_def Let_def obind_eq_Ret_iff dest: reply_rst_readers split: if_splits)

lemma reader_act_kept: "reader_act L K ck res r R st = Some (Ret st') \<Longrightarrow> readers st q = Some Q \<Longrightarrow> readers st' q \<noteq> None"
  by (auto simp: reader_act_def obind_eq_Ret_iff Let_def dest!: channel_send_frame reader_unknown_readers
      split: option.splits reader_pc.splits)

lemma run_projects:
  assumes "\<And>x y. R x y \<Longrightarrow> Q\<^sup>=\<^sup>= (f x) (f y)" "R\<^sup>*\<^sup>* x y"
  shows "Q\<^sup>*\<^sup>* (f x) (f y)"
  using assms(2)
proof (induction rule: rtranclp_induct)
  case (step y z)
  with assms(1) [OF step(2)] show ?case by (auto intro: rtranclp.rtrancl_into_rtrancl)
qed simp

text \<open>
  \<open>b\<close> is a segment that the server builds for the local address \<open>l\<close> of a connection, and \<open>rec\<close> the buffer in which
  the kernel delivers it: one record around the frame of the link.
\<close>

definition server_sends ::
  "packet_lib \<Rightarrow> libc_abi \<Rightarrow> LinkType \<Rightarrow> socket_addr \<Rightarrow> socket_addr \<Rightarrow> u32 \<Rightarrow> u8 \<Rightarrow> bytes option \<Rightarrow> bytes \<Rightarrow> bytes \<Rightarrow> bool" where
  "server_sends L C lt remote l ak flags payload b rec \<longleftrightarrow>
     (\<exists>sq frame. build_tcp_packet L remote l sq ak flags payload = Ret b \<and> framed C lt b frame \<and> length frame < 65536
        \<and> length b \<le> MAX_PACKET_LEN \<and> rec = stream [record_of frame] None)"

lemma mac_resumes:
  assumes "selects r R M" "queue (rx_cap (rx M)) = []"
  shows "\<exists>x. (mac_step L C K F)\<^sup>*\<^sup>* M (M\<lparr>rx := x\<rparr>) \<and> rx_quiet x \<and> rx_kernel x = rx_kernel (rx M) \<and> same_capture x (rx M)"
proof (cases "rx_waiting (rx M)")
  case True
  with assms mac_nothing [OF assms(1) True, of L C K F] show ?thesis
    by (intro exI [of _ "(rx M)\<lparr>rx_waiting := False\<rparr>"]) (simp add: rx_quiet_def same_capture_def)
next
  case False
  with assms show ?thesis by (intro exI [of _ "rx M"]) (simp add: rx_quiet_def same_capture_def)
qed

context mac_laws
begin

lemma server_sends_carries:
  assumes "server_sends L C lt remote l ak flags payload b rec" "unscoped remote" "strip_scope l = l"
  obtains sq where "carries L b \<lparr>seg_src = remote, seg_dst = l, seg_seq = sq, seg_ack = ak, seg_flags = flags, seg_data = payload_bytes payload\<rparr>"
    "length b \<le> MAX_PACKET_LEN" "decode_records L C rec lt remote = Ret (Inr [b])"
proof -
  from assms(1) obtain sq frame where b: "build_tcp_packet L remote l sq ak flags payload = Ret b" "framed C lt b frame" "length frame < 65536"
    "length b \<le> MAX_PACKET_LEN" "rec = stream [record_of frame] None" by (auto simp: server_sends_def)
  have "same_family remote l" "fits remote flags payload" using build_panics_iff [of remote l sq ak flags payload] b(1) by auto
  from build_carries [OF this, of sq ak] b(1) assms(2,3) have
    "carries L b \<lparr>seg_src = remote, seg_dst = l, seg_seq = sq, seg_ack = ak, seg_flags = flags, seg_data = payload_bytes payload\<rparr>"
    by (auto simp: strip_scope_def socket_addr_new_self)
  moreover have "decode_records L C rec lt remote = Ret (Inr [b])"
    using server_record_decoded [OF bpf_decoder_axioms b(1) assms(2) b(2,3)] b(5) by simp
  ultimately show ?thesis using b(4) that by blast
qed

lemma mac_round_trip_run:
  assumes inv: "mac_ok dev bufs F M" "wired dev F"
    and m: "main (fwd (ses M)) = Listening" "table (fwd (ses M)) x = None" "length d \<le> MAX_PACKET_LEN"
    and start: "32768 \<le> start" "start \<le> 60999"
    and co: "connect_open K start draw (fw_remote_addr F) (stk (ses M)) = Ret (Some (i, st1))" "sockets st1 i = Some (s0, ro)"
    and r: "reader_idle pending r (stk (ses M))"
    and q: "flume_send K b (flume_bounded K MPMC_BUFFER_LEN) = Some q1" "flume_recv K q1 = Some (b, q2)" "flume_send K b' q2 = Some q3"
    and remote: "unscoped (fw_remote_addr F)"
    and b: "server_sends L C (link_type (dev_capture dev)) (fw_remote_addr F) (local_addr s0) 1 18 None b rec"
    and b': "server_sends L C (link_type (dev_capture dev)) (fw_remote_addr F) (local_addr s0) ak 16 (Some d') b' rec'" "d' \<noteq> []"
    and rx: "queue (rx_cap (rx M)) = []" "rx_kernel (rx M) = rec # rec' # rest"
  shows "\<exists>M' c. (mac_step L C K F)\<^sup>*\<^sup>* M M' \<and> rx_kernel (rx M') = rest
    \<and> events (fwd (ses M')) = events (fwd (ses M)) @ [From_client x d, Tcp_send c d, Tcp_recv c d', To_client x d']
    \<and> sent_on_wire L (stk (ses M')) = sent_on_wire L (stk (ses M)) @ (if d = [] then [] else [(local_addr s0, d)])"
proof -
  from connect_open_effect [OF co(1)] co(2) have l: "strip_scope (local_addr s0) = local_addr s0"
    by (auto simp: client_end_def register_def Let_def socket_new_def)
  from server_sends_carries [OF b remote l] obtain sq where b1:
    "carries L b \<lparr>seg_src = fw_remote_addr F, seg_dst = local_addr s0, seg_seq = sq, seg_ack = 1, seg_flags = 18, seg_data = payload_bytes None\<rparr>"
    "length b \<le> MAX_PACKET_LEN" "decode_records L C rec (link_type (dev_capture dev)) (fw_remote_addr F) = Ret (Inr [b])" by blast
  from server_sends_carries [OF b'(1) remote l] obtain sq' where b2:
    "carries L b' \<lparr>seg_src = fw_remote_addr F, seg_dst = local_addr s0, seg_seq = sq', seg_ack = ak, seg_flags = 16, seg_data = payload_bytes (Some d')\<rparr>"
    "length b' \<le> MAX_PACKET_LEN" "decode_records L C rec' (link_type (dev_capture dev)) (fw_remote_addr F) = Ret (Inr [b'])" by blast
  have ok: "session_inv L queued backlog pending F (ses M)" using inv(1) by (simp add: mac_inv_def)
  from round_trip_run [OF ok m start co r q b1(1,2) _ _ _ _ b2(1,2)] b'(2) obtain S' c where
    S': "(calm_step L K F)\<^sup>*\<^sup>* (ses M) S'" "net_in S' = net_in (ses M) @ [b, b']"
      "events (fwd S') = events (fwd (ses M)) @ [From_client x d, Tcp_send c d, Tcp_recv c d', To_client x d']"
      "sent_on_wire L (stk S') = sent_on_wire L (stk (ses M)) @ (if d = [] then [] else [(local_addr s0, d)])"
    by (auto simp: payload_bytes_def)
  from r obtain R where "selects r R M" by (auto simp: reader_idle_def selects_def)
  from mac_resumes [OF this rx(1), of L C K F] obtain y where
    y: "(mac_step L C K F)\<^sup>*\<^sup>* M (M\<lparr>rx := y\<rparr>)" "rx_quiet y" "rx_kernel y = rec # rec' # rest" "same_capture y (rx M)"
    using rx(2) by auto
  have "holds_packet L C y rec b" "holds_packet L C y rec' b'"
    using b1(3) b2(3) inv holds_packet_same [OF y(4)] by (simp_all add: holds_packet_def mac_inv_def recv_inv_def wired_def)
  with mac_simulates [OF S'(1), of "M\<lparr>rx := y\<rparr>" "[b, b']" "[rec, rec']" rest C] y(2,3) S'(2) obtain M' where
    M': "(mac_step L C K F)\<^sup>*\<^sup>* (M\<lparr>rx := y\<rparr>) M'" "ses M' = S'" "rx_kernel (rx M') = rest" by auto
  have "(mac_step L C K F)\<^sup>*\<^sup>* M M'" using y(1) M'(1) by (rule rtranclp_trans)
  with M' S'(3,4) show ?thesis by blast
qed

end

section \<open>A sample run\<close>

definition sample_mac_forwarder :: ForwarderConfig where
  "sample_mac_forwarder = \<lparr>fw_remote_addr = V4 (SocketAddrV4 1 2), fake_tcp_local_ipv4 = 3325256714,
     fake_tcp_local_ipv6 = None, worker_count = 8, udp_ttl = 180\<rparr>"

definition sample_mac_tuple :: AddrTuple where
  "sample_mac_tuple = AddrTuple (V4 (SocketAddrV4 3325256714 40000)) (V4 (SocketAddrV4 1 2))"

abbreviation sample_starts :: "MacPacketDevice \<Rightarrow> bool" where
  "sample_starts dev \<equiv> client_started darwin_libc darwin_sock darwin_bpf sample_invocation ((), []) dev sample_mac_forwarder"

abbreviation sample_sends :: "u8 \<Rightarrow> bytes option \<Rightarrow> bytes \<Rightarrow> bytes \<Rightarrow> bool" where
  "sample_sends flags payload b rec \<equiv> server_sends wire_lib darwin_libc Ethernet (fw_remote_addr sample_mac_forwarder) (tuple_local sample_mac_tuple) 1 flags payload b rec"

lemma sample_started:
  obtains dev where "sample_starts dev" "link_type (dev_capture dev) = Ethernet"
proof -
  let ?w = "((), [])"
  have inv: "platform_of sample_invocation = sample_platform" "env_vars sample_invocation CLEANUP_MODE_ENV = None"
    by (simp_all add: sample_invocation_def)
  obtain dev w' where d: "device_new darwin_libc darwin_sock darwin_bpf sample_platform (V4 (SocketAddrV4 1 2)) None ?w = (Inr dev, w')"
    by (rule sample_device_opens)
  have "new_udp_reuseport (listener sample_invocation) (V4 (SocketAddrV4 2130706433 8080)) = Inr 9"
    by (simp add: sample_invocation_def new_udp_reuseport_def)
  with d inv(1) sample_setup have "sample_starts dev"
    by (cases w') (simp add: client_started_def client_main_normal [OF inv(2)] sample_mac_forwarder_def)
  moreover have "link_type (dev_capture dev) = Ethernet"
    using capture_open_configured [OF device_new_parts(1) [OF d], of wire_lib darwin_libc]
    by (simp add: sample_platform_def sample_bpf_kernel_def from_dlt_def BPF_DLT_NULL_def BPF_DLT_EN10MB_def)
  ultimately show ?thesis by (rule that)
qed

lemma sample_server_sends:
  assumes "length (payload_bytes payload) \<le> 1000"
  obtains b rec where "sample_sends flags payload b rec"
proof -
  let ?r = "fw_remote_addr sample_mac_forwarder" and ?l = "tuple_local sample_mac_tuple"
  have "same_family ?r ?l" "fits ?r flags payload"
    using assms by (simp_all add: same_family_def fits_def tcp_wire_len_def sample_mac_forwarder_def sample_mac_tuple_def)
  from wire.build_carries [OF this, of 0 1] obtain b where
    b: "build_tcp_packet wire_lib ?r ?l 0 1 flags payload = Ret b" "length b = packet_len ?r flags payload" by blast
  with assms have len: "length b \<le> 1044" by (simp add: packet_len_def tcp_wire_len_def sample_mac_forwarder_def)
  let ?frame = "replicate 12 0 @ tagged [] 0x0800 b"
  have "framed darwin_libc Ethernet b ?frame"
    unfolding framed_def LinkType.case by (intro exI [of _ "replicate 12 0"] exI [of _ "[]"] exI [of _ "0x0800"]) simp
  moreover have "length ?frame < 65536" "length b \<le> MAX_PACKET_LEN" using len by (simp_all add: MAX_PACKET_LEN_def)
  ultimately show ?thesis using b(1) that unfolding server_sends_def by blast
qed

abbreviation sample_mac :: "MacPacketDevice \<Rightarrow> bytes list \<Rightarrow> (nat \<times> bytes list, nat \<times> nat list, nat \<times> AddrTuple list) MacClient" where
  "sample_mac dev bufs \<equiv> mac_new list_channels 0 dev bufs sample_mac_forwarder"

lemma sample_mac_sel:
  "stk (ses (sample_mac dev bufs)) = sample_stack0" "main (fwd (ses (sample_mac dev bufs))) = Listening"
  "table (fwd (ses (sample_mac dev bufs))) x = None" "events (fwd (ses (sample_mac dev bufs))) = []" "net_in (ses (sample_mac dev bufs)) = []"
  "rx (sample_mac dev bufs) = recv_start (dev_capture dev) bufs"
  by (simp_all add: mac_new_def session_new_def sample_mac_forwarder_def sample_stack0_def fwd_new_def)

lemma sample_mac_idle: "reader_idle snd 0 (stk (ses (sample_mac dev bufs)))"
  by (simp add: sample_mac_sel sample_stack0_reader reader_idle_def)

lemma sample_mac_reachable: "mac_reachable wire_lib darwin_libc list_channels dev bufs sample_mac_forwarder (sample_mac dev bufs)"
  unfolding mac_reachable_def by blast

lemma sample_mac_opens:
  obtains st1 s0 where "connect_open list_channels 40000 0 (fw_remote_addr sample_mac_forwarder) sample_stack0 = Ret (Some (0, st1))"
    "sockets st1 0 = Some (s0, Connecting 0)" "local_addr s0 = tuple_local sample_mac_tuple"
proof -
  obtain ps where p: "port_range 40000 = word_of_nat 40000 # ps" using port_range_Cons [of 40000] by auto
  let ?st = "register list_channels 0 sample_mac_tuple None (Connecting 0) sample_stack0"
  have "connect_ports list_channels 0 (fw_remote_addr sample_mac_forwarder) (word_of_nat 40000 # ps) sample_stack0 = Ret (Some (0, ?st))"
    by (simp add: connect_local_def sample_mac_tuple_def sample_mac_forwarder_def sample_stack0_def stack_new_def choose_device_def)
  then have "connect_open list_channels 40000 0 (fw_remote_addr sample_mac_forwarder) sample_stack0 = Ret (Some (0, ?st))"
    unfolding connect_open_def p .
  then show ?thesis
    by (rule that [of _ "socket_new 0 0 (tuple_local sample_mac_tuple) (tuple_remote sample_mac_tuple) None Idle"])
      (simp_all add: register_def Let_def sample_stack0_def stack_new_def socket_new_def)
qed

lemma sample_mac_ready:
  assumes "sample_starts dev"
  shows "queue (rx_cap (rx (sample_mac dev bufs))) = []"
  using client_started_wired [OF assms] by (simp add: sample_mac_sel recv_start_def wired_def)

text \<open>Everything that an exchange needs: a started client, a free port, and the server's two packets.\<close>

lemma sample_mac_setting:
  obtains dev b rec b' rec' st1 s0 where "sample_starts dev"
    "connect_open list_channels 40000 0 (fw_remote_addr sample_mac_forwarder) (stk (ses (sample_mac dev [rec, rec']))) = Ret (Some (0, st1))"
    "sockets st1 0 = Some (s0, Connecting 0)"
    "server_sends wire_lib darwin_libc (link_type (dev_capture dev)) (fw_remote_addr sample_mac_forwarder) (local_addr s0) 1 18 None b rec"
    "server_sends wire_lib darwin_libc (link_type (dev_capture dev)) (fw_remote_addr sample_mac_forwarder) (local_addr s0) 1 16 (Some [8, 9]) b' rec'"
proof -
  obtain dev where dev: "sample_starts dev" "link_type (dev_capture dev) = Ethernet" by (rule sample_started)
  obtain b rec where b: "sample_sends 18 None b rec" by (rule sample_server_sends [of None]) (simp add: payload_bytes_def)
  obtain b' rec' where b': "sample_sends 16 (Some [8, 9]) b' rec'" by (rule sample_server_sends [of "Some [8, 9]"]) (simp add: payload_bytes_def)
  obtain st1 s0 where co: "connect_open list_channels 40000 0 (fw_remote_addr sample_mac_forwarder) sample_stack0 = Ret (Some (0, st1))"
    "sockets st1 0 = Some (s0, Connecting 0)" "local_addr s0 = tuple_local sample_mac_tuple" by (rule sample_mac_opens)
  from dev b b' co show ?thesis by (intro that [of dev rec rec' st1 s0 b b']) (simp_all add: sample_mac_sel)
qed

lemma sample_mac_side:
  "length [7::8 word] \<le> MAX_PACKET_LEN" "(32768::nat) \<le> 40000" "(40000::nat) \<le> 60999"
  "unscoped (fw_remote_addr sample_mac_forwarder)" "[8, 9::8 word] \<noteq> []" "rx_kernel (rx (sample_mac dev bufs)) = bufs"
  by (simp_all add: MAX_PACKET_LEN_def sample_mac_forwarder_def mac_new_def recv_start_def)

lemma sample_mac_run:
  obtains dev rec rec' M where "sample_starts dev" "mac_reachable wire_lib darwin_libc list_channels dev [rec, rec'] sample_mac_forwarder M"
    "To_client sample_peer [8, 9] \<in> set (events (fwd (ses M)))"
proof -
  obtain dev b rec b' rec' st1 s0 where dev: "sample_starts dev"
    and co: "connect_open list_channels 40000 0 (fw_remote_addr sample_mac_forwarder) (stk (ses (sample_mac dev [rec, rec']))) = Ret (Some (0, st1))"
      "sockets st1 0 = Some (s0, Connecting 0)"
    and b: "server_sends wire_lib darwin_libc (link_type (dev_capture dev)) (fw_remote_addr sample_mac_forwarder) (local_addr s0) 1 18 None b rec"
      "server_sends wire_lib darwin_libc (link_type (dev_capture dev)) (fw_remote_addr sample_mac_forwarder) (local_addr s0) 1 16 (Some [8, 9]) b' rec'"
    by (rule sample_mac_setting)
  from mac_lists.mac_round_trip_run [OF mac_lists.mac_reachable_ok [OF dev sample_mac_reachable] client_started_wired [OF dev]
      sample_mac_sel(2,3) sample_mac_side(1-3) co sample_mac_idle sample_channel(1,2,3) sample_mac_side(4) b sample_mac_side(5)
      sample_mac_ready [OF dev] sample_mac_side(6), of sample_peer]
  obtain M c where "(mac_step wire_lib darwin_libc list_channels sample_mac_forwarder)\<^sup>*\<^sup>* (sample_mac dev [rec, rec']) M"
    "events (fwd (ses M)) = events (fwd (ses (sample_mac dev [rec, rec'])))
       @ [From_client sample_peer [7], Tcp_send c [7], Tcp_recv c [8, 9], To_client sample_peer [8, 9]]" by blast
  with dev show ?thesis by (intro that [of dev rec rec' M]) (auto simp: mac_reachable_def)
qed

lemma sample_mac_sent:
  obtains dev M n b where "sample_starts dev" "mac_reachable wire_lib darwin_libc list_channels dev [] sample_mac_forwarder M"
    "(n, b) \<in> set (trace (stk (ses M)))"
proof -
  obtain dev where dev: "sample_starts dev" by (rule sample_started)
  obtain st1 s0 where co: "connect_open list_channels 40000 0 (fw_remote_addr sample_mac_forwarder) sample_stack0 = Ret (Some (0, st1))"
    "sockets st1 0 = Some (s0, Connecting 0)" by (rule sample_mac_opens)
  let ?M = "sample_mac dev []"
  have ok: "session_inv wire_lib snd snd snd sample_mac_forwarder (ses ?M)"
    using mac_lists.mac_reachable_ok [OF dev sample_mac_reachable] by (simp add: mac_inv_def)
  have len: "length [7::8 word] \<le> MAX_PACKET_LEN" by (simp add: MAX_PACKET_LEN_def)
  have co': "connect_open list_channels 40000 0 (fw_remote_addr sample_mac_forwarder) (stk (ses ?M)) = Ret (Some (0, st1))"
    using co(1) by (simp add: sample_mac_sel)
  from lists.dial_run [OF ok sample_mac_sel(2,3) len _ _ co' co(2)] obtain S where
    S: "(calm_step wire_lib list_channels sample_mac_forwarder)\<^sup>*\<^sup>* (ses ?M) S" "net_in S = net_in (ses ?M) @ []" "trace (stk S) \<noteq> []" by auto
  have "rx_quiet (rx ?M)" using sample_mac_ready [OF dev, of "[]"] by (simp add: rx_quiet_def sample_mac_sel recv_start_def)
  from mac_simulates [OF S(1) refl this S(2), of "[]" "[]" darwin_libc] obtain M where
    M: "(mac_step wire_lib darwin_libc list_channels sample_mac_forwarder)\<^sup>*\<^sup>* ?M M" "ses M = S"
    by (auto simp: sample_mac_sel recv_start_def)
  from S(3) M(2) obtain n b where "(n, b) \<in> set (trace (stk (ses M)))" by (cases "trace (stk S)") auto
  with dev M show ?thesis by (intro that) (auto simp: mac_reachable_def)
qed

section \<open>Properties\<close>

text \<open>
  C5: the client talks to nobody but its server. Every packet that a started client gives to its device,
  the resets of its reader included, is a TCP segment addressed to the configured server. The device submits it to its raw socket
  with the server's address as the destination: over IPv4 the whole packet, with the total length and the fragment offset in host
  order and every other byte unchanged, over IPv6 exactly the TCP segment that the packet parser finds in it.
\<close>

theorem mac_sends_only_to_server:
  assumes "mac_laws L K queued backlog pending capacity C" and "client_started C A B I w dev F"
    and "mac_reachable L C K dev bufs F M" and "(n, b) \<in> set (trace (stk (ses M)))"
  shows "(\<exists>Sg. carries L b Sg \<and> seg_dst Sg = strip_scope (fw_remote_addr F))
    \<and> (\<exists>q. raw_buffer L (dev_sender dev) q b \<and> (\<forall>sendto. sender_write A C (dev_sender dev) sendto b =
         io_bind (send_to sendto (sender_fd (dev_sender dev)) q (destination_of A C (fw_remote_addr F))
           (address_len_of A (fw_remote_addr F))) (\<lambda>_. Inr (length b))))"
proof -
  from mac_laws.mac_reachable_ok [OF assms(1-3)] assms(4) obtain l sq ak flags payload where
    b: "build_tcp_packet L l (fw_remote_addr F) sq ak flags payload = Ret b"
    by (force simp: mac_inv_def sent_to_def built_for_def)
  obtain l6 where "raw_sender_new A C (p_raw (platform_of I)) (fw_remote_addr F) l6 = Inr (dev_sender dev)"
    by (rule client_started_sender [OF assms(2)])
  note q = bpf_decoder.built_packet_submitted [OF mac_laws.axioms(2) [OF assms(1)] b this]
  have pl: "packet_layout L" by (rule bpf_decoder.axioms [OF mac_laws.axioms(2) [OF assms(1)]])
  from packet_layout.build_panics_iff [OF pl, of l "fw_remote_addr F" sq ak flags payload] b
  have "same_family l (fw_remote_addr F)" "fits l flags payload" by simp_all
  from packet_layout.build_carries [OF pl this, of sq ak] b q show ?thesis by auto
qed

theorem mac_sends_only_to_server_witness:
  "\<exists>dev M n b Sg. sample_starts dev \<and> mac_reachable wire_lib darwin_libc list_channels dev [] sample_mac_forwarder M
     \<and> (n, b) \<in> set (trace (stk (ses M))) \<and> carries wire_lib b Sg \<and> seg_dst Sg = V4 (SocketAddrV4 1 2)"
proof -
  obtain dev M n b where M: "sample_starts dev" "mac_reachable wire_lib darwin_libc list_channels dev [] sample_mac_forwarder M"
    "(n, b) \<in> set (trace (stk (ses M)))" by (rule sample_mac_sent)
  from mac_sends_only_to_server [OF mac_laws_lists M] obtain Sg where
    "carries wire_lib b Sg" "seg_dst Sg = strip_scope (fw_remote_addr sample_mac_forwarder)" by blast
  moreover have "strip_scope (fw_remote_addr sample_mac_forwarder) = V4 (SocketAddrV4 1 2)"
    by (simp add: strip_scope_def sample_mac_forwarder_def)
  ultimately show ?thesis
    using M by (intro exI [of _ dev] exI [of _ M] exI [of _ n] exI [of _ b] exI [of _ Sg]) simp
qed

text \<open>
  C6: from the network card to the clients. In every run of a started client, what the workers of a
  connection receive are the payloads of packets that the kernel delivered in its buffers, in the
  kernel's order, all of them sent by the configured server to the local address of this connection;
  and everything a client is sent is the payload of such a packet on a connection of this client.
\<close>

theorem mac_downstream:
  assumes "mac_laws L K queued backlog pending capacity C" and "client_started C A B I w dev F"
    and "mac_reachable L C K dev bufs F M"
  shows "(\<forall>c<length (conns (fwd (ses M))). \<exists>bs. subseq bs (fitting (concat (map (packets_in L C (dev_capture dev)) bufs)))
       \<and> list_all2 (\<lambda>b d. \<exists>Sg. carries L b Sg \<and> seg_src Sg = fw_remote_addr F \<and> seg_dst Sg = local_of (ses M) c \<and> seg_data Sg = d)
           bs (recvs c (fwd (ses M))))
    \<and> (\<forall>x d. To_client x d \<in> set (events (fwd (ses M)))
         \<longrightarrow> (\<exists>c<length (conns (fwd (ses M))). peer (conns (fwd (ses M)) ! c) = x \<and> d \<in> set (recvs c (fwd (ses M)))))"
proof -
  have ok: "mac_inv L C queued backlog pending dev bufs F M" by (rule mac_laws.mac_reachable_ok [OF assms])
  then have inv: "session_link F (ses M)" "session_fifo L queued (ses M)" "session_recvs L (ses M)" "fw_all (fwd (ses M))"
    by (simp_all add: mac_inv_def session_inv_def)
  have pl: "packet_layout L" by (rule bpf_decoder.axioms [OF mac_laws.axioms(2) [OF assms(1)]])
  have "subseq (net_in (ses M)) (fitting (concat (map (packets_in L C (dev_capture dev)) bufs)))"
    using delivered_subseq [of L C "dev_capture dev" bufs "rx M"] ok client_started_wired [OF assms(2)]
    by (simp add: mac_inv_def wired_def)
  with recvs_packets [OF inv(1-3) _ pl] answers_received [OF inv(4)] show ?thesis
    by (blast intro: subseq_order.trans)
qed

theorem mac_downstream_witness:
  "\<exists>dev bufs M b Sg. sample_starts dev \<and> mac_reachable wire_lib darwin_libc list_channels dev bufs sample_mac_forwarder M
     \<and> b \<in> set (concat (map (packets_in wire_lib darwin_libc (dev_capture dev)) bufs))
     \<and> carries wire_lib b Sg \<and> seg_src Sg = fw_remote_addr sample_mac_forwarder \<and> seg_data Sg = [8, 9]"
proof -
  obtain dev rec rec' M where M: "sample_starts dev" "mac_reachable wire_lib darwin_libc list_channels dev [rec, rec'] sample_mac_forwarder M"
    "To_client sample_peer [8, 9] \<in> set (events (fwd (ses M)))" by (rule sample_mac_run)
  note down = mac_downstream [OF mac_laws_lists M(1,2)]
  from down M(3) obtain c where c: "c < length (conns (fwd (ses M)))" "[8, 9] \<in> set (recvs c (fwd (ses M)))" by blast
  let ?all = "concat (map (packets_in wire_lib darwin_libc (dev_capture dev)) [rec, rec'])"
  from down c(1) obtain bs where bs: "subseq bs (fitting ?all)" "list_all2 (\<lambda>b d. \<exists>Sg. carries wire_lib b Sg
      \<and> seg_src Sg = fw_remote_addr sample_mac_forwarder \<and> seg_dst Sg = local_of (ses M) c \<and> seg_data Sg = d) bs (recvs c (fwd (ses M)))" by blast
  from c(2) obtain i where i: "i < length (recvs c (fwd (ses M)))" "recvs c (fwd (ses M)) ! i = [8, 9]" by (auto simp: in_set_conv_nth)
  with bs(2) obtain Sg where Sg: "bs ! i \<in> set bs" "carries wire_lib (bs ! i) Sg" "seg_src Sg = fw_remote_addr sample_mac_forwarder"
    "seg_data Sg = [8, 9]" by (auto simp: list_all2_conv_all_nth)
  moreover have "bs ! i \<in> set ?all" using subseq_set [OF bs(1)] Sg(1) by auto
  ultimately show ?thesis using M(1,2) by blast
qed

text \<open>
  C22: why a reader of a started client dies. In every step of a run in which a reader is lost, its call
  of \<open>recv\<close> was suspended and ended without a buffer, or it had missed purge messages, or the socket it was
  sending a packet to had been dropped since the lookup, or the device refused the reset it answered
  the server with. A packet never ends a reader, whatever the server sends.
\<close>

theorem mac_reader_deaths:
  assumes "mac_laws L K queued backlog pending capacity C" and "client_started C A B I w dev F"
    and "mac_reachable L C K dev bufs F M" and "mac_step L C K F M M'"
    and "readers (stk (ses M)) r = Some R" and "readers (stk (ses M')) r = None"
  shows "pc R = reader_pc.Waiting \<and> rx_waiting (rx M) \<and> \<not> rx_waiting (rx M') \<and> rx_read (rx M') = rx_read (rx M)
    \<or> pc R = reader_pc.Waiting \<and> capacity (purge R) < length (pending (purge R))
    \<or> (\<exists>c b. pc R = reader_pc.Sending c b \<and> sockets (stk (ses M)) c = None)
    \<or> (\<exists>u t e. pc R = Missing u t \<and> tuple_remote u = fw_remote_addr F
         \<and> reader_act L K False (Inl e) r R (stk (ses M)) = Some (Panic Unwrap_failed))"
proof -
  have ok: "mac_inv L C queued backlog pending dev bufs F M" by (rule mac_laws.mac_reachable_ok [OF assms(1-3)])
  have sl: "stack_laws L K queued backlog pending capacity" by (rule mac_laws.axioms(1) [OF assms(1)])
  have st: "stack_inv L queued backlog pending (stk (ses M))" "answers_server (fw_remote_addr F) (stk (ses M))"
    "session_link F (ses M)" "fw_inv (fwd (ses M))"
    using ok by (simp_all add: mac_inv_def session_inv_def fw_all_def)
  note dies = assms(5,6)
  from assms(4) show ?thesis
  proof cases
    case (mac_gets r' R' b st')
    with dies reader_recv_kept [OF mac_gets(5) dies(1)] show ?thesis by simp
  next
    case (mac_chokes r' R' b p)
    with mac_laws.never_chokes [OF assms(1) ok client_started_wired [OF assms(2)], of b r' R'] show ?thesis by simp
  next
    case (mac_fails r' R')
    with dies have "r' = r" by (auto simp: reader_dies_def split: if_splits)
    with mac_fails dies show ?thesis by (simp add: selects_def)
  next
    case (mac_purges r' R' st')
    with dies reader_purge_kept [OF mac_purges(3) dies(1)] show ?thesis by simp
  next
    case (mac_lags r' R' p)
    with dies have "r' = r" by (auto simp: reader_dies_def split: if_splits)
    with mac_lags dies have R: "R' = R" "pc R = reader_pc.Waiting" by (simp_all add: selects_def)
    with mac_lags(3) have "\<exists>b'. broadcast_recv K (purge R) = Some (None, b')"
      by (auto simp: reader_purge_def split: option.splits)
    with channel_laws.broadcast_lag [OF stack_laws.axioms(2) [OF sl]] R show ?thesis by blast
  next
    case (mac_acts r' R' try_res st')
    with dies reader_act_kept [OF mac_acts(3) dies(1)] show ?thesis by simp
  next
    case (mac_panics r' R' try_res p)
    with dies have "r' = r" by (auto simp: reader_dies_def split: if_splits)
    with mac_panics dies have act: "reader_act L K False try_res r R (stk (ses M)) = Some (Panic p)" by simp
    from stack_laws.reader_act_panics [OF sl st(1) dies(1) act] act show ?thesis
      using st(2) dies(1) by (auto simp: answers_server_def)
  next
    case (mac_forwards S')
    from forward_step_for [OF mac_forwards(2) st(3,4)] dies mac_forwards(1) show ?thesis
      unfolding sends_for_def by (metis MacClient.select_convs(1) MacClient.surjective MacClient.update_convs(1) option.map_disc_iff option.distinct(1))
  qed (use dies in simp_all)
qed

theorem mac_reader_deaths_witness:
  "\<exists>dev M M'. sample_starts dev \<and> mac_reachable wire_lib darwin_libc list_channels dev [] sample_mac_forwarder M
     \<and> mac_step wire_lib darwin_libc list_channels sample_mac_forwarder M M' \<and> readers (stk (ses M)) 0 \<noteq> None
     \<and> readers (stk (ses M')) 0 = None \<and> rx_waiting (rx M) \<and> rx_read (rx M') = rx_read (rx M)"
proof -
  let ?step = "mac_step wire_lib darwin_libc list_channels sample_mac_forwarder"
  obtain dev where dev: "sample_starts dev" by (rule sample_started)
  let ?M = "sample_mac dev []" and ?R = "\<lparr>cache = Map.empty, purge = (16 :: nat, [] :: AddrTuple list), pc = reader_pc.Waiting\<rparr>"
  let ?N = "?M\<lparr>rx := recv_poll (rx ?M)\<rparr>"
  let ?N' = "set_stk (reader_dies 0 (stk (ses ?N))) (?N\<lparr>rx := (rx ?N)\<lparr>rx_waiting := False\<rparr>\<rparr>)"
  have sel: "selects 0 ?R ?M" "selects 0 ?R ?N" by (simp_all add: selects_def sample_mac_sel sample_stack0_reader)
  have q: "queue (rx_cap (rx ?M)) = []" by (rule sample_mac_ready [OF dev])
  have "?step ?M ?N" using mac_suspends [OF sel(1), of wire_lib darwin_libc list_channels sample_mac_forwarder] q
    by (simp add: sample_mac_sel recv_poll_def) (simp add: recv_start_def)
  then have N: "mac_reachable wire_lib darwin_libc list_channels dev [] sample_mac_forwarder ?N"
    unfolding mac_reachable_def by blast
  have "rx_waiting (rx ?N)" using q by (simp add: recv_poll_def)
  from mac_fails [OF sel(2) this] have N': "?step ?N ?N'" .
  have r: "readers (stk (ses ?N)) 0 = Some ?R" "readers (stk (ses ?N')) 0 = None"
    using sel(2) by (simp_all add: selects_def reader_dies_def)
  from mac_reader_deaths [OF mac_laws_lists dev N N' r] have "rx_waiting (rx ?N) \<and> rx_read (rx ?N') = rx_read (rx ?N)" by auto
  with dev N N' r show ?thesis by (intro exI [of _ dev] exI [of _ ?N] exI [of _ ?N']) simp
qed

text \<open>
  C17: the started client refines its parts. Every run on the device is a run of the session of the
  forwarder and the stack, and a run of the receive side of the device from the capture as it was
  opened; the two runs meet in the packets: those the session reads from the network are, in this order,
  those the device has delivered.
\<close>

theorem mac_refines:
  assumes "mac_laws L K queued backlog pending capacity C" and "client_started C A B I w dev F"
    and "mac_reachable L C K dev bufs F M"
  shows "session_reachable L K F (ses M) \<and> (recv_step L C)\<^sup>*\<^sup>* (recv_start (dev_capture dev) bufs) (rx M)
    \<and> net_in (ses M) = rx_out (rx M)"
proof -
  from assms(3) obtain d where run: "(mac_step L C K F)\<^sup>*\<^sup>* (mac_new K d dev bufs F) M" by (auto simp: mac_reachable_def)
  have "(session_step L K F)\<^sup>*\<^sup>* (ses (mac_new K d dev bufs F)) (ses M)"
    by (rule run_projects [OF mac_step_session run])
  moreover have "(recv_step L C)\<^sup>*\<^sup>* (rx (mac_new K d dev bufs F)) (rx M)"
    by (rule run_projects [OF mac_step_recv run])
  moreover have "net_in (ses M) = rx_out (rx M)"
    using mac_laws.mac_reachable_ok [OF assms] by (simp add: mac_inv_def)
  ultimately show ?thesis by (auto simp: mac_new_def session_reachable_def)
qed

theorem mac_refines_witness:
  "\<exists>dev bufs M. sample_starts dev \<and> mac_reachable wire_lib darwin_libc list_channels dev bufs sample_mac_forwarder M
     \<and> To_client sample_peer [8, 9] \<in> set (events (fwd (ses M))) \<and> session_reachable wire_lib list_channels sample_mac_forwarder (ses M)
     \<and> net_in (ses M) = rx_out (rx M)"
proof -
  obtain dev rec rec' M where M: "sample_starts dev" "mac_reachable wire_lib darwin_libc list_channels dev [rec, rec'] sample_mac_forwarder M"
    "To_client sample_peer [8, 9] \<in> set (events (fwd (ses M)))" by (rule sample_mac_run)
  from mac_refines [OF mac_laws_lists M(1,2)] M show ?thesis by blast
qed

text \<open>
  C7: a whole exchange on the device. Take a reachable state of a started client in which the main loop listens, the reader
  waits for a packet and has read its purge messages, the capture holds no decoded packets, and a local port is free; a server
  whose address has no scope; and a datagram of a client that has no connection. When the channel of the new socket takes two packets
  and the next two buffers of the kernel hold the server's SYN+ACK and its answer, the client can run so that it connects, hands
  the device exactly this datagram for the server, from the address of the new connection (nothing for an empty one),
  and sends the server's answer to the client that sent the datagram, consuming just these two buffers.
\<close>

theorem mac_round_trip:
  assumes "mac_laws L K queued backlog pending capacity C" and "client_started C A B I w dev F"
    and "mac_reachable L C K dev bufs F M"
    and "main (fwd (ses M)) = Listening" and "table (fwd (ses M)) x = None" and "length d \<le> MAX_PACKET_LEN"
    and "32768 \<le> start" and "start \<le> 60999"
    and "connect_open K start draw (fw_remote_addr F) (stk (ses M)) = Ret (Some (i, st1))" and "sockets st1 i = Some (s0, ro)"
    and "reader_idle pending r (stk (ses M))"
    and "flume_send K b (flume_bounded K MPMC_BUFFER_LEN) = Some q1" and "flume_recv K q1 = Some (b, q2)"
    and "flume_send K b' q2 = Some q3" and "unscoped (fw_remote_addr F)"
    and "server_sends L C (link_type (dev_capture dev)) (fw_remote_addr F) (local_addr s0) 1 18 None b rec"
    and "server_sends L C (link_type (dev_capture dev)) (fw_remote_addr F) (local_addr s0) ak 16 (Some d') b' rec'" and "d' \<noteq> []"
    and "queue (rx_cap (rx M)) = []" and "rx_kernel (rx M) = rec # rec' # rest"
  shows "\<exists>M' c. (mac_step L C K F)\<^sup>*\<^sup>* M M' \<and> rx_kernel (rx M') = rest
    \<and> events (fwd (ses M')) = events (fwd (ses M)) @ [From_client x d, Tcp_send c d, Tcp_recv c d', To_client x d']
    \<and> sent_on_wire L (stk (ses M')) = sent_on_wire L (stk (ses M)) @ (if d = [] then [] else [(local_addr s0, d)])"
  by (rule mac_laws.mac_round_trip_run [OF assms(1) mac_laws.mac_reachable_ok [OF assms(1-3)] client_started_wired [OF assms(2)] assms(4-20)])

theorem mac_round_trip_witness:
  "\<exists>dev rec rec' M c. sample_starts dev
     \<and> (mac_step wire_lib darwin_libc list_channels sample_mac_forwarder)\<^sup>*\<^sup>* (sample_mac dev [rec, rec']) M \<and> rx_kernel (rx M) = []
     \<and> events (fwd (ses M)) = [From_client sample_peer [7], Tcp_send c [7], Tcp_recv c [8, 9], To_client sample_peer [8, 9]]
     \<and> map snd (sent_on_wire wire_lib (stk (ses M))) = [[7]]"
proof -
  obtain dev b rec b' rec' st1 s0 where dev: "sample_starts dev"
    and co: "connect_open list_channels 40000 0 (fw_remote_addr sample_mac_forwarder) (stk (ses (sample_mac dev [rec, rec']))) = Ret (Some (0, st1))"
      "sockets st1 0 = Some (s0, Connecting 0)"
    and b: "server_sends wire_lib darwin_libc (link_type (dev_capture dev)) (fw_remote_addr sample_mac_forwarder) (local_addr s0) 1 18 None b rec"
      "server_sends wire_lib darwin_libc (link_type (dev_capture dev)) (fw_remote_addr sample_mac_forwarder) (local_addr s0) 1 16 (Some [8, 9]) b' rec'"
    by (rule sample_mac_setting)
  have wire0: "sent_on_wire wire_lib (stk (ses (sample_mac dev [rec, rec']))) = []"
    by (simp add: sample_mac_sel sample_stack0_def stack_new_def sent_on_wire_def)
  from mac_round_trip [OF mac_laws_lists dev sample_mac_reachable sample_mac_sel(2,3) sample_mac_side(1-3) co sample_mac_idle
      sample_channel(1,2,3) sample_mac_side(4) b sample_mac_side(5) sample_mac_ready [OF dev] sample_mac_side(6), of sample_peer]
  obtain M c where M: "(mac_step wire_lib darwin_libc list_channels sample_mac_forwarder)\<^sup>*\<^sup>* (sample_mac dev [rec, rec']) M"
    "rx_kernel (rx M) = []" "events (fwd (ses M)) = [From_client sample_peer [7], Tcp_send c [7], Tcp_recv c [8, 9], To_client sample_peer [8, 9]]"
    "sent_on_wire wire_lib (stk (ses M)) = [(local_addr s0, [7])]"
    unfolding sample_mac_sel(4) append_Nil wire0 by auto
  then have "map snd (sent_on_wire wire_lib (stk (ses M))) = [[7]]" by simp
  with dev M(1-3) show ?thesis
    by (intro exI [of _ dev] exI [of _ rec] exI [of _ rec'] exI [of _ M] exI [of _ c]) simp
qed

end
