(* ===== verification/Tun.thy ===== *)
theory Tun
  imports Device
begin

text \<open>
  \<open>fake-tcp/src/tun.rs\<close>: the devices for Linux and Windows behind the trait \<open>TunDevice\<close>. The crates \<open>tokio_tun\<close>
  and \<open>windivert\<close> are parameters: a device is given by the answers of its operations.
\<close>

section \<open>Linux\<close>

text \<open>The operations of \<open>tokio_tun::Tun\<close>: a receive gives its result and the buffer.\<close>

record tokio_tun =
  tt_recv :: "bytes \<Rightarrow> nat io \<times> bytes"
  tt_send :: "bytes \<Rightarrow> nat io"
  tt_try_send :: "bytes \<Rightarrow> nat io"
  tt_name :: string

definition linux_recv :: "tokio_tun \<Rightarrow> bytes \<Rightarrow> nat io \<times> bytes" where
  "linux_recv T buf = tt_recv T buf"

definition linux_send :: "tokio_tun \<Rightarrow> bytes \<Rightarrow> nat io" where
  "linux_send T buf = tt_send T buf"

definition linux_try_send :: "tokio_tun \<Rightarrow> bytes \<Rightarrow> unit io" where
  "linux_try_send T buf = io_bind (tt_try_send T buf) (\<lambda>_. Inr ())"

definition linux_name :: "tokio_tun \<Rightarrow> string" where
  "linux_name T = tt_name T"

section \<open>Windows\<close>

text \<open>A packet for the driver, and the driver itself: opening a handle with a filter, and sending.\<close>

record WinDivertPacket =
  wd_data :: bytes
  wd_outbound :: bool

record ('e, 'h) windivert =
  wd_show :: "'e \<Rightarrow> string"
  wd_network :: "string \<Rightarrow> 'e + 'h"
  wd_send :: "'h \<Rightarrow> WinDivertPacket \<Rightarrow> 'e + unit"

definition windivert_error :: "('e, 'h) windivert \<Rightarrow> string \<Rightarrow> 'e \<Rightarrow> io_error" where
  "windivert_error W what e = Custom Other (what @ '' failed: '' @ wd_show W e)"

definition windivert_filter :: "socket_addr \<Rightarrow> string" where
  "windivert_filter remote =
     ''tcp and ip.SrcAddr == '' @ show_ip (addr_ip remote) @ '' and tcp.SrcPort == '' @ show_nat (unat (addr_port remote))"

definition windivert_new :: "('e, 'h) windivert \<Rightarrow> socket_addr \<Rightarrow> 'h io" where
  "windivert_new W remote =
     (case wd_network W (windivert_filter remote) of
        Inl e \<Rightarrow> Inl (windivert_error W ''WinDivertOpen'' e)
      | Inr h \<Rightarrow> Inr h)"

text \<open>
  The loop of the blocking task. The answers of \<open>recv_wait\<close> are an error, a timeout, or the bytes of a
  packet, which the driver has written to the front of the task's buffer; the loop has no value while
  the answers are not there.
\<close>

fun windivert_recv_loop :: "('e, 'h) windivert \<Rightarrow> ('e + bytes option) list \<Rightarrow> bytes io option" where
  "windivert_recv_loop W [] = None"
| "windivert_recv_loop W (Inr (Some data) # answers) = Some (Inr data)"
| "windivert_recv_loop W (Inr None # answers) = windivert_recv_loop W answers"
| "windivert_recv_loop W (Inl e # answers) = Some (Inl (windivert_error W ''WinDivert recv'' e))"

text \<open>\<open>task\<close>: the message of a task that could not be joined, or what its loop sees.\<close>

definition windivert_recv ::
  "('e, 'h) windivert \<Rightarrow> string + ('e + bytes option) list \<Rightarrow> bytes \<Rightarrow> (nat io \<times> bytes) option" where
  "windivert_recv W task buf =
     (case task of
        Inl m \<Rightarrow> Some (Inl (Custom Other m), buf)
      | Inr answers \<Rightarrow>
          (case windivert_recv_loop W answers of
             None \<Rightarrow> None
           | Some (Inl e) \<Rightarrow> Some (Inl e, buf)
           | Some (Inr data) \<Rightarrow>
               let len = min (length data) (length buf) in
               Some (Inr len, write_at 0 (take len data) buf)))"

definition outbound_packet :: "bytes \<Rightarrow> WinDivertPacket" where
  "outbound_packet buf = \<lparr>wd_data = buf, wd_outbound = True\<rparr>"

definition windivert_send :: "('e, 'h) windivert \<Rightarrow> 'h \<Rightarrow> string option \<Rightarrow> bytes \<Rightarrow> nat io" where
  "windivert_send W h join_error buf =
     (case join_error of
        Some m \<Rightarrow> Inl (Custom Other m)
      | None \<Rightarrow>
          (case wd_send W h (outbound_packet buf) of
             Inl e \<Rightarrow> Inl (windivert_error W ''WinDivert send'' e)
           | Inr _ \<Rightarrow> Inr (length buf)))"

definition windivert_try_send :: "('e, 'h) windivert \<Rightarrow> 'h \<Rightarrow> bytes \<Rightarrow> unit io" where
  "windivert_try_send W h buf =
     (case wd_send W h (outbound_packet buf) of
        Inl e \<Rightarrow> Inl (windivert_error W ''WinDivert send'' e)
      | Inr _ \<Rightarrow> Inr ())"

definition windivert_name :: string where
  "windivert_name = ''WinDivert''"

section \<open>Properties\<close>

lemma windivert_recv_loop_eq:
  "windivert_recv_loop W answers =
     (case dropWhile (\<lambda>a. a = Inr None) answers of
        [] \<Rightarrow> None
      | a # _ \<Rightarrow> Some (case a of Inl e \<Rightarrow> Inl (windivert_error W ''WinDivert recv'' e)
                        | Inr d \<Rightarrow> Inr (case d of None \<Rightarrow> [] | Some x \<Rightarrow> x)))"
  by (induction W answers rule: windivert_recv_loop.induct) simp_all

text \<open>A send without a failure of its task and the synchronous send agree.\<close>

lemma windivert_sends_agree: "windivert_try_send W h buf = io_bind (windivert_send W h None buf) (\<lambda>_. Inr ())"
  by (simp add: windivert_try_send_def windivert_send_def split: sum.splits)

text \<open>
  Receiving on Windows. However often the driver times out first, the first packet it returns is handed
  to the reader whole and unchanged when it is not longer than the driver's buffer, and the reader's
  handler does not panic on it if it is a TCP packet; an error of the driver is reported as an error of
  kind \<open>Other\<close> and leaves the reader's buffer as it was, and while there are only timeouts the call waits.
\<close>

theorem windivert_recv_exact:
  assumes "list_all (\<lambda>a. a = Inr None) waits"
  shows "(length d \<le> MAX_PACKET_LEN \<longrightarrow> carries L d S \<longrightarrow>
       (\<exists>buf. windivert_recv W (Inr (waits @ Inr (Some d) # later)) (replicate MAX_PACKET_LEN 0) = Some (Inr (length d), buf)
          \<and> take (length d) buf = d \<and> \<not> panics (reader_recv L (Inr (take (length d) buf)) r R st)))
    \<and> windivert_recv W (Inr (waits @ Inl e # later)) out = Some (Inl (Custom Other (''WinDivert recv failed: '' @ wd_show W e)), out)
    \<and> windivert_recv W (Inr waits) out = None"
proof (intro conjI impI)
  have skip: "dropWhile (\<lambda>a. a = Inr None) (waits @ rest) = dropWhile (\<lambda>a. a = Inr None) rest" for rest
    using assms by (induction waits) simp_all
  show "windivert_recv W (Inr (waits @ Inl e # later)) out = Some (Inl (Custom Other (''WinDivert recv failed: '' @ wd_show W e)), out)"
    by (simp add: windivert_recv_def windivert_recv_loop_eq skip windivert_error_def)
  have none: "dropWhile (\<lambda>a. a = Inr None) waits = []" using assms by (simp add: list_all_iff)
  show "windivert_recv W (Inr waits) out = None"
    unfolding windivert_recv_def windivert_recv_loop_eq sum.case none by simp
  assume d: "length d \<le> MAX_PACKET_LEN" "carries L d S"
  let ?buf = "write_at 0 d (replicate MAX_PACKET_LEN 0)"
  have "take (length d) ?buf = d" by (simp add: write_at_def)
  moreover have "windivert_recv W (Inr (waits @ Inr (Some d) # later)) (replicate MAX_PACKET_LEN 0) = Some (Inr (length d), ?buf)"
    using d(1) by (simp add: windivert_recv_def windivert_recv_loop_eq skip)
  moreover have "tun_device L (\<lambda>b. \<exists>S. carries L b S)" by unfold_locales
  then have "\<not> panics (reader_recv L (Inr d) r R st)" using tun_device.reader_survives d(2) by blast
  ultimately show "\<exists>buf. windivert_recv W (Inr (waits @ Inr (Some d) # later)) (replicate MAX_PACKET_LEN 0) = Some (Inr (length d), buf)
      \<and> take (length d) buf = d \<and> \<not> panics (reader_recv L (Inr (take (length d) buf)) r R st)" by auto
qed

definition sample_windivert :: "(nat, unit) windivert" where
  "sample_windivert = \<lparr>wd_show = show_nat, wd_network = (\<lambda>f. Inr ()), wd_send = (\<lambda>h p. Inr ())\<rparr>"

theorem windivert_recv_exact_witness:
  "\<exists>d buf. windivert_recv sample_windivert (Inr [Inr None, Inr (Some d)]) (replicate MAX_PACKET_LEN 0) = Some (Inr 44, buf)
     \<and> take 44 buf = d \<and> windivert_recv sample_windivert (Inr [Inr None]) [] = None"
proof -
  obtain b where b: "build_tcp_packet wire_lib (V4 (SocketAddrV4 3405803796 65009)) (V4 (SocketAddrV4 3325256714 40000))
      0 1 18 None = Ret b" "length b = 44" by (rule sample_built)
  have "same_family (V4 (SocketAddrV4 3405803796 65009)) (V4 (SocketAddrV4 3325256714 40000))" by (simp add: same_family_def)
  from wire.build_carries [OF this fits_None, where flags = 18 and seq = 0 and ack = 1] b(1) obtain S where "carries wire_lib b S" by auto
  with windivert_recv_exact [of "[Inr None]" b wire_lib S sample_windivert "[]" 0 undefined sample_stack 0 "[]"] b(2) show ?thesis
    by (auto simp: MAX_PACKET_LEN_def)
qed

end
