(* ===== verification/Spec2Isabelle.thy ===== *)
theory Spec2Isabelle
  imports MacClient_Properties Tun
begin

text \<open>
  \<^bold>\<open>A verification of phantun-client-mac.\<close>

  The program is the macOS client of Phantun. It takes UDP datagrams from local programs and sends
  each client's datagrams over a connection of its own that looks like TCP to the network but is a
  plain packet stream: there is a three-way handshake and there are sequence numbers, but no
  retransmission and no reordering. The crate \<open>fake-tcp\<close> builds and parses the packets and keeps the
  connections; the crate \<open>phantun-client-mac\<close> supplies packet input and output on macOS, a packet filter
  rule that keeps the operating system's own TCP away from these packets, the configuration, and
  the forwarding loop.

  \<^bold>\<open>How the parts interact.\<close> \<open>main\<close> loads the configuration, opens the packet device and starts the forwarder. The
  forwarder opens a \<open>Socket\<close> of the \<open>Stack\<close> for every new UDP client; the socket builds packets and sends
  them through the device. One reader task per device takes packets from it and dispatches them
  through the shared table to the sockets; the forwarder's workers take the payloads from there back
  to the clients.

  \<^bold>\<open>Theories, bottom up.\<close>

  \<^item> \<open>Prelude\<close>: words, panics and I/O errors as values, byte order, buffers, and the locale
    \<open>step_invariant\<close> from which every state machine below gets its reachability theorem. \<open>Net\<close>: addresses
    and their text form.
  \<^item> \<open>Packet\<close>, \<open>Packet_Layout\<close> (\<open>fake-tcp/src/packet.rs\<close>): \<open>build_tcp_packet\<close> and \<open>parse_ip_packet\<close>. The
    crates \<open>pnet_packet\<close> and \<open>internet_checksum\<close> are the parameter \<open>packet_lib\<close>, whose documented layout is the
    locale \<open>packet_layout\<close>; \<open>wire_lib\<close> is an instance that writes the real header bytes. Shown: the round
    trip of building and parsing, valid IPv4 and TCP checksums, and exactly which inputs panic.
  \<^item> \<open>Socket\<close>, \<open>Handshake\<close> (\<open>Socket\<close> in \<open>fake-tcp/src/lib.rs\<close>): \<open>send\<close>, \<open>recv\<close>, \<open>connect\<close>, \<open>accept\<close>. What the device
    answers and what arrives are inputs. Shown: \<open>connect\<close> is the only run of the abstract client machine
    \<open>client_step\<close> on the answers and packets it got, success is reported only after a valid exchange, the handshake completes with a
    willing server, bounds on connection requests and on unacknowledged data, delivery of datagrams.
  \<^item> \<open>Stack\<close>, \<open>Dispatch\<close>, \<open>Dispatch_Properties\<close> (\<open>Stack\<close>, \<open>reader_task\<close> and \<open>drop\<close> in \<open>lib.rs\<close>): the shared table,
    the readers with their caches, port allocation, listening. Every part of a task between two
    points where it may be interrupted is one function, and \<open>stack_step\<close> interleaves them freely. The
    channels of \<open>flume\<close> and \<open>tokio\<close> are the parameter \<open>chan_lib\<close> with the locale \<open>channel_laws\<close>. Shown: an
    invariant of all reachable states, isolation of the connections, delivery, what closing does,
    the reasons for which a reader can die, port allocation as a reference search.
  \<^item> \<open>Link\<close>, \<open>Decoder\<close>, \<open>Capture\<close> (\<open>BpfCapture\<close> in \<open>macos_packet.rs\<close>): link-layer frames, streams of BPF
    records, the capture device. Shown: the decoder is total, accepts only packets of the configured
    server and misses none; reading keeps arrival order.
  \<^item> \<open>RawSender\<close> (\<open>RawPacketSender\<close>): raw sockets, the header conversion of Darwin, the write loop. Shown:
    which buffer is submitted for a packet that was built, and when \<open>send\<close> returns. What the kernel makes of the
    buffer is not modelled.
  \<^item> \<open>Text\<close>, \<open>Firewall\<close> (\<open>FirewallGuard\<close>, the cleanup helper and the \<open>route\<close> lookup): commands and
    processes are the parameter \<open>fw_system\<close>, and nothing is assumed about what they answer or do. The locale \<open>fw_log\<close>, which every
    system satisfies once its calls are recorded (\<open>logged\<close>), gives the sequence of calls, and \<open>account\<close> reads off it which references
    and rules were reported as established and not yet asked to be removed. Shown, in these terms: installation is a transaction,
    drop and watchdog ask for the removal of exactly what was installed. Whether \<open>pfctl\<close> then does it is outside the program, which
    only logs a failure; the two ways in which the program itself can leave something behind are a reference without a printed
    token and a rule whose load reported a failure (\<open>failed_load_not_cleared\<close>).
  \<^item> \<open>Device\<close> (\<open>MacPacketDevice\<close>): the composition, and the contract \<open>tun_device\<close> on which the reader relies.
    Shown: the device never makes the reader panic, and the path of a packet from the server's
    builder into the queue of the right socket.
  \<^item> \<open>Receive\<close> (the \<open>select!\<close> of \<open>reader_task\<close> over \<open>BpfCapture::read_packet\<close>): receives that are dropped while their
    blocking task runs. Shown: packets are lost only to dropped receives, which is possible whenever a
    connection is closed, and a call of \<open>read_packet\<close> is a run of this machine.
  \<^item> \<open>Tun\<close> (\<open>tun.rs\<close>): the Linux and Windows devices over the parameters \<open>tokio_tun\<close> and \<open>windivert\<close>. Shown: what a
    receive on Windows returns.
  \<^item> \<open>Config\<close> (\<open>config.rs\<close> and the address set-up of \<open>main.rs\<close>): precedence of the sources of the configuration and
    usability of the addresses.
  \<^item> \<open>Forwarder\<close>, \<open>Forwarder_Properties\<close> (\<open>forwarder.rs\<close>, \<open>udp_recv_pktinfo\<close> of \<open>udp.rs\<close>): the main loop, the workers and
    the timeout tasks as interleaved steps on the connection table. Shown: exclusive table entries,
    faithful forwarding in both directions, no use of a dropped socket, clean-up of cancelled
    connections and of a shutdown, by the steps (\<open>quit_step\<close>) that need neither the server nor the clock; each step
    of a task is labelled with the \<open>branch\<close> of \<open>select!\<close> that it takes.
  \<^item> \<open>Client\<close> (\<open>main\<close> of \<open>main.rs\<close>, \<open>new_udp_reuseport\<close> of \<open>udp.rs\<close>): starting the client is all or nothing.
  \<^item> \<open>Session\<close>, \<open>Session_Invariant\<close>, \<open>Session_Properties\<close> (\<open>run_forwarder\<close> on the sockets of the \<open>Stack\<close>): the forwarder and
    the stack as one system, on any device. A step of \<open>forward_step\<close> is one of a forwarder task, or a call from
    the forwarder into the stack (\<open>connect\<close>, \<open>send\<close>, \<open>recv\<close>, drop), which changes both; \<open>session_step\<close> adds the steps of
    the reader, whose packets are arbitrary. Shown: connections and
    sockets correspond; the datagrams on the wire are those of the clients and the answers those of the
    server, each on its own connection and in order; which operations can panic; a whole
    exchange from a new client's datagram to the answer.
  \<^item> \<open>MacClient\<close>, \<open>MacClient_Properties\<close> (\<open>main.rs\<close> as a whole): the session on the device that \<open>main\<close> opened. In \<open>mac_step\<close> the
    reader's packets are those that \<open>recv\<close> of the device returns, and the forwarder's steps are those of the
    session. The state pairs a \<open>Session\<close> with the \<open>Recv\<close> of the device, and the locale \<open>mac_laws\<close> joins the laws of
    the channels with those of the decoder. Shown of every client whose start succeeded: a run refines
    a run of the session and one of the device; it sends packets to the configured server only;
    clients get only payloads of the server's packets in the kernel's buffers, in order; no packet ends the
    reader, and what does; the whole exchange again, from the kernel's buffers, in a simulation of the
    session's run.

  \<^bold>\<open>Conventions.\<close> A Rust function that may panic returns an \<open>outcome\<close>, one that returns \<open>io::Result\<close> an \<open>io\<close>
  value. Loops over data are total functions. Loops that wait for the outside world (\<open>read_packet\<close>,
  \<open>poll_loop\<close>, \<open>wait_writable\<close>, \<open>parent_gone\<close>) take the list of answers they will get and are undefined
  (\<open>None\<close>) when it ends first; the theorems that they return say after which answer. The loops of the
  handshake run at most \<open>RETRIES\<close> times, as in the code. Arithmetic on \<open>u32\<close> without \<open>wrapping_\<close> takes the
  build's overflow setting. Outputs of system commands are taken to be ASCII text.

  \<^bold>\<open>Assumptions of the step relations.\<close> A task is interrupted only where it awaits, and dropping a socket is
  one step. In \<open>stack_step\<close> ports that a program listens on lie outside the range from which connecting
  sockets draw theirs. In \<open>fw_step\<close> the connections are abstract: the results of \<open>connect\<close>, \<open>send\<close> and \<open>recv\<close> are
  arbitrary, and the timeout may fire at any time; \<open>session_step\<close> replaces these results by those of the
  stack, for the release build. A panic while \<open>connect\<close> opens a socket stops the main loop (\<open>dial_aborts\<close>), which the
  set-up of \<open>main\<close> excludes. A run of \<open>session_step\<close> ends when a socket is dropped after the last
  reader has died, because the drop then panics. In \<open>mac_step\<close> the buffers the kernel will deliver are a list
  fixed at the start; a read may also return nothing or fail at any time. \<open>try_send\<close> and \<open>send\<close> may fail
  at any time, too, and a packet counts as sent when it is given to the device.

  \<^bold>\<open>Not modelled.\<close> Log output and \<open>Display\<close> of sockets, which feeds only the log;
  \<open>detach_cleanup_helper_from_terminal_signals\<close>, which sets signal dispositions and the process group of the
  helper and nothing the helper reads; the layout of the structures passed to C; the parsers of \<open>serde_json\<close>, \<open>clap\<close> and of textual
  addresses, name lookup and system calls, which are parameters; the benchmarks and tests. Real time
  is not modelled: durations only decide which answers are possible. The other
  functions of the two crates each have a definition here.
\<close>

end
